(* ===== verification/Prelude.thy ===== *)
theory Prelude
  imports Complex_Main "HOL-Library.AList" "HOL-Library.Multiset" "HOL-Library.Word"
begin

text \<open>
  Shared vocabulary of the development: JavaScript exceptions as values of a sum type with
  its sequencing operator, the generic lemmas on association lists and lists that every
  component uses, the interface of a keyed store and its interpretation on association
  lists, and the generic notion of the states a step relation reaches.
\<close>

section \<open>Exceptions as values\<close>

text \<open>
  What a statement can throw. The engine's own errors carry no message here (their text
  is engine specific); \<open>Thrown m\<close> is the source's own \<open>throw new Error(m)\<close>.
\<close>

datatype jserr = TypeErr | SyntaxErr | URIErr | Thrown string

type_synonym 'a res = "jserr + 'a"

definition rbind :: "'e + 'a \<Rightarrow> ('a \<Rightarrow> 'e + 'b) \<Rightarrow> 'e + 'b" where
  "rbind r f = (case r of Inl e \<Rightarrow> Inl e | Inr x \<Rightarrow> f x)"

lemma rbind_Inl [simp]: "rbind (Inl e) f = Inl e"
  by (simp add: rbind_def)

lemma rbind_Inr [simp]: "rbind (Inr x) f = f x"
  by (simp add: rbind_def)

lemma rbind_assoc: "rbind (rbind r f) g = rbind r (\<lambda>x. rbind (f x) g)"
  by (cases r) simp_all

lemma rbind_Inr_right [simp]: "rbind r Inr = r"
  by (cases r) simp_all

lemma rbind_eq_Inr: "rbind r f = Inr y \<longleftrightarrow> (\<exists>x. r = Inr x \<and> f x = Inr y)"
  by (cases r) simp_all

lemma rbind_eq_Inl: "rbind r f = Inl e \<longleftrightarrow> r = Inl e \<or> (\<exists>x. r = Inr x \<and> f x = Inl e)"
  by (cases r) simp_all

lemma rbind_total:
  "\<exists>x. r = Inr x \<Longrightarrow> (\<And>x. r = Inr x \<Longrightarrow> \<exists>y. f x = Inr y) \<Longrightarrow> \<exists>y. rbind r f = Inr y"
  by auto

lemma rbind_cong [fundef_cong]:
  "r = r' \<Longrightarrow> (\<And>x. r' = Inr x \<Longrightarrow> f x = g x) \<Longrightarrow> rbind r f = rbind r' g"
  by (cases r') simp_all

text \<open>A loop over a list whose body can throw: the first exception ends it.\<close>

fun rmapM :: "('a \<Rightarrow> 'e + 'b) \<Rightarrow> 'a list \<Rightarrow> 'e + 'b list" where
  "rmapM f [] = Inr []"
| "rmapM f (x # xs) = rbind (f x) (\<lambda>y. rbind (rmapM f xs) (\<lambda>ys. Inr (y # ys)))"

lemma rmapM_Inr_length: "rmapM f xs = Inr ys \<Longrightarrow> length ys = length xs"
  by (induction xs arbitrary: ys) (auto simp: rbind_eq_Inr)

lemma rmapM_Inr_nth:
  "rmapM f xs = Inr ys \<Longrightarrow> i < length xs \<Longrightarrow> f (xs ! i) = Inr (ys ! i)"
  by (induction xs arbitrary: ys i) (auto simp: rbind_eq_Inr nth_Cons split: nat.splits)

lemma rmapM_total:
  "(\<And>x. x \<in> set xs \<Longrightarrow> f x = Inr (g x)) \<Longrightarrow> rmapM f xs = Inr (map g xs)"
  by (induction xs) simp_all

lemma rmapM_cong [fundef_cong]:
  "xs = ys \<Longrightarrow> (\<And>x. x \<in> set ys \<Longrightarrow> f x = g x) \<Longrightarrow> rmapM f xs = rmapM g ys"
  by (induction ys arbitrary: xs) (auto intro: rbind_cong)

section \<open>Keyed stores\<close>

text \<open>
  The contract every keyed store of the program offers its clients: an own property of an
  object, an attribute of an element, an entry of the browser's storage. The clients only
  rely on these two laws.
\<close>

locale keyed_store =
  fixes look :: "'m \<Rightarrow> 'k \<Rightarrow> 'v option"
    and put :: "'k \<Rightarrow> 'v \<Rightarrow> 'm \<Rightarrow> 'm"
  assumes look_put_same: "look (put k v m) k = Some v"
    and look_put_other: "k' \<noteq> k \<Longrightarrow> look (put k v m) k' = look m k'"
begin

lemma look_put: "look (put k v m) k' = (if k' = k then Some v else look m k')"
  by (simp add: look_put_same look_put_other)

lemma look_put_put: "look (put k v (put k w m)) k' = look (put k v m) k'"
  by (simp add: look_put)

lemma look_put_commute:
  "k \<noteq> l \<Longrightarrow> look (put k v (put l w m)) k' = look (put l w (put k v m)) k'"
  by (simp add: look_put)

lemma put_frame: "k' \<notin> set ks \<Longrightarrow> look (fold (\<lambda>k. put k (g k)) ks m) k' = look m k'"
  by (induction ks arbitrary: m) (auto simp: look_put)

end

interpretation alist_store: keyed_store map_of AList.update
  by unfold_locales (simp_all add: update_conv')

lemma map_of_update [simp]:
  "map_of (AList.update k v m) k' = (if k' = k then Some v else map_of m k')"
  by (rule alist_store.look_put)

section \<open>Reachable states\<close>

inductive reach :: "'s set \<Rightarrow> ('s \<Rightarrow> 's \<Rightarrow> bool) \<Rightarrow> 's \<Rightarrow> bool"
  for I :: "'s set" and step :: "'s \<Rightarrow> 's \<Rightarrow> bool" where
  reach_init: "s \<in> I \<Longrightarrow> reach I step s"
| reach_step: "reach I step s \<Longrightarrow> step s t \<Longrightarrow> reach I step t"

lemma reach_mono: "reach I step t \<Longrightarrow> I \<subseteq> J \<Longrightarrow> reach J step t"
  by (induction rule: reach.induct) (auto intro: reach.intros)

text \<open>A transition system with an invariant every step keeps.\<close>

locale invariant_system =
  fixes init :: "'s set" and step :: "'s \<Rightarrow> 's \<Rightarrow> bool" and inv :: "'s \<Rightarrow> bool"
  assumes inv_init: "s \<in> init \<Longrightarrow> inv s"
    and inv_step: "step s t \<Longrightarrow> inv s \<Longrightarrow> inv t"
begin

lemma inv_reach: "reach init step s \<Longrightarrow> inv s"
  by (induction rule: reach.induct) (auto intro: inv_init inv_step)

lemma inv_rtranclp: "step\<^sup>*\<^sup>* s t \<Longrightarrow> inv s \<Longrightarrow> inv t"
  by (induction rule: rtranclp_induct) (auto intro: inv_step)

end

text \<open>
  Labelled actions, and a system whose own actions settle: each of them uses up some work and
  leaves an observation alone, and one is enabled until the state is settled. Every schedule
  of own actions is then bounded by the work, and can be completed to a settled state.
\<close>

fun run_acts :: "('a \<Rightarrow> 's \<Rightarrow> 's option) \<Rightarrow> 'a list \<Rightarrow> 's \<Rightarrow> 's option" where
  "run_acts act [] s = Some s"
| "run_acts act (a # as) s = Option.bind (act a s) (run_acts act as)"

lemma run_acts_append: "run_acts act (as @ bs) s = Option.bind (run_acts act as s) (run_acts act bs)"
  by (induction as arbitrary: s) (auto split: bind_split)

lemma run_acts_reach:
  assumes "\<And>a s t. act a s = Some t \<Longrightarrow> step s t"
  shows "run_acts act as s = Some t \<Longrightarrow> reach I step s \<Longrightarrow> reach I step t"
proof (induction as arbitrary: s)
  case (Cons a as)
  then obtain s1 where "act a s = Some s1" "run_acts act as s1 = Some t" by (auto simp: bind_eq_Some_conv)
  with Cons show ?case by (blast intro: reach_step assms)
qed simp

locale settling_system = invariant_system init step inv
  for init :: "'s set" and step :: "'s \<Rightarrow> 's \<Rightarrow> bool" and inv :: "'s \<Rightarrow> bool" +
  fixes act :: "'a \<Rightarrow> 's \<Rightarrow> 's option" and own :: "'a \<Rightarrow> bool" and work :: "'s \<Rightarrow> nat"
    and settled :: "'s \<Rightarrow> bool" and obs :: "'s \<Rightarrow> 'o"
  assumes act_step: "act a s = Some t \<Longrightarrow> step s t"
    and own_work: "inv s \<Longrightarrow> own a \<Longrightarrow> act a s = Some t \<Longrightarrow> work t < work s \<and> obs t = obs s"
    and own_enabled: "inv s \<Longrightarrow> \<not> settled s \<Longrightarrow> \<exists>a t. own a \<and> act a s = Some t"
begin

lemma act_inv: "act a s = Some t \<Longrightarrow> inv s \<Longrightarrow> inv t"
  by (rule inv_step [OF act_step])

lemma own_bounded:
  "list_all own as \<Longrightarrow> run_acts act as s = Some t \<Longrightarrow> inv s \<Longrightarrow>
     inv t \<and> length as + work t \<le> work s \<and> obs t = obs s"
proof (induction as arbitrary: s)
  case (Cons a as)
  then obtain s1 where s1: "own a" "act a s = Some s1" "list_all own as" "run_acts act as s1 = Some t"
    by (auto simp: bind_eq_Some_conv)
  from Cons.IH [OF s1(3,4) act_inv [OF s1(2) Cons.prems(3)]] own_work [OF Cons.prems(3) s1(1,2)]
  show ?case by simp
qed simp

lemma own_settles:
  "inv s \<Longrightarrow> \<exists>as t. list_all own as \<and> run_acts act as s = Some t \<and> settled t"
proof (induction "work s" arbitrary: s rule: less_induct)
  case less
  show ?case
  proof (cases "settled s")
    case True
    then show ?thesis by (intro exI [of _ "[]"] exI [of _ s]) simp
  next
    case False
    from own_enabled [OF less.prems this] obtain a s1 where a: "own a" "act a s = Some s1" by blast
    with own_work [OF less.prems] have "work s1 < work s" by blast
    from less.hyps [OF this act_inv [OF a(2) less.prems]] obtain as t where
      "list_all own as" "run_acts act as s1 = Some t" "settled t" by blast
    with a show ?thesis by (intro exI [of _ "a # as"] exI [of _ t]) simp
  qed
qed

lemma settles:
  assumes "reach init step s"
  shows "\<exists>as t. length as \<le> work s \<and> list_all own as \<and> run_acts act as s = Some t \<and> settled t \<and> inv t \<and> obs t = obs s"
proof -
  note i = inv_reach [OF assms]
  obtain as t where "list_all own as" "run_acts act as s = Some t" "settled t" using own_settles [OF i] by blast
  with own_bounded [OF _ _ i] show ?thesis by (metis add_leD1)
qed

lemma terminates:
  assumes "reach init step s" and "list_all own as" and "run_acts act as s = Some t"
  shows "length as + work t \<le> work s \<and> (settled t \<or> (\<exists>a t'. own a \<and> act a t = Some t' \<and> work t' < work t))"
  using own_bounded [OF assms(2,3) inv_reach [OF assms(1)]] own_enabled [of t] own_work [of t] by blast

end

section \<open>Lists\<close>

lemma takeWhile_append_stop:
  "\<forall>x \<in> set xs. P x \<Longrightarrow> (ys = [] \<or> \<not> P (hd ys)) \<Longrightarrow> takeWhile P (xs @ ys) = xs"
  by (induction xs) (cases ys; auto)+

lemma dropWhile_append_stop:
  "\<forall>x \<in> set xs. P x \<Longrightarrow> (ys = [] \<or> \<not> P (hd ys)) \<Longrightarrow> dropWhile P (xs @ ys) = ys"
  by (induction xs) (cases ys; auto)+

lemma map_of_filter_fst:
  "map_of (filter (\<lambda>p. P (fst p)) m) k = (if P k then map_of m k else None)"
  by (induction m) auto

end
