(* ===== verification/JsValue.thy ===== *)
theory JsValue
  imports Prelude
begin

text \<open>
  The JavaScript values the modules of \<open>web/\<close> compute with and the language operations they
  use: truthiness and \<open>||\<close>, property reads and writes (strict mode, as ES modules are),
  \<open>ToNumber\<close>, \<open>ToInt32\<close>, \<open>ToString\<close> and strict equality. A number is the rational
  its literal denotes or one of the three special values (rounding to 53 bits and the sign
  of zero are not modelled); a string is the UTF-8 bytes of its text; an object is the list of
  its own properties in creation order; \<open>JFn n\<close> is a built-in function of name \<open>n\<close>,
  which plain objects inherit.
\<close>

unbundle bit_operations_syntax

section \<open>Values\<close>

datatype jsnum = Fin rat | PosInf | NegInf | NaN

datatype jsval =
    JUndef
  | JNull
  | JBool bool
  | JNum jsnum
  | JStr string
  | JArr "jsval list"
  | JObj "(string \<times> jsval) list"
  | JFn string

abbreviation jint :: "int \<Rightarrow> jsval" where
  "jint n \<equiv> JNum (Fin (of_int n))"

lemma jsval_induct [case_names undef null bool num str arr obj fn]:
  assumes "P JUndef" and "P JNull" and "\<And>b. P (JBool b)" and "\<And>n. P (JNum n)"
    and "\<And>s. P (JStr s)"
    and "\<And>xs. (\<And>x. x \<in> set xs \<Longrightarrow> P x) \<Longrightarrow> P (JArr xs)"
    and "\<And>kvs. (\<And>k v. (k, v) \<in> set kvs \<Longrightarrow> P v) \<Longrightarrow> P (JObj kvs)"
    and "\<And>s. P (JFn s)"
  shows "P v"
proof (induction v rule: jsval.induct)
  case (JObj kvs)
  show ?case
  proof (rule assms(7))
    fix k v assume "(k, v) \<in> set kvs"
    then show "P v" by (rule JObj) simp
  qed
qed (auto intro: assms)

fun truthy :: "jsval \<Rightarrow> bool" where
  "truthy JUndef = False"
| "truthy JNull = False"
| "truthy (JBool b) = b"
| "truthy (JNum n) = (n \<noteq> Fin 0 \<and> n \<noteq> NaN)"
| "truthy (JStr s) = (s \<noteq> [])"
| "truthy (JArr xs) = True"
| "truthy (JObj kvs) = True"
| "truthy (JFn s) = True"

definition js_or :: "jsval \<Rightarrow> jsval \<Rightarrow> jsval" where
  "js_or a b = (if truthy a then a else b)"

lemma js_or_truthy [simp]: "truthy a \<Longrightarrow> js_or a b = a"
  by (simp add: js_or_def)

lemma js_or_falsy [simp]: "\<not> truthy a \<Longrightarrow> js_or a b = b"
  by (simp add: js_or_def)

lemma truthy_js_or [simp]: "truthy (js_or a b) \<longleftrightarrow> truthy a \<or> truthy b"
  by (simp add: js_or_def)

text \<open>\<open>x == null\<close> (and so \<open>x != null\<close>): the loose test for an absent value.\<close>

fun nullish :: "jsval \<Rightarrow> bool" where
  "nullish JUndef = True"
| "nullish JNull = True"
| "nullish _ = False"

fun is_arr :: "jsval \<Rightarrow> bool" where
  "is_arr (JArr _) = True"
| "is_arr _ = False"

fun is_str :: "jsval \<Rightarrow> bool" where
  "is_str (JStr _) = True"
| "is_str _ = False"

lemma is_arr_iff: "is_arr v \<longleftrightarrow> (\<exists>xs. v = JArr xs)"
  by (cases v) simp_all

lemma is_str_iff: "is_str v \<longleftrightarrow> (\<exists>s. v = JStr s)"
  by (cases v) simp_all

lemma is_arr_truthy: "is_arr v \<Longrightarrow> truthy v"
  by (cases v) simp_all

section \<open>Properties\<close>

text \<open>
  What a read of an absent own property finds on \<open>Object.prototype\<close>. A lookup table
  written as an object literal answers these names too, with a truthy value.
\<close>

definition proto_methods :: "string list" where
  "proto_methods = [''toString'', ''toLocaleString'', ''valueOf'', ''hasOwnProperty'',
     ''isPrototypeOf'', ''propertyIsEnumerable'', ''__defineGetter__'', ''__defineSetter__'',
     ''__lookupGetter__'', ''__lookupSetter__'']"

definition proto_member :: "string \<Rightarrow> jsval" where
  "proto_member k =
     (if k = ''constructor'' then JFn ''Object''
      else if k = ''__proto__'' then JObj []
      else if k \<in> set proto_methods then JFn k
      else JUndef)"

definition obj_get :: "(string \<times> jsval) list \<Rightarrow> string \<Rightarrow> jsval" where
  "obj_get kvs k = (case map_of kvs k of Some v \<Rightarrow> v | None \<Rightarrow> proto_member k)"

text \<open>The length of a string in UTF-16 code units: one for each UTF-8 sequence, two for those of four bytes.\<close>

definition utf16_len :: "string \<Rightarrow> nat" where
  "utf16_len s = length (filter (\<lambda>c. (of_char c :: nat) < 128 \<or> 192 \<le> (of_char c :: nat)) s) +
     length (filter (\<lambda>c. 240 \<le> (of_char c :: nat)) s)"

text \<open>\<open>v.k\<close>. On an array only \<open>length\<close> is an own named property.\<close>

fun get_prop :: "jsval \<Rightarrow> string \<Rightarrow> jsval res" where
  "get_prop JUndef k = Inl TypeErr"
| "get_prop JNull k = Inl TypeErr"
| "get_prop (JObj kvs) k = Inr (obj_get kvs k)"
| "get_prop (JArr xs) k =
     Inr (if k = ''length'' then jint (int (length xs)) else proto_member k)"
| "get_prop (JStr s) k =
     Inr (if k = ''length'' then jint (int (utf16_len s)) else proto_member k)"
| "get_prop (JBool b) k = Inr (proto_member k)"
| "get_prop (JNum n) k = Inr (proto_member k)"
| "get_prop (JFn s) k = Inr (proto_member k)"

text \<open>
  \<open>v.k = x\<close> in strict mode: a primitive has nowhere to keep a property. A named property
  of an array is invisible to \<open>JSON.stringify\<close> and to every later reader of \<open>web/\<close>.
\<close>

fun set_prop :: "jsval \<Rightarrow> string \<Rightarrow> jsval \<Rightarrow> jsval res" where
  "set_prop (JObj kvs) k x = Inr (JObj (AList.update k x kvs))"
| "set_prop (JArr xs) k x = Inr (JArr xs)"
| "set_prop (JFn s) k x = Inr (JFn s)"
| "set_prop _ k x = Inl TypeErr"

text \<open>\<open>v[0]\<close>, the only index the modules read from a value of unknown type.\<close>

definition utf8_first :: "string \<Rightarrow> string" where
  "utf8_first s = (case s of [] \<Rightarrow> []
     | c # r \<Rightarrow> c # takeWhile (\<lambda>d. 128 \<le> (of_char d :: nat) \<and> (of_char d :: nat) < 192) r)"

fun index0 :: "jsval \<Rightarrow> jsval res" where
  "index0 JUndef = Inl TypeErr"
| "index0 JNull = Inl TypeErr"
| "index0 (JArr xs) = Inr (case xs of [] \<Rightarrow> JUndef | x # _ \<Rightarrow> x)"
| "index0 (JStr s) = Inr (case s of [] \<Rightarrow> JUndef | _ \<Rightarrow> JStr (utf8_first s))"
| "index0 (JObj kvs) = Inr (case map_of kvs ''0'' of Some v \<Rightarrow> v | None \<Rightarrow> JUndef)"
| "index0 _ = Inr JUndef"

text \<open>\<open>v[0] = x\<close> writes through to the container an element was read from.\<close>

fun set_index0 :: "jsval \<Rightarrow> jsval \<Rightarrow> jsval" where
  "set_index0 (JArr (_ # xs)) x = JArr (x # xs)"
| "set_index0 (JObj kvs) x = JObj (AList.update ''0'' x kvs)"
| "set_index0 v x = v"

lemma obj_get_update [simp]:
  "obj_get (AList.update k v kvs) k' = (if k' = k then v else obj_get kvs k')"
  by (simp add: obj_get_def)

lemma obj_get_Some: "map_of kvs k = Some v \<Longrightarrow> obj_get kvs k = v"
  by (simp add: obj_get_def)

lemma obj_get_None: "map_of kvs k = None \<Longrightarrow> obj_get kvs k = proto_member k"
  by (simp add: obj_get_def)

lemma obj_get_Nil: "obj_get [] k = proto_member k"
  by (simp add: obj_get_def)

lemma obj_get_Cons:
  "obj_get ((k', v) # kvs) k = (if k = k' then v else obj_get kvs k)"
  by (simp add: obj_get_def)

lemmas obj_get_simps = obj_get_Nil obj_get_Cons

text \<open>A truthy result of a table read is an own entry or an inherited member.\<close>

lemma truthy_obj_getD:
  "truthy (obj_get kvs k) \<Longrightarrow> map_of kvs k \<noteq> None \<or> truthy (proto_member k)"
  by (cases "map_of kvs k") (simp_all add: obj_get_def)

section \<open>Numbers\<close>

definition trunc_rat :: "rat \<Rightarrow> int" where
  "trunc_rat q = (if 0 \<le> q then \<lfloor>q\<rfloor> else \<lceil>q\<rceil>)"

lemma trunc_rat_of_int [simp]: "trunc_rat (of_int n) = n"
  by (simp add: trunc_rat_def)

lemma trunc_rat_numeral [simp]:
  "trunc_rat 0 = 0" "trunc_rat 1 = 1" "trunc_rat (numeral w) = numeral w"
  by (simp_all add: trunc_rat_def)

fun to_int32 :: "jsnum \<Rightarrow> 32 word" where
  "to_int32 (Fin q) = word_of_int (trunc_rat q)"
| "to_int32 _ = 0"

definition of_int32 :: "32 word \<Rightarrow> jsnum" where
  "of_int32 w = Fin (of_int (sint w))"

end
