(* ===== verification/JsText.thy ===== *)
theory JsText
  imports JsValue
begin

text \<open>
  Text of JavaScript values: decimal numerals and their inverse, \<open>ToString\<close>,
  \<open>ToNumber\<close> (with the numeric literals a string may hold), hexadecimal digits,
  \<open>String.prototype\<close> helpers the modules call (\<open>trim\<close>, \<open>startsWith\<close>,
  \<open>join\<close>), and the code points beyond ASCII the page prints, as UTF-8.
\<close>

section \<open>Decimal numerals\<close>

definition digit_char :: "nat \<Rightarrow> char" where
  "digit_char d = char_of (48 + d)"

definition is_digit :: "char \<Rightarrow> bool" where
  "is_digit c \<longleftrightarrow> 48 \<le> (of_char c :: nat) \<and> (of_char c :: nat) \<le> 57"

definition digit_val :: "char \<Rightarrow> nat" where
  "digit_val c = of_char c - 48"

fun nat_str :: "nat \<Rightarrow> string" where
  "nat_str n = (if n < 10 then [digit_char n] else nat_str (n div 10) @ [digit_char (n mod 10)])"

declare nat_str.simps [simp del]

definition str_nat :: "string \<Rightarrow> nat" where
  "str_nat s = foldl (\<lambda>a c. 10 * a + digit_val c) 0 s"

definition int_str :: "int \<Rightarrow> string" where
  "int_str n = (if n < 0 then CHR ''-'' # nat_str (nat (- n)) else nat_str (nat n))"

lemma of_char_digit [simp]: "d < 10 \<Longrightarrow> (of_char (digit_char d) :: nat) = 48 + d"
  by (simp add: digit_char_def)

lemma is_digit_digit_char [simp]: "d < 10 \<Longrightarrow> is_digit (digit_char d)"
  by (simp add: is_digit_def)

lemma digit_val_digit_char [simp]: "d < 10 \<Longrightarrow> digit_val (digit_char d) = d"
  by (simp add: digit_val_def)

lemma str_nat_snoc: "str_nat (s @ [c]) = 10 * str_nat s + digit_val c"
  by (simp add: str_nat_def)

lemma nat_str_nonempty [simp]: "nat_str n \<noteq> []"
  by (subst nat_str.simps) simp

lemma nat_str_digits: "\<forall>c \<in> set (nat_str n). is_digit c"
proof (induction n rule: nat_str.induct)
  case (1 n)
  then show ?case
    by (cases "n < 10") (auto simp: nat_str.simps [of n])
qed

lemma str_nat_nat_str [simp]: "str_nat (nat_str n) = n"
proof (induction n rule: nat_str.induct)
  case (1 n)
  show ?case
  proof (cases "n < 10")
    case True
    then show ?thesis by (simp add: nat_str.simps [of n] str_nat_def)
  next
    case False
    with 1 have "str_nat (nat_str n) = 10 * (n div 10) + n mod 10"
      by (simp add: nat_str.simps [of n] str_nat_snoc)
    then show ?thesis by simp
  qed
qed

lemma nat_str_inj: "nat_str m = nat_str n \<longleftrightarrow> m = n"
  by (metis str_nat_nat_str)

lemma is_digit_neq: "is_digit c \<Longrightarrow> c \<noteq> CHR ''-''"
  by (auto simp: is_digit_def)

text \<open>
  A number's text: an integer's decimal digits, otherwise the finite decimal expansion of
  the double (at most 1074 digits follow the point). Exponent notation, which the engine
  uses from \<open>10^21\<close> on and below \<open>10^-6\<close>, is not modelled.
\<close>

fun frac_digits :: "nat \<Rightarrow> rat \<Rightarrow> string" where
  "frac_digits 0 r = []"
| "frac_digits (Suc n) r =
     (if r = 0 then []
      else digit_char (nat \<lfloor>10 * r\<rfloor>) # frac_digits n (10 * r - of_int \<lfloor>10 * r\<rfloor>))"

definition rat_str :: "rat \<Rightarrow> string" where
  "rat_str q =
     (if q = of_int \<lfloor>q\<rfloor> then int_str \<lfloor>q\<rfloor>
      else (if q < 0 then ''-'' else '''') @ nat_str (nat \<lfloor>\<bar>q\<bar>\<rfloor>) @ ''.'' @
           frac_digits 1074 (\<bar>q\<bar> - of_int \<lfloor>\<bar>q\<bar>\<rfloor>))"

lemma rat_str_of_int [simp]: "rat_str (of_int n) = int_str n"
  by (simp add: rat_str_def)

fun num_str :: "jsnum \<Rightarrow> string" where
  "num_str (Fin q) = rat_str q"
| "num_str PosInf = ''Infinity''"
| "num_str NegInf = ''-Infinity''"
| "num_str NaN = ''NaN''"

section \<open>Strings\<close>

fun join :: "string \<Rightarrow> string list \<Rightarrow> string" where
  "join sep [] = []"
| "join sep [s] = s"
| "join sep (s # t # r) = s @ sep @ join sep (t # r)"

definition starts_with :: "string \<Rightarrow> string \<Rightarrow> bool" where
  "starts_with p s \<longleftrightarrow> take (length p) s = p"

lemma starts_with_append [simp]: "starts_with p (p @ s)"
  by (simp add: starts_with_def)

definition is_space :: "char \<Rightarrow> bool" where
  "is_space c \<longleftrightarrow> (of_char c :: nat) \<in> {9, 10, 11, 12, 13, 32}"

definition trim :: "string \<Rightarrow> string" where
  "trim s = rev (dropWhile is_space (rev (dropWhile is_space s)))"

lemma trim_Nil [simp]: "trim [] = []"
  by (simp add: trim_def)

lemma trim_id: "\<forall>c \<in> set s. \<not> is_space c \<Longrightarrow> trim s = s"
proof -
  assume a: "\<forall>c \<in> set s. \<not> is_space c"
  have "dropWhile is_space t = t" if "\<forall>c \<in> set t. \<not> is_space c" for t
    using that by (cases t) simp_all
  from this [of s] this [of "rev s"] a show ?thesis by (simp add: trim_def)
qed

text \<open>Hexadecimal digits.\<close>

definition hex_val :: "char \<Rightarrow> nat option" where
  "hex_val c = (let n = (of_char c :: nat) in
     if 48 \<le> n \<and> n \<le> 57 then Some (n - 48)
     else if 97 \<le> n \<and> n \<le> 102 then Some (n - 87)
     else if 65 \<le> n \<and> n \<le> 70 then Some (n - 55)
     else None)"

definition hex_char :: "nat \<Rightarrow> char" where
  "hex_char d = char_of (if d < 10 then 48 + d else 87 + d)"

definition hex_char_upper :: "nat \<Rightarrow> char" where
  "hex_char_upper d = char_of (if d < 10 then 48 + d else 55 + d)"

lemma hex_val_hex_char [simp]: "d < 16 \<Longrightarrow> hex_val (hex_char d) = Some d"
  by (simp add: hex_val_def hex_char_def Let_def)

lemma hex_val_hex_char_upper [simp]: "d < 16 \<Longrightarrow> hex_val (hex_char_upper d) = Some d"
  by (simp add: hex_val_def hex_char_upper_def Let_def)

lemma hex_val_less: "hex_val c = Some d \<Longrightarrow> d < 16"
  by (auto simp: hex_val_def Let_def split: if_splits)

definition hex_digit :: "char \<Rightarrow> nat" where
  "hex_digit c = (case hex_val c of Some d \<Rightarrow> d | None \<Rightarrow> 0)"

definition hex_num :: "string \<Rightarrow> nat" where
  "hex_num s = foldl (\<lambda>a c. 16 * a + hex_digit c) 0 s"

section \<open>ToString and ToNumber\<close>

text \<open>
  \<open>String(v)\<close> and the substitutions of a template literal. An object prints as
  \<open>[object Object]\<close> unless it has an own \<open>toString\<close>, which JSON data can only make
  uncallable.
\<close>

fun to_str :: "jsval \<Rightarrow> string res" where
  "to_str JUndef = Inr ''undefined''"
| "to_str JNull = Inr ''null''"
| "to_str (JBool b) = Inr (if b then ''true'' else ''false'')"
| "to_str (JNum n) = Inr (num_str n)"
| "to_str (JStr s) = Inr s"
| "to_str (JArr xs) =
     rbind (rmapM (\<lambda>x. if nullish x then Inr '''' else to_str x) xs) (\<lambda>ss. Inr (join '','' ss))"
| "to_str (JObj kvs) =
     (if map_of kvs ''toString'' = None then Inr ''[object Object]'' else Inl TypeErr)"
| "to_str (JFn n) = Inr (''function '' @ n @ ''() { [native code] }'')"

text \<open>\<open>StringToNumber\<close>: the numeric literals with surrounding white space, or NaN.\<close>

definition dec_exp :: "string \<Rightarrow> int option" where
  "dec_exp s = (case s of
     [] \<Rightarrow> Some 0
   | c # r \<Rightarrow>
       if c = CHR ''e'' \<or> c = CHR ''E'' then
         (let neg = (r \<noteq> [] \<and> hd r = CHR ''-'');
              ds = (if r \<noteq> [] \<and> (hd r = CHR ''-'' \<or> hd r = CHR ''+'') then tl r else r)
          in if ds \<noteq> [] \<and> (\<forall>d \<in> set ds. is_digit d)
             then Some (if neg then - int (str_nat ds) else int (str_nat ds)) else None)
       else None)"

definition dec_lit :: "string \<Rightarrow> rat option" where
  "dec_lit s =
     (let ip = takeWhile is_digit s; r = dropWhile is_digit s;
          dot = (r \<noteq> [] \<and> hd r = CHR ''.'');
          fp = (if dot then takeWhile is_digit (tl r) else []);
          r2 = (if dot then dropWhile is_digit (tl r) else r)
      in if ip = [] \<and> fp = [] then None
         else map_option (\<lambda>e. of_nat (str_nat (ip @ fp)) * power_int 10 (e - int (length fp)))
                (dec_exp r2))"

definition str_to_num :: "string \<Rightarrow> jsnum" where
  "str_to_num s0 =
     (let s = trim s0 in
      if s = [] then Fin 0
      else if starts_with ''0x'' s \<or> starts_with ''0X'' s then
        (let h = drop 2 s in
         if h \<noteq> [] \<and> (\<forall>c \<in> set h. hex_val c \<noteq> None) then Fin (of_nat (hex_num h)) else NaN)
      else if s = ''Infinity'' \<or> s = ''+Infinity'' then PosInf
      else if s = ''-Infinity'' then NegInf
      else (let neg = (hd s = CHR ''-'');
                u = (if hd s = CHR ''-'' \<or> hd s = CHR ''+'' then tl s else s)
            in case dec_lit u of Some q \<Rightarrow> Fin (if neg then - q else q) | None \<Rightarrow> NaN))"

fun to_number :: "jsval \<Rightarrow> jsnum res" where
  "to_number JUndef = Inr NaN"
| "to_number JNull = Inr (Fin 0)"
| "to_number (JBool b) = Inr (Fin (if b then 1 else 0))"
| "to_number (JNum n) = Inr n"
| "to_number (JStr s) = Inr (str_to_num s)"
| "to_number v = rbind (to_str v) (\<lambda>s. Inr (str_to_num s))"

section \<open>Code points the page prints\<close>

definition u_arrow :: string where "u_arrow = [CHR 0xE2, CHR 0x86, CHR 0x92]"
definition u_dash :: string where "u_dash = [CHR 0xE2, CHR 0x80, CHR 0x94]"
definition u_mid :: string where "u_mid = [CHR 0xC2, CHR 0xB7]"
definition u_ellipsis :: string where "u_ellipsis = [CHR 0xE2, CHR 0x80, CHR 0xA6]"
definition u_check :: string where "u_check = [CHR 0xE2, CHR 0x9C, CHR 0x93]"
definition u_cross :: string where "u_cross = [CHR 0xE2, CHR 0x9C, CHR 0x97]"
definition u_apos :: string where "u_apos = [CHR 0xE2, CHR 0x80, CHR 0x99]"
definition u_lquo :: string where "u_lquo = [CHR 0xE2, CHR 0x80, CHR 0x9C]"
definition u_rquo :: string where "u_rquo = [CHR 0xE2, CHR 0x80, CHR 0x9D]"

lemma u_check_neq_cross [simp]: "u_check \<noteq> u_cross" "u_cross \<noteq> u_check"
  by (simp_all add: u_check_def u_cross_def)

end
