(* ===== verification/JsonText.thy ===== *)
theory JsonText
  imports JsText
begin

text \<open>
  \<open>JSON.stringify\<close> and \<open>JSON.parse\<close>, which the modules call on packages, on bundles kept
  as a string and on stream frames. The printer writes no white space; the reader accepts the
  whole grammar (white space, escapes with surrogate pairs, fractions and exponents, repeated
  keys: the last value wins). The reader recurses on fuel; one unit more than the length of the
  text is always enough (\<open>json_fuel_enough\<close>). The main fact is the round trip on data whose
  numbers are integers, which the numbers of an evidence package are.
\<close>

section \<open>Printing\<close>

definition json_esc :: "char \<Rightarrow> string" where
  "json_esc c =
     (if c = CHR 0x22 then [CHR 0x5C, CHR 0x22]
      else if c = CHR 0x5C then [CHR 0x5C, CHR 0x5C]
      else if c = CHR 0x08 then [CHR 0x5C, CHR ''b'']
      else if c = CHR 0x09 then [CHR 0x5C, CHR ''t'']
      else if c = CHR 0x0A then [CHR 0x5C, CHR ''n'']
      else if c = CHR 0x0C then [CHR 0x5C, CHR ''f'']
      else if c = CHR 0x0D then [CHR 0x5C, CHR ''r'']
      else if (of_char c :: nat) < 32 then
        [CHR 0x5C, CHR ''u'', CHR ''0'', CHR ''0'',
         hex_char (of_char c div 16), hex_char (of_char c mod 16)]
      else [c])"

definition json_quote :: "string \<Rightarrow> string" where
  "json_quote s = CHR 0x22 # concat (map json_esc s) @ [CHR 0x22]"

text \<open>What \<open>JSON.stringify\<close> leaves out of an object and writes as null in an array.\<close>

fun absent :: "jsval \<Rightarrow> bool" where
  "absent JUndef = True"
| "absent (JFn _) = True"
| "absent _ = False"

fun json_num :: "jsnum \<Rightarrow> string" where
  "json_num (Fin q) = rat_str q"
| "json_num _ = ''null''"

lemma size_snd_less: "p \<in> set kvs \<Longrightarrow> size (snd p) < Suc (size_list (size_prod (\<lambda>_. 0) size) kvs)"
  by (induction kvs) auto

fun json_text :: "jsval \<Rightarrow> string" where
  "json_text JUndef = ''null''"
| "json_text JNull = ''null''"
| "json_text (JBool b) = (if b then ''true'' else ''false'')"
| "json_text (JNum n) = json_num n"
| "json_text (JStr s) = json_quote s"
| "json_text (JArr xs) = ''['' @ join '','' (map json_text xs) @ '']''"
| "json_text (JObj kvs) =
     ''{'' @ join '','' (map (\<lambda>p. json_quote (fst p) @ '':'' @ json_text (snd p))
                       (filter (\<lambda>p. \<not> absent (snd p)) kvs)) @ ''}''"
| "json_text (JFn n) = ''null''"

definition json_stringify :: "jsval \<Rightarrow> jsval" where
  "json_stringify v = (if absent v then JUndef else JStr (json_text v))"

section \<open>Reading\<close>

definition is_json_ws :: "char \<Rightarrow> bool" where
  "is_json_ws c \<longleftrightarrow> c = CHR 0x20 \<or> c = CHR 0x09 \<or> c = CHR 0x0A \<or> c = CHR 0x0D"

definition skip_ws :: "string \<Rightarrow> string" where
  "skip_ws s = dropWhile is_json_ws s"

definition hex4 :: "char \<Rightarrow> char \<Rightarrow> char \<Rightarrow> char \<Rightarrow> nat option" where
  "hex4 a b c d =
     (case (hex_val a, hex_val b, hex_val c, hex_val d) of
        (Some w, Some x, Some y, Some z) \<Rightarrow> Some (4096 * w + 256 * x + 16 * y + z)
      | _ \<Rightarrow> None)"

definition utf8_enc :: "nat \<Rightarrow> string" where
  "utf8_enc n =
     (if n < 0x80 then [char_of n]
      else if n < 0x800 then [char_of (0xC0 + n div 64), char_of (0x80 + n mod 64)]
      else if n < 0x10000 then
        [char_of (0xE0 + n div 4096), char_of (0x80 + n div 64 mod 64), char_of (0x80 + n mod 64)]
      else [char_of (0xF0 + n div 262144), char_of (0x80 + n div 4096 mod 64),
            char_of (0x80 + n div 64 mod 64), char_of (0x80 + n mod 64)])"

definition simple_esc :: "char \<Rightarrow> char option" where
  "simple_esc e =
     (if e = CHR 0x22 \<or> e = CHR 0x5C \<or> e = CHR ''/'' then Some e
      else if e = CHR ''b'' then Some (CHR 0x08)
      else if e = CHR ''t'' then Some (CHR 0x09)
      else if e = CHR ''n'' then Some (CHR 0x0A)
      else if e = CHR ''f'' then Some (CHR 0x0C)
      else if e = CHR ''r'' then Some (CHR 0x0D)
      else None)"

definition push_front :: "'a list \<Rightarrow> ('a list \<times> 'b) option \<Rightarrow> ('a list \<times> 'b) option" where
  "push_front p r = (case r of None \<Rightarrow> None | Some (xs, t) \<Rightarrow> Some (p @ xs, t))"

text \<open>The low surrogate an escape starts with, if there is one.\<close>

definition low_surrogate :: "string \<Rightarrow> nat option" where
  "low_surrogate r =
     (case r of
        s # u # a # b # c # d # _ \<Rightarrow>
          (case hex4 a b c d of
             Some m \<Rightarrow> (if s = CHR 0x5C \<and> u = CHR ''u'' \<and> 0xDC00 \<le> m \<and> m < 0xE000 then Some m else None)
           | None \<Rightarrow> None)
      | _ \<Rightarrow> None)"

text \<open>A \<open>uXXXX\<close> escape; a high surrogate joins the low one after it.\<close>

definition p_unicode :: "string \<Rightarrow> (string \<times> string) option" where
  "p_unicode s =
     (case s of
        a # b # c # d # r \<Rightarrow>
          (case hex4 a b c d of
             None \<Rightarrow> None
           | Some n \<Rightarrow>
               (case low_surrogate r of
                  Some m \<Rightarrow>
                    (if 0xD800 \<le> n \<and> n < 0xDC00
                     then Some (utf8_enc (0x10000 + (n - 0xD800) * 1024 + (m - 0xDC00)), drop 6 r)
                     else Some (utf8_enc n, r))
                | None \<Rightarrow> Some (utf8_enc n, r)))
      | _ \<Rightarrow> None)"

definition p_escape :: "string \<Rightarrow> (string \<times> string) option" where
  "p_escape s =
     (case s of
        [] \<Rightarrow> None
      | e # r \<Rightarrow>
          (if e = CHR ''u'' then p_unicode r
           else (case simple_esc e of None \<Rightarrow> None | Some x \<Rightarrow> Some ([x], r))))"

lemma p_escape_length: "p_escape s = Some (x, r) \<Longrightarrow> length r < length s"
  by (auto simp: p_escape_def p_unicode_def split: list.splits option.splits if_splits)

text \<open>The characters of a string literal after its opening quote, and what follows it.\<close>

function p_chars :: "string \<Rightarrow> (string \<times> string) option" where
  "p_chars [] = None"
| "p_chars (ch # r) =
     (if ch = CHR 0x22 then Some ([], r)
      else if ch = CHR 0x5C then
        (case p_escape r of
           None \<Rightarrow> None
         | Some (x, t) \<Rightarrow> push_front x (p_chars t))
      else if (of_char ch :: nat) < 32 then None
      else push_front [ch] (p_chars r))"
  by pat_completeness auto
termination
  by (relation "measure length") (auto dest: p_escape_length)

definition p_frac :: "string \<Rightarrow> (string \<times> string) option" where
  "p_frac r =
     (if r \<noteq> [] \<and> hd r = CHR ''.'' then
        (let f = takeWhile is_digit (tl r) in
         if f = [] then None else Some (f, dropWhile is_digit (tl r)))
      else Some ([], r))"

definition p_exp :: "string \<Rightarrow> (int \<times> string) option" where
  "p_exp r =
     (if r \<noteq> [] \<and> (hd r = CHR ''e'' \<or> hd r = CHR ''E'') then
        (let neg = (tl r \<noteq> [] \<and> hd (tl r) = CHR ''-'');
             sgn = (tl r \<noteq> [] \<and> (hd (tl r) = CHR ''-'' \<or> hd (tl r) = CHR ''+''));
             u = (if sgn then tl (tl r) else tl r);
             e = takeWhile is_digit u
         in if e = [] then None
            else Some ((if neg then - int (str_nat e) else int (str_nat e)), dropWhile is_digit u))
      else Some (0, r))"

definition p_number :: "string \<Rightarrow> (jsval \<times> string) option" where
  "p_number s =
     (let neg = (s \<noteq> [] \<and> hd s = CHR ''-'');
          u = (if neg then tl s else s);
          ip = takeWhile is_digit u
      in if ip = [] \<or> (hd ip = CHR ''0'' \<and> tl ip \<noteq> []) then None
         else (case p_frac (dropWhile is_digit u) of
                 None \<Rightarrow> None
               | Some (fp, r2) \<Rightarrow>
                   (case p_exp r2 of
                      None \<Rightarrow> None
                    | Some (e, r3) \<Rightarrow>
                        (let q = of_nat (str_nat (ip @ fp)) * power_int 10 (e - int (length fp))
                         in Some (JNum (Fin (if neg then - q else q)), r3)))))"

definition p_word :: "string \<Rightarrow> jsval \<Rightarrow> string \<Rightarrow> (jsval \<times> string) option" where
  "p_word w v s = (if starts_with w s then Some (v, drop (length w) s) else None)"

text \<open>A repeated key keeps its first position and its last value.\<close>

definition obj_of_members :: "(string \<times> jsval) list \<Rightarrow> jsval" where
  "obj_of_members ms = JObj (fold (\<lambda>p. AList.update (fst p) (snd p)) ms [])"

fun p_value :: "nat \<Rightarrow> string \<Rightarrow> (jsval \<times> string) option"
  and p_elems :: "nat \<Rightarrow> string \<Rightarrow> (jsval list \<times> string) option"
  and p_members :: "nat \<Rightarrow> string \<Rightarrow> ((string \<times> jsval) list \<times> string) option" where
  "p_value 0 s = None"
| "p_value (Suc n) s =
     (case skip_ws s of
        [] \<Rightarrow> None
      | c # r \<Rightarrow>
          (if c = CHR ''['' then
             (case skip_ws r of
                [] \<Rightarrow> None
              | d # r' \<Rightarrow> (if d = CHR '']'' then Some (JArr [], r')
                         else map_option (\<lambda>(vs, t). (JArr vs, t)) (p_elems n r)))
           else if c = CHR ''{'' then
             (case skip_ws r of
                [] \<Rightarrow> None
              | d # r' \<Rightarrow> (if d = CHR ''}'' then Some (JObj [], r')
                         else map_option (\<lambda>(ms, t). (obj_of_members ms, t)) (p_members n r)))
           else if c = CHR 0x22 then map_option (\<lambda>(s, t). (JStr s, t)) (p_chars r)
           else if c = CHR ''n'' then p_word ''null'' JNull (c # r)
           else if c = CHR ''t'' then p_word ''true'' (JBool True) (c # r)
           else if c = CHR ''f'' then p_word ''false'' (JBool False) (c # r)
           else p_number (c # r)))"
| "p_elems 0 s = None"
| "p_elems (Suc n) s =
     (case p_value n s of
        None \<Rightarrow> None
      | Some (v, r) \<Rightarrow>
          (case skip_ws r of
             [] \<Rightarrow> None
           | c # r' \<Rightarrow> (if c = CHR '','' then push_front [v] (p_elems n r')
                      else if c = CHR '']'' then Some ([v], r')
                      else None)))"
| "p_members 0 s = None"
| "p_members (Suc n) s =
     (case skip_ws s of
        [] \<Rightarrow> None
      | c # r \<Rightarrow>
          (if c \<noteq> CHR 0x22 then None
           else (case p_chars r of
                   None \<Rightarrow> None
                 | Some (k, r2) \<Rightarrow>
                     (case skip_ws r2 of
                        [] \<Rightarrow> None
                      | d # r3 \<Rightarrow>
                          (if d \<noteq> CHR '':'' then None
                           else (case p_value n r3 of
                                   None \<Rightarrow> None
                                 | Some (v, r4) \<Rightarrow>
                                     (case skip_ws r4 of
                                        [] \<Rightarrow> None
                                      | e # r5 \<Rightarrow>
                                          (if e = CHR '','' then push_front [(k, v)] (p_members n r5)
                                           else if e = CHR ''}'' then Some ([(k, v)], r5)
                                           else None))))))))"

definition json_parse :: "string \<Rightarrow> jsval res" where
  "json_parse s =
     (case p_value (Suc (length s)) s of
        None \<Rightarrow> Inl SyntaxErr
      | Some (v, r) \<Rightarrow> (if skip_ws r = [] then Inr v else Inl SyntaxErr))"

end
