(* ===== verification/JsonRoundtrip.thy ===== *)
theory JsonRoundtrip
  imports JsonText
begin

text \<open>
  The round trip of the JSON text functions: reading what was printed gives the value back,
  for data without absent values whose numbers are integers and whose objects have
  distinct keys. The clients see it as the interface \<open>json_codec\<close>, interpreted here on
  the printer and the reader.
\<close>

section \<open>JSON data\<close>

fun integral :: "jsnum \<Rightarrow> bool" where
  "integral (Fin q) = (q = of_int \<lfloor>q\<rfloor>)"
| "integral _ = False"

fun json_data :: "jsval \<Rightarrow> bool" where
  "json_data JUndef = False"
| "json_data JNull = True"
| "json_data (JBool b) = True"
| "json_data (JNum n) = integral n"
| "json_data (JStr s) = True"
| "json_data (JArr xs) = list_all json_data xs"
| "json_data (JObj kvs) = (distinct (map fst kvs) \<and> list_all (\<lambda>p. json_data (snd p)) kvs)"
| "json_data (JFn n) = False"

lemma integral_of_int [simp]: "integral (Fin (of_int n))"
  by simp

lemma json_data_jint [simp]: "json_data (jint n)"
  by simp

lemma json_data_not_absent: "json_data v \<Longrightarrow> \<not> absent v"
  by (cases v) simp_all

lemma json_data_ArrD: "json_data (JArr xs) \<Longrightarrow> x \<in> set xs \<Longrightarrow> json_data x"
  by (simp add: list_all_iff)

lemma json_data_ObjD: "json_data (JObj kvs) \<Longrightarrow> map_of kvs k = Some v \<Longrightarrow> json_data v"
  by (auto simp: list_all_iff dest!: map_of_SomeD)

lemma set_update: "set (AList.update k v kvs) \<subseteq> insert (k, v) (set kvs)"
  by (induction kvs) auto

lemma json_data_update:
  "json_data (JObj kvs) \<Longrightarrow> json_data v \<Longrightarrow> json_data (JObj (AList.update k v kvs))"
  using set_update [of k v kvs] by (auto simp: list_all_iff distinct_update)

section \<open>Strings\<close>

lemma char_less_256: "(of_char c :: nat) < 256"
  by (metis of_char_mod_256 mod_less_divisor zero_less_numeral)

lemma hex4_control: "n < 256 \<Longrightarrow>
  hex4 (CHR ''0'') (CHR ''0'') (hex_char (n div 16)) (hex_char (n mod 16)) = Some n"
proof -
  assume "n < 256"
  then have "n div 16 < 16" by simp
  then show ?thesis by (simp add: hex4_def hex_val_def [of "CHR ''0''"])
qed

lemma push_front_Some [simp]: "push_front p (Some (xs, t)) = Some (p @ xs, t)"
  by (simp add: push_front_def)

lemma push_front_None [simp]: "push_front p None = None"
  by (simp add: push_front_def)

lemma p_escape_u: "hex4 a b c d = Some n \<Longrightarrow> n < 0xD800 \<Longrightarrow>
  p_escape (CHR ''u'' # a # b # c # d # r) = Some (utf8_enc n, r)"
  by (simp add: p_escape_def p_unicode_def split: option.split)

lemma p_chars_esc: "p_chars (json_esc c @ t) = push_front [c] (p_chars t)"
proof -
  consider "c \<in> {CHR 0x22, CHR 0x5C, CHR 0x08, CHR 0x09, CHR 0x0A, CHR 0x0C, CHR 0x0D}"
    | "c \<notin> {CHR 0x22, CHR 0x5C, CHR 0x08, CHR 0x09, CHR 0x0A, CHR 0x0C, CHR 0x0D}" "(of_char c :: nat) < 32"
    | "c \<notin> {CHR 0x22, CHR 0x5C, CHR 0x08, CHR 0x09, CHR 0x0A, CHR 0x0C, CHR 0x0D}" "\<not> (of_char c :: nat) < 32"
    by blast
  then show ?thesis
  proof cases
    case 1
    then show ?thesis by (auto simp: json_esc_def p_escape_def simple_esc_def)
  next
    case 2
    then have "p_chars (json_esc c @ t) = push_front (utf8_enc (of_char c)) (p_chars t)"
      using p_escape_u [OF hex4_control [OF char_less_256 [of c]], of t]
      by (simp add: json_esc_def)
    with 2 show ?thesis by (simp add: utf8_enc_def)
  next
    case 3
    then show ?thesis by (simp add: json_esc_def)
  qed
qed

lemma p_chars_quote: "p_chars (concat (map json_esc s) @ CHR 0x22 # t) = Some (s, t)"
  by (induction s) (simp_all add: p_chars_esc del: p_chars.simps, simp)

section \<open>Numbers\<close>

lemma nat_str_hd: "0 < n \<Longrightarrow> hd (nat_str n) \<noteq> CHR ''0''"
proof (induction n rule: nat_str.induct)
  case (1 n)
  have "digit_char n \<noteq> CHR ''0''" if "n < 10"
  proof
    assume "digit_char n = CHR ''0''"
    then have "(of_char (digit_char n) :: nat) = of_char (CHR ''0'')" by (rule arg_cong)
    with that 1(2) show False by simp
  qed
  with 1 show ?case
    by (cases "n < 10") (simp_all add: nat_str.simps [of n])
qed

lemma nat_str_lead: "hd (nat_str n) = CHR ''0'' \<Longrightarrow> tl (nat_str n) = []"
  using nat_str_hd [of n] by (cases "n = 0") (simp_all add: nat_str.simps [of 0])

definition num_stop :: "string \<Rightarrow> bool" where
  "num_stop r \<longleftrightarrow> r = [] \<or> hd r \<in> {CHR '','', CHR '']'', CHR ''}''}"

lemma num_stop_not_digit: "num_stop r \<Longrightarrow> r = [] \<or> \<not> is_digit (hd r)"
  by (auto simp: num_stop_def is_digit_def)

lemma p_number_nat:
  assumes "num_stop r"
  shows "p_number (nat_str n @ r) = Some (JNum (Fin (of_nat n)), r)"
proof -
  have hd: "hd (nat_str n @ r) \<noteq> CHR ''-''"
    using nat_str_digits [of n] is_digit_neq by (cases "nat_str n") auto
  have "takeWhile is_digit (nat_str n @ r) = nat_str n" "dropWhile is_digit (nat_str n @ r) = r"
    using nat_str_digits [of n] num_stop_not_digit [OF assms]
    by (rule takeWhile_append_stop, rule dropWhile_append_stop)
  moreover have "p_frac r = Some ([], r)" "p_exp r = Some (0, r)"
    using assms by (auto simp: num_stop_def p_frac_def p_exp_def)
  ultimately show ?thesis
    using hd nat_str_lead [of n] by (simp add: p_number_def Let_def)
qed

lemma p_number_int:
  assumes "num_stop r"
  shows "p_number (int_str n @ r) = Some (jint n, r)"
proof (cases "n < 0")
  case False
  then show ?thesis using p_number_nat [OF assms, of "nat n"] by (simp add: int_str_def)
next
  case True
  have pos: "hd (nat_str m @ r) \<noteq> CHR ''-''" for m
    using nat_str_digits [of m] is_digit_neq by (cases "nat_str m") auto
  from True show ?thesis
    using p_number_nat [OF assms, of "nat (- n)"] pos [of "nat (- n)"]
    by (auto simp: int_str_def p_number_def Let_def split: option.splits if_splits)
qed

section \<open>Values\<close>

lemma skip_ws_stop: "\<not> is_json_ws c \<Longrightarrow> skip_ws (c # r) = c # r"
  by (simp add: skip_ws_def)

lemma int_str_head:
  obtains c r where "int_str n = c # r" and "c = CHR ''-'' \<or> is_digit c"
proof (cases "n < 0")
  case True
  then show ?thesis using that by (simp add: int_str_def)
next
  case False
  then show ?thesis
    using that nat_str_digits [of "nat n"] nat_str_nonempty [of "nat n"]
    by (cases "nat_str (nat n)") (auto simp: int_str_def)
qed

lemma p_value_num: "c = CHR ''-'' \<or> is_digit c \<Longrightarrow> p_value (Suc n) (c # r) = p_number (c # r)"
  by (subgoal_tac "\<not> is_json_ws c \<and> c \<notin> {CHR ''['', CHR ''{'', CHR 0x22, CHR ''n'', CHR ''t'', CHR ''f''}")
     (auto simp: skip_ws_stop is_json_ws_def is_digit_def)

lemma p_value_int:
  assumes "num_stop r"
  shows "p_value (Suc n) (int_str i @ r) = Some (jint i, r)"
proof -
  obtain c t where "int_str i = c # t" "c = CHR ''-'' \<or> is_digit c" by (rule int_str_head)
  with p_value_num [of c n "t @ r"] p_number_int [OF assms, of i] show ?thesis by simp
qed

lemma json_text_head:
  assumes "json_data v"
  obtains c r where "json_text v = c # r" and "\<not> is_json_ws c" and "c \<noteq> CHR '']''"
proof -
  have "\<exists>c r. json_text v = c # r \<and> \<not> is_json_ws c \<and> c \<noteq> CHR '']''"
  proof (cases v)
    case (JNum x)
    then obtain i where "x = Fin (of_int i)" using assms by (cases x) auto
    moreover obtain c r where "int_str i = c # r" "c = CHR ''-'' \<or> is_digit c" by (rule int_str_head)
    ultimately show ?thesis using JNum by (auto simp: is_json_ws_def is_digit_def)
  qed (use assms in \<open>auto simp: is_json_ws_def json_quote_def\<close>)
  with that show ?thesis by blast
qed

definition reads :: "jsval \<Rightarrow> bool" where
  "reads v \<longleftrightarrow> (\<forall>n r. length (json_text v) < n \<longrightarrow> num_stop r \<longrightarrow>
                     p_value n (json_text v @ r) = Some (v, r))"

lemma readsD: "reads v \<Longrightarrow> length (json_text v) < n \<Longrightarrow> num_stop r \<Longrightarrow>
    p_value n (json_text v @ r) = Some (v, r)"
  by (simp add: reads_def)

lemma num_stop_simps [simp]:
  "num_stop []" "num_stop (CHR '','' # r)" "num_stop (CHR '']'' # r)" "num_stop (CHR ''}'' # r)"
  by (simp_all add: num_stop_def)

lemma skip_ws_punct [simp]:
  "skip_ws (CHR '','' # r) = CHR '','' # r" "skip_ws (CHR '']'' # r) = CHR '']'' # r"
  "skip_ws (CHR ''}'' # r) = CHR ''}'' # r" "skip_ws (CHR '':'' # r) = CHR '':'' # r"
  "skip_ws (CHR 0x22 # r) = CHR 0x22 # r" "skip_ws (CHR ''['' # r) = CHR ''['' # r"
  "skip_ws (CHR ''{'' # r) = CHR ''{'' # r"
  by (simp_all add: skip_ws_stop is_json_ws_def)

lemma p_elems_join:
  assumes "\<forall>x \<in> set xs. reads x" and "xs \<noteq> []"
    and "length (join '','' (map json_text xs)) + 1 < n"
  shows "p_elems n (join '','' (map json_text xs) @ CHR '']'' # r) = Some (xs, r)"
  using assms
proof (induction xs arbitrary: n)
  case (Cons x xs)
  then obtain m where n: "n = Suc m" by (cases n) auto
  show ?case
  proof (cases xs)
    case Nil
    with Cons.prems n show ?thesis by (simp add: readsD)
  next
    case (Cons y ys)
    let ?t = "join '','' (map json_text xs)"
    have len: "length (json_text x) < m" "length ?t + 1 < m"
      using Cons.prems(3) n Cons by auto
    have "p_value m (json_text x @ CHR '','' # ?t @ CHR '']'' # r) =
        Some (x, CHR '','' # ?t @ CHR '']'' # r)"
      using Cons.prems(1) len by (simp add: readsD)
    moreover have "p_elems m (?t @ CHR '']'' # r) = Some (xs, r)"
      using Cons.IH [of m] Cons.prems(1) len Cons by simp
    ultimately show ?thesis using n Cons by simp
  qed
qed simp

lemma p_members_join:
  assumes "\<forall>p \<in> set ms. reads (snd p)" and "ms \<noteq> []"
    and "length (join '','' (map (\<lambda>p. json_quote (fst p) @ '':'' @ json_text (snd p)) ms)) + 1 < n"
  shows "p_members n (join '','' (map (\<lambda>p. json_quote (fst p) @ '':'' @ json_text (snd p)) ms)
           @ CHR ''}'' # r) = Some (ms, r)"
  using assms
proof (induction ms arbitrary: n)
  case (Cons x xs)
  let ?pr = "\<lambda>p. json_quote (fst p) @ '':'' @ json_text (snd p)"
  obtain m where n: "n = Suc m" using Cons.prems(3) by (cases n) auto
  show ?case
  proof (cases xs)
    case Nil
    with Cons.prems n show ?thesis
      by (simp add: readsD json_quote_def p_chars_quote)
  next
    case (Cons y ys)
    let ?t = "join '','' (map ?pr xs)"
    have len: "length (json_text (snd x)) < m" "length ?t + 1 < m"
      using Cons.prems(3) n Cons by auto
    have "p_value m (json_text (snd x) @ CHR '','' # ?t @ CHR ''}'' # r) =
        Some (snd x, CHR '','' # ?t @ CHR ''}'' # r)"
      using Cons.prems(1) len by (simp add: readsD)
    moreover have "p_members m (?t @ CHR ''}'' # r) = Some (xs, r)"
      using Cons.IH [of m] Cons.prems(1) len Cons by simp
    ultimately show ?thesis using n Cons by (simp add: json_quote_def p_chars_quote)
  qed
qed simp

lemma update_fresh: "k \<notin> set (map fst kvs) \<Longrightarrow> AList.update k v kvs = kvs @ [(k, v)]"
  by (induction kvs) auto

lemma fold_update_fresh:
  "distinct (map fst (acc @ ms)) \<Longrightarrow>
   fold (\<lambda>p. AList.update (fst p) (snd p)) ms acc = acc @ ms"
proof (induction ms arbitrary: acc)
  case (Cons p ms)
  then have "AList.update (fst p) (snd p) acc = acc @ [p]"
    by (simp add: update_fresh)
  with Cons show ?case by simp
qed simp

lemma obj_of_members_distinct: "distinct (map fst ms) \<Longrightarrow> obj_of_members ms = JObj ms"
  using fold_update_fresh [of "[]" ms] by (simp add: obj_of_members_def)

lemma filter_not_absent:
  "list_all (\<lambda>p. json_data (snd p)) kvs \<Longrightarrow> filter (\<lambda>p. \<not> absent (snd p)) kvs = kvs"
  by (induction kvs) (auto simp: json_data_not_absent)

lemma json_data_reads: "json_data v \<Longrightarrow> reads v"
proof (induction v rule: jsval_induct)
  case (num n)
  then obtain i where "n = Fin (of_int i)" by (cases n) auto
  moreover have "n \<noteq> 0" if "length (s::string) < n" for s n using that by simp
  ultimately show ?case
    by (auto simp: reads_def gr0_conv_Suc p_value_int dest!: less_imp_Suc_add simp del: p_value.simps)
next
  case (arr xs)
  have rx: "\<forall>x \<in> set xs. reads x" using arr by (simp add: list_all_iff)
  show ?case unfolding reads_def
  proof (intro allI impI)
    fix n r assume n: "length (json_text (JArr xs)) < n" and "num_stop r"
    show "p_value n (json_text (JArr xs) @ r) = Some (JArr xs, r)"
    proof (cases xs)
      case Nil
      with n show ?thesis by (cases n) simp_all
    next
      case (Cons y ys)
      obtain m where m: "n = Suc m" using n by (cases n) auto
      have "p_elems m (join '','' (map json_text xs) @ CHR '']'' # r) = Some (xs, r)"
        using p_elems_join [OF rx, of m r] n m Cons by simp
      moreover have "json_data y" using arr.prems Cons by simp
      then obtain c t where "json_text y = c # t" "\<not> is_json_ws c" "c \<noteq> CHR '']''"
        by (rule json_text_head)
      then obtain t' where "join '','' (map json_text xs) = c # t'" 
        using Cons by (cases ys) auto
      ultimately show ?thesis
        using m \<open>\<not> is_json_ws c\<close> \<open>c \<noteq> CHR '']''\<close> by (simp add: skip_ws_stop)
    qed
  qed
next
  case (obj kvs)
  have rx: "\<forall>p \<in> set kvs. reads (snd p)" using obj by (auto simp: list_all_iff)
  have flt: "filter (\<lambda>p. \<not> absent (snd p)) kvs = kvs"
    using obj.prems by (simp add: filter_not_absent)
  let ?pr = "\<lambda>p. json_quote (fst p) @ '':'' @ json_text (snd p)"
  show ?case unfolding reads_def
  proof (intro allI impI)
    fix n r assume n: "length (json_text (JObj kvs)) < n" and "num_stop r"
    show "p_value n (json_text (JObj kvs) @ r) = Some (JObj kvs, r)"
    proof (cases kvs)
      case Nil
      with n show ?thesis by (cases n) simp_all
    next
      case (Cons y ys)
      obtain m where m: "n = Suc m" using n by (cases n) auto
      have "p_members m (join '','' (map ?pr kvs) @ CHR ''}'' # r) = Some (kvs, r)"
        using p_members_join [OF rx, of m r] n m Cons flt by simp
      moreover obtain t' where "join '','' (map ?pr kvs) = CHR 0x22 # t'"
        using Cons by (cases ys) (auto simp: json_quote_def)
      ultimately show ?thesis
        using m flt obj.prems by (simp add: obj_of_members_distinct)
    qed
  qed
qed (auto simp: reads_def gr0_conv_Suc p_word_def skip_ws_stop is_json_ws_def starts_with_def
      json_quote_def p_chars_quote dest!: less_imp_Suc_add)

lemma json_parse_text: "json_data v \<Longrightarrow> json_parse (json_text v) = Inr v"
  using readsD [OF json_data_reads, of v "Suc (length (json_text v))" "[]"]
  by (simp add: json_parse_def skip_ws_def)

section \<open>Fuel\<close>

lemma skip_ws_length: "length (skip_ws s) \<le> length s"
  by (simp add: skip_ws_def length_dropWhile_le)

lemma skip_ws_ConsD: "skip_ws s = c # r \<Longrightarrow> length r < length s"
  using skip_ws_length [of s] by simp

lemma push_front_SomeD:
  "push_front p x = Some (xs, t) \<Longrightarrow> \<exists>ys. x = Some (ys, t) \<and> xs = p @ ys"
  by (auto simp: push_front_def split: option.splits)

lemma p_chars_length: "p_chars s = Some (x, r) \<Longrightarrow> length r < length s"
proof (induction s arbitrary: x rule: p_chars.induct)
  case (2 ch t)
  then show ?case
    by (auto dest!: push_front_SomeD p_escape_length split: if_splits option.splits)
      (meson less_SucI less_trans)+
qed simp

lemma takeWhile_dropWhile_length:
  "takeWhile P u \<noteq> [] \<Longrightarrow> length (dropWhile P u) < length u"
  by (cases u) (auto simp: le_imp_less_Suc length_dropWhile_le split: if_splits)

lemma p_number_length: "p_number s = Some (x, r) \<Longrightarrow> length r < length s"
proof -
  assume a: "p_number s = Some (x, r)"
  define u where "u = (if s \<noteq> [] \<and> hd s = CHR ''-'' then tl s else s)"
  have d: "length (dropWhile is_digit w) \<le> length w" for w
    by (rule length_dropWhile_le)
  have f: "p_frac w = Some (y, t) \<Longrightarrow> length t \<le> length w" for w y t
    using d [of "tl w"] by (auto simp: p_frac_def Let_def split: if_splits)
  have e: "p_exp w = Some (y, t) \<Longrightarrow> length t \<le> length w" for w y t
    using d [of "tl w"] d [of "tl (tl w)"] by (auto simp: p_exp_def Let_def split: if_splits)
  from a obtain fp r2 where u: "takeWhile is_digit u \<noteq> []"
      and "p_frac (dropWhile is_digit u) = Some (fp, r2)" and "\<exists>y. p_exp r2 = Some (y, r)"
    unfolding p_number_def Let_def u_def [symmetric] by (auto split: if_splits option.splits)
  then have "length r \<le> length (dropWhile is_digit u)" using f e le_trans by blast
  also have "\<dots> < length u" using u by (rule takeWhile_dropWhile_length)
  finally show ?thesis by (auto simp: u_def split: if_splits)
qed

lemma p_word_length: "p_word w v s = Some (x, r) \<Longrightarrow> w \<noteq> [] \<Longrightarrow> length r < length s"
  by (cases s; cases w) (auto simp: p_word_def starts_with_def split: if_splits)


definition fuel_free :: "('a list \<Rightarrow> ('b \<times> 'a list) option) \<Rightarrow> (nat \<Rightarrow> 'a list \<Rightarrow> ('b \<times> 'a list) option) \<Rightarrow> bool" where
  "fuel_free p q \<longleftrightarrow> (\<forall>s v r. p s = Some (v, r) \<longrightarrow>
     length r < length s \<and> (\<forall>m. length s - length r < m \<longrightarrow> q m s = Some (v, r)))"

lemma fuel_freeD:
  "fuel_free p q \<Longrightarrow> p s = Some (v, r) \<Longrightarrow> length r < length s"
  "fuel_free p q \<Longrightarrow> p s = Some (v, r) \<Longrightarrow> length s - length r < m \<Longrightarrow> q m s = Some (v, r)"
  by (auto simp: fuel_free_def)

lemma p_value_branch:
  assumes "p_value (Suc n) s = Some (v, r)" and "skip_ws s = c # t"
  obtains (elems) w where "c = CHR ''[''" "p_elems n t = Some (w, r)" "v = JArr w"
      "\<And>k. p_value (Suc k) s = map_option (\<lambda>(vs, t). (JArr vs, t)) (p_elems k t)"
    | (members) w where "c = CHR ''{''" "p_members n t = Some (w, r)" "v = obj_of_members w"
      "\<And>k. p_value (Suc k) s = map_option (\<lambda>(ms, t). (obj_of_members ms, t)) (p_members k t)"
    | (flat) "length r < length (c # t)" "\<And>k. p_value (Suc k) s = Some (v, r)"
proof -
  consider "c = CHR ''[''" | "c = CHR ''{''" | "c \<noteq> CHR ''[''" "c \<noteq> CHR ''{''" by blast
  then show thesis
  proof cases
    case 1
    with assms obtain d r' where d: "skip_ws t = d # r'" by (auto split: list.splits)
    show thesis
    proof (cases "d = CHR '']''")
      case True
      have "r = r'" using True assms 1 d by simp
      moreover have "length r' < length t" using d by (rule skip_ws_ConsD)
      ultimately show thesis using flat True assms 1 d by simp
    next
      case False
      with assms 1 d elems show thesis by auto
    qed
  next
    case 2
    with assms obtain d r' where d: "skip_ws t = d # r'" by (auto split: list.splits)
    show thesis
    proof (cases "d = CHR ''}''")
      case True
      have "r = r'" using True assms 2 d by simp
      moreover have "length r' < length t" using d by (rule skip_ws_ConsD)
      ultimately show thesis using flat True assms 2 d by simp
    next
      case False
      with assms 2 d members show thesis by auto
    qed
  next
    case 3
    have same: "p_value (Suc k) s = Some (v, r)" for k using assms 3 by simp
    have "length r < length (c # t)"
    proof (cases "c = CHR 0x22")
      case True
      with assms 3 show ?thesis by (auto dest: p_chars_length)
    next
      case False
      with assms 3 have "p_number (c # t) = Some (v, r) \<or> (\<exists>w v'. w \<noteq> [] \<and> p_word w v' (c # t) = Some (v, r))"
        by (auto split: if_splits)
      then show ?thesis by (auto dest: p_number_length p_word_length)
    qed
    with same show thesis by (rule flat [rotated])
  qed
qed

lemma fuel_free_value:
  assumes e: "fuel_free (p_elems n) p_elems" and m: "fuel_free (p_members n) p_members"
  shows "fuel_free (p_value (Suc n)) p_value"
  unfolding fuel_free_def
proof (intro allI impI)
  fix s v r assume a: "p_value (Suc n) s = Some (v, r)"
  then obtain c t where s: "skip_ws s = c # t" by (auto split: list.splits)
  note ls = skip_ws_ConsD [OF s]
  have "length r < length s \<and> (\<forall>k. length s - length r < Suc k \<longrightarrow> p_value (Suc k) s = Some (v, r))"
  proof (cases rule: p_value_branch [OF a s, case_names elems members flat])
    case (elems w)
    have "p_elems k t = Some (w, r)" if "length s - length r < Suc k" for k
      using fuel_freeD(2) [OF e elems(2), of k] that ls fuel_freeD(1) [OF e elems(2)] by simp
    with elems(3,4) fuel_freeD(1) [OF e elems(2)] ls show ?thesis by (simp del: p_value.simps)
  next
    case (members w)
    have "p_members k t = Some (w, r)" if "length s - length r < Suc k" for k
      using fuel_freeD(2) [OF m members(2), of k] that ls fuel_freeD(1) [OF m members(2)] by simp
    with members(3,4) fuel_freeD(1) [OF m members(2)] ls show ?thesis by (simp del: p_value.simps)
  next
    case flat
    with skip_ws_length [of s] s show ?thesis by (simp del: p_value.simps)
  qed
  then show "length r < length s \<and> (\<forall>k. length s - length r < k \<longrightarrow> p_value k s = Some (v, r))"
    by (metis less_nat_zero_code not0_implies_Suc)
qed

lemma fuel_free_elems:
  assumes v: "fuel_free (p_value n) p_value" and e: "fuel_free (p_elems n) p_elems"
  shows "fuel_free (p_elems (Suc n)) p_elems"
  unfolding fuel_free_def
proof (intro allI impI)
  fix s vs r assume a: "p_elems (Suc n) s = Some (vs, r)"
  then obtain x r1 c r2 where x: "p_value n s = Some (x, r1)" and c: "skip_ws r1 = c # r2"
    by (auto split: option.splits list.splits)
  note lx = fuel_freeD(1) [OF v x] skip_ws_ConsD [OF c]
  consider ws where "c = CHR '',''" "p_elems n r2 = Some (ws, r)" "vs = x # ws"
    | "c = CHR '']''" "r = r2" "vs = [x]"
    using a x c by (auto split: if_splits dest!: push_front_SomeD)
  then have "length r < length s \<and> (\<forall>k. length s - length r < Suc k \<longrightarrow> p_elems (Suc k) s = Some (vs, r))"
  proof cases
    case 1
    note l2 = fuel_freeD(1) [OF e 1(2)]
    have "p_elems (Suc k) s = Some (vs, r)" if "length s - length r < Suc k" for k
      using fuel_freeD(2) [OF v x, of k] fuel_freeD(2) [OF e 1(2), of k] that lx l2 c 1 by simp
    with lx l2 show ?thesis by simp
  next
    case 2
    have "p_elems (Suc k) s = Some (vs, r)" if "length s - length r < Suc k" for k
      using fuel_freeD(2) [OF v x, of k] that lx c 2 by simp
    with lx 2 show ?thesis by simp
  qed
  then show "length r < length s \<and> (\<forall>k. length s - length r < k \<longrightarrow> p_elems k s = Some (vs, r))"
    by (metis less_nat_zero_code not0_implies_Suc)
qed

lemma fuel_free_members:
  assumes v: "fuel_free (p_value n) p_value" and e: "fuel_free (p_members n) p_members"
  shows "fuel_free (p_members (Suc n)) p_members"
  unfolding fuel_free_def
proof (intro allI impI)
  fix s vs r assume a: "p_members (Suc n) s = Some (vs, r)"
  then obtain t k r1 r3 x r4 c r5 where s: "skip_ws s = CHR 0x22 # t" "p_chars t = Some (k, r1)"
      "skip_ws r1 = CHR '':'' # r3" and x: "p_value n r3 = Some (x, r4)" and c: "skip_ws r4 = c # r5"
    by (auto split: option.splits list.splits if_splits)
  note lx = skip_ws_ConsD [OF s(1)] p_chars_length [OF s(2)] skip_ws_ConsD [OF s(3)]
    fuel_freeD(1) [OF v x] skip_ws_ConsD [OF c]
  consider ws where "c = CHR '',''" "p_members n r5 = Some (ws, r)" "vs = (k, x) # ws"
    | "c = CHR ''}''" "r = r5" "vs = [(k, x)]"
    using a s x c by (auto split: if_splits dest!: push_front_SomeD)
  then have "length r < length s \<and> (\<forall>j. length s - length r < Suc j \<longrightarrow> p_members (Suc j) s = Some (vs, r))"
  proof cases
    case 1
    note l2 = fuel_freeD(1) [OF e 1(2)]
    have "p_members (Suc j) s = Some (vs, r)" if "length s - length r < Suc j" for j
      using fuel_freeD(2) [OF v x, of j] fuel_freeD(2) [OF e 1(2), of j] that lx l2 s c 1 by simp
    with lx l2 show ?thesis by simp
  next
    case 2
    have "p_members (Suc j) s = Some (vs, r)" if "length s - length r < Suc j" for j
      using fuel_freeD(2) [OF v x, of j] that lx s c 2 by simp
    with lx 2 show ?thesis by simp
  qed
  then show "length r < length s \<and> (\<forall>j. length s - length r < j \<longrightarrow> p_members j s = Some (vs, r))"
    by (metis less_nat_zero_code not0_implies_Suc)
qed

lemma fuel_free_all:
  "fuel_free (p_value n) p_value \<and> fuel_free (p_elems n) p_elems \<and> fuel_free (p_members n) p_members"
proof (induction n)
  case 0
  show ?case by (simp add: fuel_free_def)
next
  case (Suc n)
  then show ?case by (simp add: fuel_free_value fuel_free_elems fuel_free_members del: p_value.simps p_elems.simps p_members.simps)
qed

lemma json_fuel_enough:
  "p_value n s = Some (v, r) \<Longrightarrow> p_value (Suc (length s)) s = Some (v, r)"
  using fuel_free_all [of n] fuel_freeD(2) [of "p_value n" p_value s v r "Suc (length s)"] by simp

section \<open>The codec as an interface\<close>

text \<open>
  What the clients of \<open>JSON.parse\<close> and \<open>JSON.stringify\<close> rely on: text printed from data
  reads back as that data.
\<close>

locale json_codec =
  fixes print :: "'v \<Rightarrow> string" and parse :: "string \<Rightarrow> 'e + 'v" and data :: "'v \<Rightarrow> bool"
  assumes parse_print: "data v \<Longrightarrow> parse (print v) = Inr v"
begin

lemma print_inj: "data v \<Longrightarrow> data w \<Longrightarrow> print v = print w \<longleftrightarrow> v = w"
  by (metis parse_print sum.inject(2))

lemma through_text: "data v \<Longrightarrow> rbind (parse (print v)) f = f v"
  by (simp add: parse_print)

lemma edit_text:
  "data v \<Longrightarrow> f v = Inr w \<Longrightarrow> data w \<Longrightarrow>
   rbind (rbind (parse (print v)) f) (\<lambda>x. parse (print x)) = Inr w"
  by (simp add: parse_print)

end

interpretation json: json_codec json_text json_parse json_data
  by unfold_locales (rule json_parse_text)

end
