(* ===== verification/Tamper.thy ===== *)
theory Tamper
  imports JsonRoundtrip
begin

text \<open>
  The forgery engine of \<open>web/tamper.js\<close>. A package is an arbitrary JavaScript value; the
  mutators edit a clone of it in place, so each is a function from the clone to the edited
  clone, or the exception it throws. The canonical hasher and \<open>coerce32\<close> of
  \<open>/lib/canonicalJson.js\<close> are not part of the repository: they are the fields of a record
  the re-seal takes, as \<open>makeReseal\<close> takes them.
\<close>

section \<open>Cloning and editing\<close>

text \<open>\<open>JSON.parse(JSON.stringify(pkg))\<close>\<close>

definition clone :: "jsval \<Rightarrow> jsval res" where
  "clone pkg = (case json_stringify pkg of JStr s \<Rightarrow> json_parse s | _ \<Rightarrow> Inl SyntaxErr)"

definition with_bundle :: "jsval \<Rightarrow> (jsval \<Rightarrow> jsval res) \<Rightarrow> jsval res" where
  "with_bundle pkg fn =
     rbind (get_prop pkg ''bundleData'') (\<lambda>bd0.
     rbind (case bd0 of JStr s \<Rightarrow> json_parse s | _ \<Rightarrow> Inr bd0) (\<lambda>bd.
     rbind (fn bd) (\<lambda>bd'.
     set_prop pkg ''bundleData'' (if is_str bd0 then json_stringify bd' else bd'))))"

text \<open>
  \<open>bd.approvalEvidence || bd.ApprovalEvidence || []\<close>, and the property an edit of its first
  element is written through to.
\<close>

definition approvals :: "jsval \<Rightarrow> jsval res" where
  "approvals bd =
     rbind (get_prop bd ''approvalEvidence'') (\<lambda>a.
     if truthy a then Inr a
     else rbind (get_prop bd ''ApprovalEvidence'') (\<lambda>b. Inr (js_or b (JArr []))))"

definition approvals_key :: "jsval \<Rightarrow> string res" where
  "approvals_key bd =
     rbind (get_prop bd ''approvalEvidence'') (\<lambda>a.
     Inr (if truthy a then ''approvalEvidence'' else ''ApprovalEvidence''))"

text \<open>
  \<open>const x = (p.k || [])[0]; if (x) edit(x)\<close>: the element is a reference into \<open>p\<close>, so the
  edit is seen through \<open>p\<close>.
\<close>

definition edit_first :: "jsval \<Rightarrow> string \<Rightarrow> (jsval \<Rightarrow> jsval res) \<Rightarrow> jsval res" where
  "edit_first p k f =
     rbind (get_prop p k) (\<lambda>c0.
     let c = js_or c0 (JArr []) in
     rbind (index0 c) (\<lambda>x.
     if truthy x then rbind (f x) (\<lambda>x'. set_prop p k (set_index0 c x')) else Inr p))"

definition edit_approval :: "jsval \<Rightarrow> (jsval \<Rightarrow> jsval res) \<Rightarrow> jsval res" where
  "edit_approval bd f = rbind (approvals_key bd) (\<lambda>k. edit_first bd k f)"

lemma edit_approval_eq:
  "edit_approval bd f = rbind (approvals bd) (\<lambda>c. rbind (index0 c) (\<lambda>x.
     if truthy x then rbind (f x) (\<lambda>x'. rbind (approvals_key bd) (\<lambda>k. set_prop bd k (set_index0 c x')))
     else Inr bd))"
  by (cases "get_prop bd ''approvalEvidence''"; cases "get_prop bd ''ApprovalEvidence''")
    (auto simp: edit_approval_def approvals_def approvals_key_def edit_first_def Let_def cong: if_cong)

text \<open>\<open>(b ^ 0xff) & 0xff\<close>\<close>

definition flip_byte :: "jsval \<Rightarrow> jsval res" where
  "flip_byte b = rbind (to_number b) (\<lambda>n.
     Inr (JNum (of_int32 ((to_int32 n XOR 0xff) AND 0xff))))"

fun flip_first :: "jsval \<Rightarrow> jsval res" where
  "flip_first (JArr (b # bs)) = rbind (flip_byte b) (\<lambda>b'. Inr (JArr (b' # bs)))"
| "flip_first v = Inr v"

text \<open>\<open>if (Array.isArray(v.k)) v.k = flipFirst(v.k)\<close>\<close>

definition flip_prop :: "jsval \<Rightarrow> string \<Rightarrow> jsval res" where
  "flip_prop v k =
     rbind (get_prop v k) (\<lambda>h.
     if is_arr h then rbind (flip_first h) (\<lambda>h'. set_prop v k h') else Inr v)"

section \<open>The seven mutators\<close>

definition mutate_approver :: "jsval \<Rightarrow> jsval res" where
  "mutate_approver p = with_bundle p (\<lambda>bd.
     edit_approval bd (\<lambda>a. set_prop a ''identity'' (JStr ''acc://attacker.evil/admin'')))"

definition mutate_planhash :: "jsval \<Rightarrow> jsval res" where
  "mutate_planhash p = with_bundle p (\<lambda>bd. edit_approval bd (\<lambda>a. flip_prop a ''planHash''))"

definition mutate_outcome :: "jsval \<Rightarrow> jsval res" where
  "mutate_outcome p = flip_prop p ''outcomeDigest''"

definition mutate_chainhash :: "jsval \<Rightarrow> jsval res" where
  "mutate_chainhash p = edit_first p ''inclusionProofs'' (\<lambda>pr.
     rbind (get_prop pr ''link'') (\<lambda>link.
     if truthy link
     then rbind (flip_prop link ''contentHash'') (\<lambda>link'. set_prop pr ''link'' link')
     else Inr pr))"

definition mutate_policy :: "jsval \<Rightarrow> jsval res" where
  "mutate_policy p = with_bundle p (\<lambda>bd.
     rbind (get_prop bd ''policyDecisions'') (\<lambda>d.
     case d of JArr (_ # ds) \<Rightarrow> set_prop bd ''policyDecisions'' (JArr ds) | _ \<Rightarrow> Inr bd))"

definition mutate_trust :: "jsval \<Rightarrow> jsval res" where
  "mutate_trust p = edit_first p ''trustSnapshot'' (\<lambda>s. set_prop s ''blockHeight'' (jint 0))"

definition mutate_plugin :: "jsval \<Rightarrow> jsval res" where
  "mutate_plugin p = edit_first p ''pluginVersions''
     (\<lambda>pv. set_prop pv ''implementationHash'' (JStr ''''))"

section \<open>The forgery table\<close>

record forgery =
  f_id :: string
  f_label :: string
  f_blurb :: string
  f_trips :: string
  f_reseal :: bool
  f_mutate :: "jsval \<Rightarrow> jsval res"

definition FORGERIES :: "forgery list" where
  "FORGERIES = [
    \<lparr>f_id = ''approver'', f_label = ''Rename the approver'',
     f_blurb = ''Swap the approving identity '' @ u_dash @
       '' without re-sealing. The export hash catches it instantly.'',
     f_trips = ''export_hash'', f_reseal = False, f_mutate = mutate_approver\<rparr>,
    \<lparr>f_id = ''planhash'', f_label = ''Break plan '' @ [CHR 0xE2, CHR 0x86, CHR 0x94] @ '' approval'',
     f_blurb = ''Re-seal the export hash, but point the approval at a different plan. The binding still catches it.'',
     f_trips = ''plan_hash'', f_reseal = True, f_mutate = mutate_planhash\<rparr>,
    \<lparr>f_id = ''outcome'', f_label = ''Rewrite the outcome'',
     f_blurb = ''Re-seal, but change the committed outcome digest. It no longer matches the bundle.'',
     f_trips = ''outcome_digest'', f_reseal = True, f_mutate = mutate_outcome\<rparr>,
    \<lparr>f_id = ''chainhash'', f_label = ''Swap a chain hash'',
     f_blurb = ''Re-seal, but tamper with one Merkle inclusion proof. The root no longer reconstructs.'',
     f_trips = ''inclusion_proof[0]'', f_reseal = True, f_mutate = mutate_chainhash\<rparr>,
    \<lparr>f_id = ''policy'', f_label = ''Drop a policy decision'',
     f_blurb = ''Re-seal, but delete a recorded policy decision. The policy digest no longer matches.'',
     f_trips = ''policy_decision_digest'', f_reseal = True, f_mutate = mutate_policy\<rparr>,
    \<lparr>f_id = ''trust'', f_label = ''Forge a trust snapshot'',
     f_blurb = ''Re-seal, but zero a trust snapshot'' @ u_apos @
       ''s block height. A snapshot must be captured at a real block.'',
     f_trips = ''trust_snapshot[0]'', f_reseal = True, f_mutate = mutate_trust\<rparr>,
    \<lparr>f_id = ''plugin'', f_label = ''Hide a plugin version'',
     f_blurb = ''Re-seal, but blank a plugin'' @ u_apos @
       ''s implementation hash. Every plugin must be fully identified.'',
     f_trips = ''plugin_versions[0]'', f_reseal = True, f_mutate = mutate_plugin\<rparr>]"

text \<open>
  \<open>applyForgery\<close>. The re-seal edits its argument in place; \<open>None\<close> stands for an argument
  that is not a function.
\<close>

definition apply_forgery ::
  "jsval \<Rightarrow> string \<Rightarrow> (jsval \<Rightarrow> jsval res) option \<Rightarrow> (jsval \<times> forgery) res" where
  "apply_forgery pkg fid reseal =
     (case List.find (\<lambda>f. f_id f = fid) FORGERIES of
        None \<Rightarrow> Inl (Thrown (''unknown forgery '' @ fid))
      | Some f \<Rightarrow>
          rbind (clone pkg) (\<lambda>c.
          rbind (f_mutate f c) (\<lambda>p.
          if f_reseal f then
            (case reseal of
               None \<Rightarrow> Inl (Thrown (''forgery '' @ [CHR 0x22] @ fid @ [CHR 0x22] @
                                   '' requires a reseal function''))
             | Some rs \<Rightarrow> rbind (rs p) (\<lambda>p'. Inr (p', f)))
          else Inr (p, f))))"

section \<open>Re-sealing\<close>

record canon =
  canon_hash :: "jsval \<Rightarrow> jsval list res"
  canon_coerce32 :: "jsval \<Rightarrow> jsval list res"

definition arrayify_hash :: "canon \<Rightarrow> jsval \<Rightarrow> jsval res" where
  "arrayify_hash cn v = rbind (canon_coerce32 cn v) (\<lambda>bs. Inr (JArr bs))"

fun bundle_canon :: "jsval \<Rightarrow> jsval" where
  "bundle_canon JUndef = JNull"
| "bundle_canon JNull = JNull"
| "bundle_canon (JStr s) = (case json_parse s of Inr v \<Rightarrow> v | Inl _ \<Rightarrow> JStr s)"
| "bundle_canon bd = bd"

text \<open>The record the export hash covers.\<close>

definition intermediate :: "canon \<Rightarrow> jsval \<Rightarrow> jsval res" where
  "intermediate cn pkg =
     rbind (get_prop pkg ''version'') (\<lambda>version.
     rbind (get_prop pkg ''bundleData'') (\<lambda>bd.
     rbind (rbind (get_prop pkg ''planHash'') (arrayify_hash cn)) (\<lambda>plan.
     rbind (rbind (get_prop pkg ''outcomeDigest'') (arrayify_hash cn)) (\<lambda>outcome.
     rbind (get_prop pkg ''trustSnapshot'') (\<lambda>trust.
     rbind (get_prop pkg ''inclusionProofs'') (\<lambda>incl.
     rbind (get_prop pkg ''anchorProof'') (\<lambda>anchor.
     rbind (get_prop pkg ''anchorTxHash'') (\<lambda>tx.
     rbind (rbind (get_prop pkg ''anchorBlockHeight'') (\<lambda>h. to_number (js_or h (jint 0)))) (\<lambda>height.
     rbind (get_prop pkg ''pluginVersions'') (\<lambda>plugins.
     rbind (rbind (get_prop pkg ''policyDecisionDigest'') (arrayify_hash cn)) (\<lambda>policy.
     rbind (get_prop pkg ''replayCapsule'') (\<lambda>capsule.
     Inr (JObj [(''version'', version),
                (''bundleData'', bundle_canon bd),
                (''planHash'', plan),
                (''outcomeDigest'', outcome),
                (''trustSnapshot'', js_or trust JNull),
                (''inclusionProofs'', js_or incl JNull),
                (''anchorProof'', js_or anchor JNull),
                (''anchorTxHash'', js_or tx (JStr '''')),
                (''anchorBlockHeight'', JNum height),
                (''pluginVersions'', js_or plugins JNull),
                (''policyDecisionDigest'', policy),
                (''replayCapsule'', bundle_canon capsule)])))))))))))))"

definition make_reseal :: "canon \<Rightarrow> jsval \<Rightarrow> jsval res" where
  "make_reseal cn pkg =
     rbind (intermediate cn pkg) (\<lambda>i.
     rbind (canon_hash cn i) (\<lambda>h.
     set_prop pkg ''exportHash'' (JArr h)))"

section \<open>Cloning is exact on JSON data\<close>

lemma clone_data: "json_data v \<Longrightarrow> clone v = Inr v"
  by (simp add: clone_def json_stringify_def json_data_not_absent json.parse_print)

section \<open>What an edit leaves alone\<close>

fun is_obj :: "jsval \<Rightarrow> bool" where
  "is_obj (JObj _) = True"
| "is_obj _ = False"

lemma is_obj_iff: "is_obj v \<longleftrightarrow> (\<exists>kvs. v = JObj kvs)"
  by (cases v) simp_all

definition agree_off :: "string set \<Rightarrow> jsval \<Rightarrow> jsval \<Rightarrow> bool" where
  "agree_off K p q \<longleftrightarrow> is_obj q = is_obj p \<and> (\<forall>k. k \<notin> K \<longrightarrow> get_prop q k = get_prop p k)"

named_theorems frame "edits that leave every property but the named one alone"

lemma agree_off_refl [simp]: "agree_off K p p"
  by (simp add: agree_off_def)

lemma agree_off_trans: "agree_off K p q \<Longrightarrow> agree_off L q r \<Longrightarrow> agree_off (K \<union> L) p r"
  by (simp add: agree_off_def)

lemma agree_off_get: "agree_off K p q \<Longrightarrow> k \<notin> K \<Longrightarrow> get_prop q k = get_prop p k"
  by (simp add: agree_off_def)

lemma set_prop_frame [frame]: "set_prop p k x = Inr q \<Longrightarrow> agree_off {k} p q"
  by (cases p) (auto simp: agree_off_def)

lemma set_prop_obj: "set_prop p k x = Inr q \<Longrightarrow> is_obj p \<Longrightarrow> get_prop q k = Inr x"
  by (cases p) auto

lemma with_bundle_frame [frame]: "with_bundle p f = Inr q \<Longrightarrow> agree_off {''bundleData''} p q"
  by (auto simp: with_bundle_def rbind_eq_Inr intro: frame)

lemma edit_first_frame [frame]: "edit_first p k f = Inr q \<Longrightarrow> agree_off {k} p q"
  by (auto simp: edit_first_def rbind_eq_Inr Let_def split: if_splits intro: frame)

lemma flip_prop_frame [frame]: "flip_prop p k = Inr q \<Longrightarrow> agree_off {k} p q"
  by (auto simp: flip_prop_def rbind_eq_Inr split: if_splits intro: frame)

lemma make_reseal_frame [frame]: "make_reseal cn p = Inr q \<Longrightarrow> agree_off {''exportHash''} p q"
  by (auto simp: make_reseal_def rbind_eq_Inr intro: frame)

text \<open>The top-level field a forgery attacks.\<close>

definition target_field :: "string \<Rightarrow> string" where
  "target_field fid =
     (if fid = ''outcome'' then ''outcomeDigest''
      else if fid = ''chainhash'' then ''inclusionProofs''
      else if fid = ''trust'' then ''trustSnapshot''
      else if fid = ''plugin'' then ''pluginVersions''
      else ''bundleData'')"

lemma mutate_frame:
  assumes "f \<in> set FORGERIES" and "f_mutate f p = Inr q"
  shows "agree_off {target_field (f_id f)} p q"
  using assms
  by (auto simp: FORGERIES_def target_field_def mutate_approver_def mutate_planhash_def
      mutate_outcome_def mutate_chainhash_def mutate_policy_def mutate_trust_def mutate_plugin_def
      intro: frame)

lemma find_forgery:
  "List.find (\<lambda>f. f_id f = fid) FORGERIES = Some f \<Longrightarrow> f \<in> set FORGERIES \<and> f_id f = fid"
  by (auto simp: find_Some_iff)

lemma forgery_reseal: "f \<in> set FORGERIES \<Longrightarrow> f_reseal f \<longleftrightarrow> f_id f \<noteq> ''approver''"
  by (auto simp: FORGERIES_def)

lemma apply_forgery_Inr:
  assumes "json_data pkg" and "apply_forgery pkg fid rs = Inr (q, f)"
  obtains p where "f \<in> set FORGERIES" and "f_id f = fid" and "f_mutate f pkg = Inr p"
    and "fid = ''approver'' \<Longrightarrow> q = p"
    and "fid \<noteq> ''approver'' \<Longrightarrow> \<exists>r. rs = Some r \<and> r p = Inr q"
  using assms
  by (auto simp: apply_forgery_def clone_data rbind_eq_Inr forgery_reseal
      split: option.splits if_splits dest!: find_forgery)

lemma apply_forgery_runs:
  assumes "json_data pkg" and "apply_forgery pkg fid (Some rs) = Inr (q, f)"
  shows "\<exists>p. f \<in> set FORGERIES \<and> f_id f = fid \<and> f_mutate f pkg = Inr p \<and>
             (if fid = ''approver'' then q = p else rs p = Inr q)"
  using assms
  by (auto simp: apply_forgery_def clone_data rbind_eq_Inr forgery_reseal
      split: option.splits if_splits dest!: find_forgery)

section \<open>The outer seal\<close>

text \<open>
  The record under the seal, written down from what the repository says of it rather than from
  the re-seal: every field of the exported package \<open>fixtures/sample-proof.infrix.json\<close> but
  the hash itself, and the replay capsule a package may carry (the list of
  \<open>docs/ux-redesign/02-runbook-tamper-lab.md\<close>, l. 272-274), each with the form it takes.
\<close>

datatype field_form = Raw | Parsed | Hash32 | OrNull | OrEmpty | Height

definition export_fields :: "(string \<times> field_form) list" where
  "export_fields =
    [(''version'', Raw), (''bundleData'', Parsed), (''planHash'', Hash32), (''outcomeDigest'', Hash32),
     (''trustSnapshot'', OrNull), (''inclusionProofs'', OrNull), (''anchorProof'', OrNull),
     (''anchorTxHash'', OrEmpty), (''anchorBlockHeight'', Height), (''pluginVersions'', OrNull),
     (''policyDecisionDigest'', Hash32), (''replayCapsule'', Parsed)]"

fun read_form :: "canon \<Rightarrow> field_form \<Rightarrow> jsval \<Rightarrow> jsval res" where
  "read_form cn Raw v = Inr v"
| "read_form cn Parsed v =
     Inr (if nullish v then JNull
          else (case v of JStr s \<Rightarrow> (case json_parse s of Inr x \<Rightarrow> x | Inl _ \<Rightarrow> v) | _ \<Rightarrow> v))"
| "read_form cn Hash32 v = rbind (canon_coerce32 cn v) (\<lambda>bs. Inr (JArr bs))"
| "read_form cn OrNull v = Inr (if truthy v then v else JNull)"
| "read_form cn OrEmpty v = Inr (if truthy v then v else JStr '''')"
| "read_form cn Height v = rbind (to_number (if truthy v then v else jint 0)) (\<lambda>n. Inr (JNum n))"

fun read_fields :: "canon \<Rightarrow> (string \<times> field_form) list \<Rightarrow> jsval \<Rightarrow> (string \<times> jsval) list res" where
  "read_fields cn [] p = Inr []"
| "read_fields cn ((k, form) # fs) p =
     rbind (rbind (get_prop p k) (read_form cn form)) (\<lambda>v.
     rbind (read_fields cn fs p) (\<lambda>r. Inr ((k, v) # r)))"

lemma read_fields_names: "read_fields cn fs p = Inr r \<Longrightarrow> map fst r = map fst fs"
  by (induction fs arbitrary: r) (auto simp: rbind_eq_Inr)

lemma read_form_Parsed: "read_form cn Parsed v = Inr (bundle_canon v)"
  by (cases v) (simp_all split: sum.split)

lemma intermediate_fields:
  "intermediate cn p = rbind (read_fields cn export_fields p) (\<lambda>r. Inr (JObj r))"
  by (simp add: intermediate_def export_fields_def read_form_Parsed arrayify_hash_def js_or_def rbind_assoc
      del: read_form.simps(2) cong: if_cong)

text \<open>A package whose export hash is the hash its own fields determine.\<close>

definition sealed :: "canon \<Rightarrow> jsval \<Rightarrow> bool" where
  "sealed cn p \<longleftrightarrow> (\<exists>i h. intermediate cn p = Inr i \<and> canon_hash cn i = Inr h \<and>
                        get_prop p ''exportHash'' = Inr (JArr h))"

lemma intermediate_agree: "agree_off {''exportHash''} p q \<Longrightarrow> intermediate cn q = intermediate cn p"
  by (simp add: intermediate_def agree_off_get)

lemma make_reseal_sealed:
  assumes "is_obj p" and "make_reseal cn p = Inr q"
  shows "sealed cn q"
proof -
  from assms(2) obtain i h where "intermediate cn p = Inr i" "canon_hash cn i = Inr h"
      "set_prop p ''exportHash'' (JArr h) = Inr q"
    by (auto simp: make_reseal_def rbind_eq_Inr)
  moreover from assms(2) have "intermediate cn q = intermediate cn p"
    by (intro intermediate_agree frame)
  ultimately show ?thesis using assms(1) by (auto simp: sealed_def dest: set_prop_obj)
qed

lemma forgery_reseals:
  assumes "json_data pkg" and "is_obj pkg" and "fid \<noteq> ''approver''"
    and "apply_forgery pkg fid (Some (make_reseal cn)) = Inr (q, f)"
  shows "sealed cn q"
proof -
  from assms obtain p where "f \<in> set FORGERIES" "f_mutate f pkg = Inr p" "make_reseal cn p = Inr q"
    by (auto elim!: apply_forgery_Inr)
  then have "is_obj p" using mutate_frame assms(2) by (auto simp: agree_off_def)
  then show ?thesis using \<open>make_reseal cn p = Inr q\<close> by (rule make_reseal_sealed)
qed

text \<open>C8: A re-sealed package carries as export hash the canonical hash of the record its own fields
give: the twelve fields the repository names as sealed - those of the exported sample but the
hash, and the replay capsule - in order, each in its normal form. That the verifier, which is
not part of the repository, hashes this record is what makeReseal documents.\<close>

theorem reseal_passes_outer_seal:
  assumes "json_data pkg" and "is_obj pkg" and "fid \<noteq> ''approver''"
    and "apply_forgery pkg fid (Some (make_reseal cn)) = Inr (q, f)"
  shows "\<exists>r h. read_fields cn export_fields q = Inr r \<and> map fst r = map fst export_fields \<and>
               canon_hash cn (JObj r) = Inr h \<and> get_prop q ''exportHash'' = Inr (JArr h)"
proof -
  from forgery_reseals [OF assms] obtain i h where "intermediate cn q = Inr i" "canon_hash cn i = Inr h"
      "get_prop q ''exportHash'' = Inr (JArr h)" by (auto simp: sealed_def)
  moreover from this(1) obtain r where "read_fields cn export_fields q = Inr r" "i = JObj r"
    by (auto simp: intermediate_fields rbind_eq_Inr)
  ultimately show ?thesis using read_fields_names by blast
qed

lemma forgery_frame:
  assumes "json_data pkg" and "apply_forgery pkg fid (Some (make_reseal cn)) = Inr (q, f)"
    and "k \<noteq> target_field fid" and "k = ''exportHash'' \<longrightarrow> fid = ''approver''"
  shows "get_prop q k = get_prop pkg k"
proof -
  from assms(1,2) obtain p where f: "f \<in> set FORGERIES" "f_id f = fid" "f_mutate f pkg = Inr p"
    and q: "fid = ''approver'' \<Longrightarrow> q = p" "fid \<noteq> ''approver'' \<Longrightarrow> make_reseal cn p = Inr q"
    by (auto elim!: apply_forgery_Inr)
  have "agree_off {target_field fid} pkg p" using mutate_frame [OF f(1,3)] f(2) by simp
  then have "get_prop p k = get_prop pkg k" using assms(3) by (simp add: agree_off_get)
  moreover have "get_prop q k = get_prop p k"
    using q assms(4) make_reseal_frame [of cn p q] by (cases "fid = ''approver''") (auto dest: agree_off_get)
  ultimately show ?thesis by simp
qed


lemma xor_low_byte: "(w XOR 255) AND 255 = 255 - take_bit 8 (w :: 32 word)"
proof -
  have m: "(255 :: 32 word) = mask 8" by (simp add: mask_eq_exp_minus_1)
  have "(w XOR mask 8) AND mask 8 = take_bit 8 (NOT w)"
    by (rule bit_word_eqI) (auto simp: bit_simps)
  also have "\<dots> = mask 8 - take_bit 8 w"
    by (rule take_bit_not_eq_mask_diff)
  finally show ?thesis by (simp add: m)
qed

lemma sint_byte: "0 \<le> n \<Longrightarrow> n < 256 \<Longrightarrow> sint (word_of_int n :: 32 word) = n"
  by (simp add: signed_of_int signed_take_bit_int_eq_self)

lemma flip_byte_jint: "0 \<le> n \<Longrightarrow> n < 256 \<Longrightarrow> flip_byte (jint n) = Inr (jint (255 - n))"
proof -
  assume n: "0 \<le> n" "n < 256"
  have "take_bit 8 (word_of_int n :: 32 word) = word_of_int n"
    using n by (simp add: take_bit_of_int take_bit_int_eq_self)
  then have "(word_of_int n XOR 255) AND 255 = (word_of_int (255 - n) :: 32 word)"
    by (simp add: xor_low_byte)
  then have "flip_byte (jint n) = Inr (jint (sint (word_of_int (255 - n) :: 32 word)))"
    by (simp add: flip_byte_def of_int32_def del: of_int_diff)
  also have "sint (word_of_int (255 - n) :: 32 word) = 255 - n"
    using n by (intro sint_byte) simp_all
  finally show ?thesis .
qed

definition is_byte :: "jsval \<Rightarrow> bool" where
  "is_byte v \<longleftrightarrow> (case v of JNum (Fin q) \<Rightarrow> q = of_int \<lfloor>q\<rfloor> \<and> 0 \<le> q \<and> q < 256 | _ \<Rightarrow> False)"

lemma is_byteE:
  assumes "is_byte v" obtains n where "v = jint n" and "0 \<le> n" and "n < 256"
proof -
  from assms obtain q where v: "v = JNum (Fin q)" and "q = of_int \<lfloor>q\<rfloor>" "0 \<le> q" "q < 256"
    by (auto simp: is_byte_def split: jsval.splits jsnum.splits)
  then show thesis using that [of "\<lfloor>q\<rfloor>"] by (simp add: floor_less_iff)
qed

lemma is_byte_jint [simp]: "is_byte (jint n) \<longleftrightarrow> 0 \<le> n \<and> n < 256"
  by (simp add: is_byte_def)

text \<open>A non-empty byte array, the form of every hash and digest.\<close>

fun bytes :: "jsval \<Rightarrow> bool" where
  "bytes (JArr xs) = (xs \<noteq> [] \<and> list_all is_byte xs)"
| "bytes _ = False"

lemma flip_first_bytes:
  assumes "bytes v"
  shows "\<exists>w. flip_first v = Inr w \<and> bytes w \<and> w \<noteq> v \<and> flip_first w = Inr v"
proof -
  from assms obtain b bs where v: "v = JArr (b # bs)" "is_byte b" "list_all is_byte bs"
    by (cases v rule: bytes.cases) (auto simp: neq_Nil_conv)
  from v(2) obtain n where n: "b = jint n" "0 \<le> n" "n < 256" by (rule is_byteE)
  let ?w = "JArr (jint (255 - n) # bs)"
  have "flip_first v = Inr ?w" "flip_first ?w = Inr v"
    using v n flip_byte_jint [of n] flip_byte_jint [of "255 - n"] by simp_all
  moreover have "bytes ?w" using v n is_byte_jint [of "255 - n"] by simp
  moreover have "255 - n \<noteq> n" by presburger
  then have "jint (255 - n) \<noteq> jint n" by (metis jsnum.inject jsval.inject(2) of_int_eq_iff)
  then have "?w \<noteq> v" using v n by blast
  ultimately show ?thesis by blast
qed

section \<open>Every forgery takes effect\<close>

definition first_obj :: "(string \<times> jsval) list \<Rightarrow> string \<Rightarrow> (string \<times> jsval) list option" where
  "first_obj kvs k = (case obj_get kvs k of JArr (JObj e # _) \<Rightarrow> Some e | _ \<Rightarrow> None)"

text \<open>
  The shape of an exported package: inlined bundle with an approval that carries the plan hash
  and a recorded policy decision, byte-array digests, an inclusion proof with its chain link, a
  trust snapshot at a real block and a fully identified plugin.
\<close>

definition genuine_bundle :: "(string \<times> jsval) list \<Rightarrow> bool" where
  "genuine_bundle bd \<longleftrightarrow>
     (case first_obj bd ''approvalEvidence'' of
        Some a \<Rightarrow> bytes (obj_get a ''planHash'') \<and>
                  JStr ''acc://attacker.evil/admin'' \<noteq> obj_get a ''identity''
      | None \<Rightarrow> False) \<and>
     (case obj_get bd ''policyDecisions'' of JArr (_ # _) \<Rightarrow> True | _ \<Rightarrow> False)"

definition genuine :: "(string \<times> jsval) list \<Rightarrow> bool" where
  "genuine kvs \<longleftrightarrow>
     json_data (JObj kvs) \<and>
     (case obj_get kvs ''bundleData'' of JObj bd \<Rightarrow> genuine_bundle bd | _ \<Rightarrow> False) \<and>
     bytes (obj_get kvs ''outcomeDigest'') \<and>
     (case first_obj kvs ''inclusionProofs'' of
        Some pr \<Rightarrow> (case obj_get pr ''link'' of JObj l \<Rightarrow> bytes (obj_get l ''contentHash'') | _ \<Rightarrow> False)
      | None \<Rightarrow> False) \<and>
     (case first_obj kvs ''trustSnapshot'' of
        Some s \<Rightarrow> jint 0 \<noteq> obj_get s ''blockHeight'' | None \<Rightarrow> False) \<and>
     (case first_obj kvs ''pluginVersions'' of
        Some pv \<Rightarrow> JStr '''' \<noteq> obj_get pv ''implementationHash'' | None \<Rightarrow> False) \<and>
     (case obj_get kvs ''anchorBlockHeight'' of JNum _ \<Rightarrow> True | JUndef \<Rightarrow> True | _ \<Rightarrow> False)"

text \<open>An edit that returns and gives the property \<open>k\<close> of its object another value.\<close>

definition changes_at :: "string \<Rightarrow> (jsval \<Rightarrow> jsval res) \<Rightarrow> (string \<times> jsval) list \<Rightarrow> bool" where
  "changes_at k f kvs \<longleftrightarrow>
     (\<exists>v. f (JObj kvs) = Inr (JObj (AList.update k v kvs)) \<and> v \<noteq> obj_get kvs k)"

named_theorems effect "edits that return and change their object"

lemma changes_atD:
  assumes "changes_at k f kvs"
  obtains kvs' where "f (JObj kvs) = Inr (JObj kvs')" and "kvs' \<noteq> kvs" and "obj_get kvs' k \<noteq> obj_get kvs k"
proof -
  from assms obtain v where v: "f (JObj kvs) = Inr (JObj (AList.update k v kvs))" "v \<noteq> obj_get kvs k"
    by (auto simp: changes_at_def)
  then have "obj_get (AList.update k v kvs) k \<noteq> obj_get kvs k" by simp
  then show thesis using that v(1) by metis
qed

lemma changes_set [effect]:
  "v \<noteq> obj_get kvs k \<Longrightarrow> changes_at k (\<lambda>a. set_prop a k v) kvs"
  by (auto simp: changes_at_def)

lemma changes_flip [effect]:
  assumes "bytes (obj_get kvs k)" shows "changes_at k (\<lambda>a. flip_prop a k) kvs"
proof -
  from flip_first_bytes [OF assms] obtain w where
    "flip_first (obj_get kvs k) = Inr w" "w \<noteq> obj_get kvs k" by blast
  moreover have "is_arr (obj_get kvs k)" using assms by (cases "obj_get kvs k") simp_all
  ultimately show ?thesis by (auto simp: changes_at_def flip_prop_def)
qed

lemma first_objD: "first_obj kvs k = Some e \<Longrightarrow> \<exists>r. obj_get kvs k = JArr (JObj e # r)"
  by (auto simp: first_obj_def split: jsval.splits list.splits)

lemma changes_edit_first [effect]:
  assumes "first_obj kvs k = Some e" and "changes_at k' f e"
  shows "changes_at k (\<lambda>p. edit_first p k f) kvs"
proof -
  obtain e' where "f (JObj e) = Inr (JObj e')" "e' \<noteq> e" using assms(2) by (rule changes_atD)
  moreover obtain r where "obj_get kvs k = JArr (JObj e # r)" using first_objD [OF assms(1)] by blast
  ultimately show ?thesis by (auto simp: changes_at_def edit_first_def)
qed

lemma changes_edit_approval [effect]:
  assumes "first_obj kvs ''approvalEvidence'' = Some e" and "changes_at k' f e"
  shows "changes_at ''approvalEvidence'' (\<lambda>p. edit_approval p f) kvs"
proof -
  from first_objD [OF assms(1)] have "truthy (obj_get kvs ''approvalEvidence'')" by auto
  then show ?thesis using changes_edit_first [OF assms]
    by (simp add: changes_at_def edit_approval_def approvals_key_def)
qed

lemma changes_with_bundle [effect]:
  assumes "obj_get kvs ''bundleData'' = JObj bd" and "changes_at k' f bd"
  shows "changes_at ''bundleData'' (\<lambda>p. with_bundle p f) kvs"
proof -
  obtain bd' where "f (JObj bd) = Inr (JObj bd')" "bd' \<noteq> bd" using assms(2) by (rule changes_atD)
  then show ?thesis using assms(1) by (auto simp: changes_at_def with_bundle_def)
qed

lemma changes_link [effect]:
  assumes "obj_get pr ''link'' = JObj l" and "changes_at k' (\<lambda>l. flip_prop l ''contentHash'') l"
  shows "changes_at ''link'' (\<lambda>pr. rbind (get_prop pr ''link'') (\<lambda>link.
     if truthy link then rbind (flip_prop link ''contentHash'') (\<lambda>link'. set_prop pr ''link'' link')
     else Inr pr)) pr"
proof -
  obtain l' where "flip_prop (JObj l) ''contentHash'' = Inr (JObj l')" "l' \<noteq> l"
    using assms(2) by (rule changes_atD)
  then show ?thesis using assms(1) by (auto simp: changes_at_def)
qed

lemma changes_policy [effect]:
  "obj_get bd ''policyDecisions'' = JArr (d # ds) \<Longrightarrow>
   changes_at ''policyDecisions'' (\<lambda>bd. rbind (get_prop bd ''policyDecisions'') (\<lambda>d.
     case d of JArr (_ # ds) \<Rightarrow> set_prop bd ''policyDecisions'' (JArr ds) | _ \<Rightarrow> Inr bd)) bd"
  by (auto simp: changes_at_def)

lemma genuine_bundleE:
  assumes "genuine_bundle bd"
  obtains a d ds where "first_obj bd ''approvalEvidence'' = Some a" "bytes (obj_get a ''planHash'')"
    "JStr ''acc://attacker.evil/admin'' \<noteq> obj_get a ''identity''"
    "obj_get bd ''policyDecisions'' = JArr (d # ds)"
  using assms by (auto simp: genuine_bundle_def split: option.splits jsval.splits list.splits)

lemma genuineE:
  assumes "genuine kvs"
  obtains bd pr l s pv where "json_data (JObj kvs)"
    "obj_get kvs ''bundleData'' = JObj bd" "genuine_bundle bd"
    "bytes (obj_get kvs ''outcomeDigest'')"
    "first_obj kvs ''inclusionProofs'' = Some pr" "obj_get pr ''link'' = JObj l" "bytes (obj_get l ''contentHash'')"
    "first_obj kvs ''trustSnapshot'' = Some s" "jint 0 \<noteq> obj_get s ''blockHeight''"
    "first_obj kvs ''pluginVersions'' = Some pv" "JStr '''' \<noteq> obj_get pv ''implementationHash''"
  using assms by (auto simp: genuine_def split: option.splits jsval.splits)

lemma mutate_changes:
  assumes "genuine kvs" and "f \<in> set FORGERIES"
  shows "changes_at (target_field (f_id f)) (f_mutate f) kvs"
proof -
  from assms(1) obtain bd pr l s pv where g:
    "obj_get kvs ''bundleData'' = JObj bd" "genuine_bundle bd"
    "bytes (obj_get kvs ''outcomeDigest'')"
    "first_obj kvs ''inclusionProofs'' = Some pr" "obj_get pr ''link'' = JObj l" "bytes (obj_get l ''contentHash'')"
    "first_obj kvs ''trustSnapshot'' = Some s" "jint 0 \<noteq> obj_get s ''blockHeight''"
    "first_obj kvs ''pluginVersions'' = Some pv" "JStr '''' \<noteq> obj_get pv ''implementationHash''"
    by (rule genuineE)
  from g(2) obtain a d ds where b: "first_obj bd ''approvalEvidence'' = Some a" "bytes (obj_get a ''planHash'')"
    "JStr ''acc://attacker.evil/admin'' \<noteq> obj_get a ''identity''"
    "obj_get bd ''policyDecisions'' = JArr (d # ds)"
    by (rule genuine_bundleE)
  have "changes_at ''bundleData'' mutate_approver kvs" "changes_at ''bundleData'' mutate_planhash kvs" "changes_at ''outcomeDigest'' mutate_outcome kvs"
    "changes_at ''inclusionProofs'' mutate_chainhash kvs" "changes_at ''bundleData'' mutate_policy kvs" "changes_at ''trustSnapshot'' mutate_trust kvs"
    "changes_at ''pluginVersions'' mutate_plugin kvs"
    unfolding mutate_approver_def mutate_planhash_def mutate_outcome_def mutate_chainhash_def
      mutate_policy_def mutate_trust_def mutate_plugin_def
    by (rule effect g b)+
  with assms(2) show ?thesis by (auto simp: FORGERIES_def target_field_def)
qed

text \<open>A hasher that never throws.\<close>

definition canon_total :: "canon \<Rightarrow> bool" where
  "canon_total cn \<longleftrightarrow> (\<forall>v. (\<exists>bs. canon_hash cn v = Inr bs) \<and> (\<exists>bs. canon_coerce32 cn v = Inr bs))"

lemma canon_totalD:
  assumes "canon_total cn"
  shows "\<exists>h c. (\<forall>v. canon_hash cn v = Inr (h v)) \<and> (\<forall>v. arrayify_hash cn v = Inr (c v))"
proof -
  from assms have "\<exists>h. \<forall>v. canon_hash cn v = Inr (h v)" "\<exists>c. \<forall>v. canon_coerce32 cn v = Inr (c v)"
    unfolding canon_total_def by (metis choice)+
  then obtain h c where "\<forall>v. canon_hash cn v = Inr (h v)" "\<forall>v. canon_coerce32 cn v = Inr (c v)"
    by blast
  then have "\<forall>v. arrayify_hash cn v = Inr (JArr (c v))" by (simp add: arrayify_hash_def)
  with \<open>\<forall>v. canon_hash cn v = Inr (h v)\<close> show ?thesis
    by (intro exI [of _ h] exI [of _ "\<lambda>v. JArr (c v)"] conjI)
qed

lemma make_reseal_total:
  assumes "canon_total cn" and "to_number (js_or (obj_get kvs ''anchorBlockHeight'') (jint 0)) = Inr n"
  shows "\<exists>kvs'. make_reseal cn (JObj kvs) = Inr (JObj kvs')"
proof -
  obtain h c where "\<forall>v. canon_hash cn v = Inr (h v)" "\<forall>v. arrayify_hash cn v = Inr (c v)"
    using canon_totalD [OF assms(1)] by blast
  then show ?thesis using assms(2) by (simp add: make_reseal_def intermediate_def)
qed

definition forgery_ids :: "string list" where
  "forgery_ids = [''approver'', ''planhash'', ''outcome'', ''chainhash'', ''policy'', ''trust'', ''plugin'']"

lemma forgery_ids_table: "map f_id FORGERIES = forgery_ids"
  by (simp add: FORGERIES_def forgery_ids_def)

lemma find_forgery_id:
  assumes "fid \<in> set forgery_ids"
  obtains f where "List.find (\<lambda>f. f_id f = fid) FORGERIES = Some f" and "f \<in> set FORGERIES" and "f_id f = fid"
proof -
  from assms have "fid \<in> f_id ` set FORGERIES" by (metis forgery_ids_table list.set_map)
  then have "List.find (\<lambda>f. f_id f = fid) FORGERIES \<noteq> None" by (auto simp: find_None_iff)
  then show thesis using that find_forgery by blast
qed

lemma genuine_height:
  assumes "genuine kvs" and "get_prop (JObj kvs') ''anchorBlockHeight'' = get_prop (JObj kvs) ''anchorBlockHeight''"
  shows "\<exists>n. to_number (js_or (obj_get kvs' ''anchorBlockHeight'') (jint 0)) = Inr n"
  using assms by (auto simp: genuine_def js_or_def split: jsval.splits)

lemma forgery_effect:
  assumes "genuine kvs" and "canon_total cn" and "fid \<in> set forgery_ids"
  shows "\<exists>kvs' f. apply_forgery (JObj kvs) fid (Some (make_reseal cn)) = Inr (JObj kvs', f) \<and>
                 obj_get kvs' (target_field fid) \<noteq> obj_get kvs (target_field fid)"
proof -
  obtain f where f: "List.find (\<lambda>f. f_id f = fid) FORGERIES = Some f" "f \<in> set FORGERIES" "f_id f = fid"
    using assms(3) by (rule find_forgery_id)
  have data: "json_data (JObj kvs)" using assms(1) by (rule genuineE)
  from mutate_changes [OF assms(1) f(2)] obtain p where p: "f_mutate f (JObj kvs) = Inr (JObj p)"
    "obj_get p (target_field fid) \<noteq> obj_get kvs (target_field fid)"
    unfolding f(3) by (rule changes_atD)
  show ?thesis
  proof (cases "f_reseal f")
    case False
    with f p data have "apply_forgery (JObj kvs) fid (Some (make_reseal cn)) = Inr (JObj p, f)"
      by (simp add: apply_forgery_def clone_data)
    with p(2) show ?thesis by blast
  next
    case True
    have off: "agree_off {target_field fid} (JObj kvs) (JObj p)" using mutate_frame [OF f(2) p(1)] f(3) by simp
    have "target_field fid \<noteq> ''anchorBlockHeight''" "target_field fid \<noteq> ''exportHash''"
      by (simp_all add: target_field_def)
    then have "get_prop (JObj p) ''anchorBlockHeight'' = get_prop (JObj kvs) ''anchorBlockHeight''"
      by (intro agree_off_get [OF off]) simp
    from genuine_height [OF assms(1) this] obtain n where
      "to_number (js_or (obj_get p ''anchorBlockHeight'') (jint 0)) = Inr n" ..
    with make_reseal_total [OF assms(2)] obtain q where q: "make_reseal cn (JObj p) = Inr (JObj q)" by blast
    have "get_prop (JObj q) (target_field fid) = get_prop (JObj p) (target_field fid)"
      using \<open>target_field fid \<noteq> ''exportHash''\<close> by (intro agree_off_get [OF make_reseal_frame [OF q]]) simp
    then have "obj_get q (target_field fid) \<noteq> obj_get kvs (target_field fid)" using p(2) by simp
    moreover have "apply_forgery (JObj kvs) fid (Some (make_reseal cn)) = Inr (JObj q, f)"
      using True f p q data by (simp add: apply_forgery_def clone_data)
    ultimately show ?thesis by blast
  qed
qed

section \<open>The place a forgery edits\<close>

text \<open>
  Where each description of the lab says its forgery strikes, and the value it leaves there,
  written without the edit functions: a path of keys and first elements, and the value at its end.
\<close>

datatype place = Key string | First

fun look_at :: "place list \<Rightarrow> jsval \<Rightarrow> jsval option" where
  "look_at [] v = Some v"
| "look_at (Key k # ps) (JObj kvs) = look_at ps (obj_get kvs k)"
| "look_at (First # ps) (JArr (x # xs)) = look_at ps x"
| "look_at _ _ = None"

fun put_at :: "place list \<Rightarrow> jsval \<Rightarrow> jsval \<Rightarrow> jsval" where
  "put_at [] w v = w"
| "put_at (Key k # ps) w (JObj kvs) = JObj (AList.update k (put_at ps w (obj_get kvs k)) kvs)"
| "put_at (First # ps) w (JArr (x # xs)) = JArr (put_at ps w x # xs)"
| "put_at _ w v = v"

definition forged_place :: "string \<Rightarrow> place list" where
  "forged_place fid =
     (if fid = ''approver'' then [Key ''bundleData'', Key ''approvalEvidence'', First, Key ''identity'']
      else if fid = ''planhash'' then [Key ''bundleData'', Key ''approvalEvidence'', First, Key ''planHash'']
      else if fid = ''outcome'' then [Key ''outcomeDigest'']
      else if fid = ''chainhash'' then [Key ''inclusionProofs'', First, Key ''link'', Key ''contentHash'']
      else if fid = ''policy'' then [Key ''bundleData'', Key ''policyDecisions'']
      else if fid = ''trust'' then [Key ''trustSnapshot'', First, Key ''blockHeight'']
      else [Key ''pluginVersions'', First, Key ''implementationHash''])"

fun first_byte_inverted :: "jsval \<Rightarrow> jsval" where
  "first_byte_inverted (JArr (JNum (Fin b) # bs)) = JArr (JNum (Fin (255 - b)) # bs)"
| "first_byte_inverted v = v"

fun first_dropped :: "jsval \<Rightarrow> jsval" where
  "first_dropped (JArr xs) = JArr (tl xs)"
| "first_dropped v = v"

definition forged_value :: "string \<Rightarrow> jsval \<Rightarrow> jsval" where
  "forged_value fid v =
     (if fid = ''approver'' then JStr ''acc://attacker.evil/admin''
      else if fid = ''policy'' then first_dropped v
      else if fid = ''trust'' then jint 0
      else if fid = ''plugin'' then JStr ''''
      else first_byte_inverted v)"

lemma flip_first_inverts: "bytes v \<Longrightarrow> flip_first v = Inr (first_byte_inverted v) \<and> first_byte_inverted v \<noteq> v"
proof -
  assume "bytes v"
  then obtain b bs where v: "v = JArr (b # bs)" "is_byte b"
    by (cases v rule: bytes.cases) (auto simp: neq_Nil_conv)
  from v(2) obtain n where n: "b = jint n" "0 \<le> n" "n < 256" by (rule is_byteE)
  have "255 - n \<noteq> n" by presburger
  then have "jint (255 - n) \<noteq> jint n" by (metis jsnum.inject jsval.inject(2) of_int_eq_iff)
  then show ?thesis using v n flip_byte_jint [of n] by simp
qed

lemma flip_prop_bytes:
  "bytes (obj_get kvs k) \<Longrightarrow>
   flip_prop (JObj kvs) k = Inr (put_at [Key k] (first_byte_inverted (obj_get kvs k)) (JObj kvs))"
  by (cases "obj_get kvs k") (auto simp: flip_prop_def flip_first_inverts)

text \<open>An edit that returns and has written \<open>w\<close> over a different value at \<open>ps\<close> of the object.\<close>

definition writes_at :: "place list \<Rightarrow> (jsval \<Rightarrow> jsval) \<Rightarrow> (jsval \<Rightarrow> jsval res) \<Rightarrow> (string \<times> jsval) list \<Rightarrow> bool" where
  "writes_at ps g f kvs \<longleftrightarrow>
     (\<exists>old. look_at ps (JObj kvs) = Some old \<and> g old \<noteq> old \<and> f (JObj kvs) = Inr (put_at ps (g old) (JObj kvs)))"

named_theorems writes "edits that write one place"

lemma writes_set [writes]: "w \<noteq> obj_get kvs k \<Longrightarrow> writes_at [Key k] (\<lambda>_. w) (\<lambda>a. set_prop a k w) kvs"
  by (simp add: writes_at_def)

lemma writes_flip [writes]: "bytes (obj_get kvs k) \<Longrightarrow> writes_at [Key k] first_byte_inverted (\<lambda>a. flip_prop a k) kvs"
  by (simp add: writes_at_def flip_prop_bytes flip_first_inverts del: put_at.simps)

lemma writes_first [writes]:
  "first_obj kvs k = Some e \<Longrightarrow> writes_at ps g f e \<Longrightarrow> writes_at (Key k # First # ps) g (\<lambda>p. edit_first p k f) kvs"
  by (auto simp: writes_at_def edit_first_def dest!: first_objD)

lemma writes_approval [writes]:
  "first_obj kvs ''approvalEvidence'' = Some e \<Longrightarrow> writes_at ps g f e \<Longrightarrow>
   writes_at (Key ''approvalEvidence'' # First # ps) g (\<lambda>p. edit_approval p f) kvs"
  by (auto simp: writes_at_def edit_approval_def approvals_key_def edit_first_def dest!: first_objD)

lemma writes_bundle [writes]:
  "obj_get kvs ''bundleData'' = JObj bd \<Longrightarrow> writes_at (Key k # ps) g f bd \<Longrightarrow>
   writes_at (Key ''bundleData'' # Key k # ps) g (\<lambda>p. with_bundle p f) kvs"
  by (auto simp: writes_at_def with_bundle_def)

lemma writes_link [writes]:
  "obj_get pr ''link'' = JObj l \<Longrightarrow> writes_at [Key k] g (\<lambda>l. flip_prop l k) l \<Longrightarrow>
   writes_at [Key ''link'', Key k] g (\<lambda>pr. rbind (get_prop pr ''link'') (\<lambda>link.
     if truthy link then rbind (flip_prop link k) (\<lambda>link'. set_prop pr ''link'' link') else Inr pr)) pr"
  by (auto simp: writes_at_def)

lemma writes_policy [writes]:
  "obj_get bd ''policyDecisions'' = JArr (d # ds) \<Longrightarrow>
   writes_at [Key ''policyDecisions''] first_dropped (\<lambda>bd. rbind (get_prop bd ''policyDecisions'') (\<lambda>d.
     case d of JArr (_ # ds) \<Rightarrow> set_prop bd ''policyDecisions'' (JArr ds) | _ \<Rightarrow> Inr bd)) bd"
  by (auto simp: writes_at_def)

lemma mutate_writes:
  assumes "genuine kvs" and "f \<in> set FORGERIES"
  shows "writes_at (forged_place (f_id f)) (forged_value (f_id f)) (f_mutate f) kvs"
proof -
  from assms(1) obtain bd pr l s pv where g:
    "obj_get kvs ''bundleData'' = JObj bd" "genuine_bundle bd"
    "bytes (obj_get kvs ''outcomeDigest'')"
    "first_obj kvs ''inclusionProofs'' = Some pr" "obj_get pr ''link'' = JObj l" "bytes (obj_get l ''contentHash'')"
    "first_obj kvs ''trustSnapshot'' = Some s" "jint 0 \<noteq> obj_get s ''blockHeight''"
    "first_obj kvs ''pluginVersions'' = Some pv" "JStr '''' \<noteq> obj_get pv ''implementationHash''"
    by (rule genuineE)
  from g(2) obtain a d ds where b: "first_obj bd ''approvalEvidence'' = Some a" "bytes (obj_get a ''planHash'')"
    "JStr ''acc://attacker.evil/admin'' \<noteq> obj_get a ''identity''"
    "obj_get bd ''policyDecisions'' = JArr (d # ds)"
    by (rule genuine_bundleE)
  have "writes_at [Key ''bundleData'', Key ''approvalEvidence'', First, Key ''identity''] (\<lambda>_. JStr ''acc://attacker.evil/admin'') mutate_approver kvs"
    "writes_at [Key ''bundleData'', Key ''approvalEvidence'', First, Key ''planHash''] first_byte_inverted mutate_planhash kvs"
    "writes_at [Key ''outcomeDigest''] first_byte_inverted mutate_outcome kvs"
    "writes_at [Key ''inclusionProofs'', First, Key ''link'', Key ''contentHash''] first_byte_inverted mutate_chainhash kvs"
    "writes_at [Key ''bundleData'', Key ''policyDecisions''] first_dropped mutate_policy kvs"
    "writes_at [Key ''trustSnapshot'', First, Key ''blockHeight''] (\<lambda>_. jint 0) mutate_trust kvs"
    "writes_at [Key ''pluginVersions'', First, Key ''implementationHash''] (\<lambda>_. JStr '''') mutate_plugin kvs"
    unfolding mutate_approver_def mutate_planhash_def mutate_outcome_def mutate_chainhash_def
      mutate_policy_def mutate_trust_def mutate_plugin_def
    by (rule writes g b)+
  with assms(2) show ?thesis by (auto simp: FORGERIES_def forged_place_def forged_value_def [abs_def])
qed

section \<open>The outer seal catches a naive forgery\<close>

definition no_collision :: "canon \<Rightarrow> jsval \<Rightarrow> jsval \<Rightarrow> bool" where
  "no_collision cn p q \<longleftrightarrow>
     (\<forall>i j. intermediate cn p = Inr i \<longrightarrow> intermediate cn q = Inr j \<longrightarrow>
            canon_hash cn i = canon_hash cn j \<longrightarrow> i = j)"

lemma intermediate_field:
  "intermediate cn (JObj kvs) = Inr i \<Longrightarrow> get_prop i ''bundleData'' = Inr (bundle_canon (obj_get kvs ''bundleData''))"
  by (auto simp: intermediate_def rbind_eq_Inr obj_get_simps)

text \<open>C16: A forgery that does not re-seal leaves the old export hash on a changed package, so a
verifier that recomputes the hash rejects it unless the hash collides.\<close>

theorem outer_seal_catches_naive:
  assumes "genuine kvs" and "sealed cn (JObj kvs)"
    and "apply_forgery (JObj kvs) ''approver'' rs = Inr (q, f)" and "no_collision cn (JObj kvs) q"
  shows "\<not> sealed cn q"
proof
  assume "sealed cn q"
  obtain bd where data: "json_data (JObj kvs)" and bd: "obj_get kvs ''bundleData'' = JObj bd" and
    gb: "genuine_bundle bd"
    using assms(1) by (rule genuineE)
  obtain p where f: "f \<in> set FORGERIES" "f_id f = ''approver''" "f_mutate f (JObj kvs) = Inr q"
    using data assms(3) by (rule apply_forgery_Inr) auto
  obtain kvs' where q: "q = JObj kvs'" and chg: "obj_get kvs' ''bundleData'' \<noteq> obj_get kvs ''bundleData''"
    using mutate_changes [OF assms(1) f(1)] f(2,3) by (auto simp: target_field_def elim!: changes_atD)
  have fm: "f_mutate f = mutate_approver" using f by (auto simp: FORGERIES_def)
  then obtain bd' where bd': "obj_get kvs' ''bundleData'' = JObj bd'"
    using f(3) q bd by (auto simp: mutate_approver_def with_bundle_def rbind_eq_Inr edit_approval_def
      edit_first_def approvals_key_def Let_def split: if_splits)
  have "get_prop q ''exportHash'' = get_prop (JObj kvs) ''exportHash''"
    using mutate_frame [OF f(1,3)] f(2) by (simp add: agree_off_get target_field_def)
  with \<open>sealed cn q\<close> assms(2) obtain i j h where i: "intermediate cn (JObj kvs) = Inr i" "canon_hash cn i = Inr h"
    and j: "intermediate cn q = Inr j" "canon_hash cn j = Inr h" by (auto simp: sealed_def)
  with assms(4) have "i = j" by (auto simp: no_collision_def)
  with intermediate_field [OF i(1)] intermediate_field [of cn kvs' j] j(1) q bd bd' chg show False by simp
qed

section \<open>Bundles kept as text\<close>

text \<open>The same package with its bundle as an object and as a JSON string.\<close>

definition with_inline :: "(string \<times> jsval) list \<Rightarrow> jsval \<Rightarrow> jsval" where
  "with_inline kvs bd = JObj (AList.update ''bundleData'' bd kvs)"

definition with_text :: "(string \<times> jsval) list \<Rightarrow> jsval \<Rightarrow> jsval" where
  "with_text kvs bd = JObj (AList.update ''bundleData'' (JStr (json_text bd)) kvs)"

lemma bundle_canon_text: "json_data bd \<Longrightarrow> bundle_canon (JStr (json_text bd)) = bd"
  by (simp add: json.parse_print)

lemma bundle_canon_id: "json_data bd \<Longrightarrow> \<not> is_str bd \<Longrightarrow> bundle_canon bd = bd"
  by (cases bd) simp_all

text \<open>C31: The re-seal computes the same hash whether the evidence bundle is inlined or a JSON string.\<close>

theorem reseal_ignores_bundle_form:
  assumes "json_data bd" and "\<not> is_str bd"
  shows "rbind (make_reseal cn (with_text kvs bd)) (\<lambda>p. get_prop p ''exportHash'') =
         rbind (make_reseal cn (with_inline kvs bd)) (\<lambda>p. get_prop p ''exportHash'')"
proof -
  have "intermediate cn (with_text kvs bd) = intermediate cn (with_inline kvs bd)"
    using bundle_canon_text [OF assms(1)] bundle_canon_id [OF assms]
    by (simp add: intermediate_def with_text_def with_inline_def del: bundle_canon.simps)
  then show ?thesis
    by (cases "intermediate cn (with_inline kvs bd)"; simp add: make_reseal_def rbind_assoc)
      (simp add: with_text_def with_inline_def)
qed

theorem with_bundle_same_edit:
  assumes "json_data bd" and "\<not> is_str bd" and "f bd = Inr bd'" and "json_data bd'" and "\<not> is_str bd'"
  shows "with_bundle (with_inline kvs bd) f = Inr (with_inline kvs bd') \<and>
         with_bundle (with_text kvs bd) f = Inr (with_text kvs bd')"
proof
  show "with_bundle (with_inline kvs bd) f = Inr (with_inline kvs bd')"
    using assms by (cases bd) (simp_all add: with_bundle_def with_inline_def)
  show "with_bundle (with_text kvs bd) f = Inr (with_text kvs bd')"
    using assms by (simp add: with_bundle_def with_text_def json.parse_print json_stringify_def
        json_data_not_absent)
qed

section \<open>Refusals and forgeries that miss\<close>

theorem apply_forgery_refuses:
  assumes "genuine kvs"
  shows "(fid \<notin> set forgery_ids \<longrightarrow>
            apply_forgery (JObj kvs) fid rs = Inl (Thrown (''unknown forgery '' @ fid))) \<and>
         (fid \<in> set forgery_ids \<longrightarrow> fid \<noteq> ''approver'' \<longrightarrow>
            apply_forgery (JObj kvs) fid None =
              Inl (Thrown (''forgery '' @ [CHR 0x22] @ fid @ [CHR 0x22] @ '' requires a reseal function'')))"
proof (intro conjI impI)
  assume "fid \<notin> set forgery_ids"
  then have "\<forall>f \<in> set FORGERIES. f_id f \<noteq> fid" by (auto simp flip: forgery_ids_table)
  then have "List.find (\<lambda>f. f_id f = fid) FORGERIES = None" by (simp add: find_None_iff)
  then show "apply_forgery (JObj kvs) fid rs = Inl (Thrown (''unknown forgery '' @ fid))"
    by (simp add: apply_forgery_def)
next
  assume fid: "fid \<in> set forgery_ids" "fid \<noteq> ''approver''"
  obtain f where f: "List.find (\<lambda>f. f_id f = fid) FORGERIES = Some f" "f \<in> set FORGERIES" "f_id f = fid"
    using fid(1) by (rule find_forgery_id)
  then have "f_reseal f" using forgery_reseal fid(2) by simp
  obtain p where "f_mutate f (JObj kvs) = Inr (JObj p)"
    using mutate_changes [OF assms f(2)] by (rule changes_atD)
  moreover have "json_data (JObj kvs)" using assms by (rule genuineE)
  ultimately show "apply_forgery (JObj kvs) fid None =
      Inl (Thrown (''forgery '' @ [CHR 0x22] @ fid @ [CHR 0x22] @ '' requires a reseal function''))"
    using f(1) \<open>f_reseal f\<close> by (simp add: apply_forgery_def clone_data)
qed

lemma no_approvals_no_edit:
  "\<not> truthy (obj_get bd ''approvalEvidence'') \<Longrightarrow> \<not> truthy (obj_get bd ''ApprovalEvidence'') \<Longrightarrow>
   edit_approval (JObj bd) f = Inr (JObj bd)"
  by (simp add: edit_approval_def approvals_key_def edit_first_def)

theorem capitalised_policy_not_forged:
  assumes "json_data (JObj kvs)" and "obj_get kvs ''bundleData'' = JObj bd"
    and "map_of bd ''policyDecisions'' = None" and "map_of bd ''PolicyDecisions'' = Some (JArr ds)"
  shows "apply_forgery (JObj kvs) ''policy'' (Some rs) =
         rbind (rs (JObj kvs)) (\<lambda>q. Inr (q, FORGERIES ! 4))"
proof -
  have "obj_get bd ''policyDecisions'' = JUndef"
    using assms(3) by (simp add: obj_get_None proto_member_def proto_methods_def)
  moreover have "map_of kvs ''bundleData'' = Some (JObj bd)"
    using assms(2) by (auto simp: obj_get_def proto_member_def proto_methods_def split: option.splits if_splits)
  ultimately have "mutate_policy (JObj kvs) = Inr (JObj kvs)"
    using assms(2) by (simp add: mutate_policy_def with_bundle_def update_triv)
  then show ?thesis using assms(1) by (simp add: apply_forgery_def clone_data FORGERIES_def)
qed

section \<open>A concrete package\<close>

text \<open>The package of \<open>web/test/tamper.test.mjs\<close>, and a hasher that is its own preimage.\<close>

definition fixture_bundle :: "(string \<times> jsval) list" where
  "fixture_bundle =
    [(''id'', JStr ''ev-test''),
     (''approvalEvidence'', JArr [JObj [(''identity'', JStr ''acc://honest.acme/admin''),
        (''role'', JStr ''approver''), (''planHash'', JArr [jint 9, jint 9, jint 9])]]),
     (''policyDecisions'', JArr [JObj [(''decision'', JStr ''allow''), (''ruleId'', JStr ''must-allow'')],
        JObj [(''decision'', JStr ''allow''), (''ruleId'', JStr ''extra'')]]),
     (''outcomeDigest'', JArr [jint 1, jint 2, jint 3])]"

definition fixture_pkg :: "jsval list \<Rightarrow> (string \<times> jsval) list" where
  "fixture_pkg seal =
    [(''version'', JStr ''4''), (''bundleData'', JObj fixture_bundle),
     (''planHash'', JArr [jint 9, jint 9, jint 9]),
     (''outcomeDigest'', JArr [jint 1, jint 2, jint 3]),
     (''policyDecisionDigest'', JArr [jint 4, jint 5, jint 6]),
     (''inclusionProofs'', JArr [JObj [(''link'', JObj [(''contentHash'', JArr [jint 7, jint 7, jint 7])]),
        (''proof'', JArr [])]]),
     (''trustSnapshot'', JArr [JObj [(''profileId'', JStr ''p''), (''blockHeight'', jint 987)]]),
     (''pluginVersions'', JArr [JObj [(''pluginId'', JStr ''pkg.demo''), (''version'', JStr ''1.0.0''),
        (''implementationHash'', JStr ''abc'')]]),
     (''exportHash'', JArr seal)]"

definition ident_canon :: canon where
  "ident_canon = \<lparr>canon_hash = (\<lambda>v. Inr [v]),
                  canon_coerce32 = (\<lambda>v. Inr (case v of JArr xs \<Rightarrow> xs | _ \<Rightarrow> []))\<rparr>"

lemma fixture_genuine: "list_all json_data seal \<Longrightarrow> genuine (fixture_pkg seal)"
  by (simp add: genuine_def genuine_bundle_def fixture_pkg_def fixture_bundle_def first_obj_def
      obj_get_simps proto_member_def proto_methods_def is_byte_def)

lemma ident_canon_total: "canon_total ident_canon"
  by (simp add: canon_total_def ident_canon_def)

text \<open>C1: Each of the seven forgeries of the lab, applied to a genuine package, writes one new value
at the place its description names - the identity of the first approval, a byte of its plan
hash, a byte of the outcome digest, a byte of the content hash of the first inclusion proof, the
list of policy decisions without its first, the height of the first trust snapshot, the
implementation hash of the first plugin - and, beyond the recomputed seal, leaves everything
else of the package as it was.\<close>

theorem forgery_takes_effect:
  assumes "genuine kvs" and "canon_total cn" and "fid \<in> set forgery_ids"
  shows "\<exists>f q old p.
     apply_forgery (JObj kvs) fid (Some (make_reseal cn)) = Inr (q, f) \<and> f_id f = fid \<and>
     look_at (forged_place fid) (JObj kvs) = Some old \<and> forged_value fid old \<noteq> old \<and>
     p = put_at (forged_place fid) (forged_value fid old) (JObj kvs) \<and>
     (if fid = ''approver'' then q = p else \<exists>seal. q = put_at [Key ''exportHash''] (JArr seal) p)"
proof -
  obtain q f where a: "apply_forgery (JObj kvs) fid (Some (make_reseal cn)) = Inr (q, f)"
    using forgery_effect [OF assms] by blast
  have data: "json_data (JObj kvs)" using assms(1) by (rule genuineE)
  from apply_forgery_runs [OF data a] obtain p where f: "f \<in> set FORGERIES" "f_id f = fid" "f_mutate f (JObj kvs) = Inr p"
    and q: "fid = ''approver'' \<Longrightarrow> q = p" "fid \<noteq> ''approver'' \<Longrightarrow> make_reseal cn p = Inr q"
    by (auto split: if_splits)
  from mutate_writes [OF assms(1) f(1)] f obtain old where
    old: "look_at (forged_place fid) (JObj kvs) = Some old" "forged_value fid old \<noteq> old"
      "p = put_at (forged_place fid) (forged_value fid old) (JObj kvs)" by (auto simp: writes_at_def)
  have "is_obj p" using old(3) by (simp add: forged_place_def)
  then have "\<exists>seal. q = put_at [Key ''exportHash''] (JArr seal) p" if "fid \<noteq> ''approver''"
    using q(2) [OF that] by (auto simp: make_reseal_def rbind_eq_Inr is_obj_iff)
  then show ?thesis using a f(2) old q(1)
    by (intro exI [of _ f] exI [of _ q] exI [of _ old] exI [of _ p]) simp
qed

theorem forgery_takes_effect_witness:
  "\<exists>f kvs'. apply_forgery (JObj (fixture_pkg [])) ''chainhash'' (Some (make_reseal ident_canon)) = Inr (JObj kvs', f) \<and>
     obj_get kvs' ''inclusionProofs'' =
       JArr [JObj [(''link'', JObj [(''contentHash'', JArr [jint 248, jint 7, jint 7])]), (''proof'', JArr [])]] \<and>
     obj_get kvs' ''planHash'' = JArr [jint 9, jint 9, jint 9]"
proof -
  have c: "''chainhash'' \<in> set forgery_ids" by (simp add: forgery_ids_def)
  have g: "genuine (fixture_pkg [])" by (simp add: fixture_genuine)
  from forgery_takes_effect [OF g ident_canon_total c] show ?thesis
    by (auto simp: forged_place_def forged_value_def fixture_pkg_def obj_get_simps)
qed

theorem reseal_passes_outer_seal_witness:
  "\<exists>q f r. apply_forgery (JObj (fixture_pkg [])) ''outcome'' (Some (make_reseal ident_canon)) = Inr (q, f) \<and>
         read_fields ident_canon export_fields q = Inr r \<and> length r = 12 \<and>
         get_prop q ''exportHash'' = Inr (JArr [JObj r])"
proof -
  have g: "genuine (fixture_pkg [])" by (simp add: fixture_genuine)
  then have d: "json_data (JObj (fixture_pkg []))" by (rule genuineE)
  have "''outcome'' \<in> set forgery_ids" by (simp add: forgery_ids_def)
  from forgery_effect [OF g ident_canon_total this] obtain q f where
    a: "apply_forgery (JObj (fixture_pkg [])) ''outcome'' (Some (make_reseal ident_canon)) = Inr (q, f)" by blast
  with d have "\<exists>r h. read_fields ident_canon export_fields q = Inr r \<and> map fst r = map fst export_fields \<and>
      canon_hash ident_canon (JObj r) = Inr h \<and> get_prop q ''exportHash'' = Inr (JArr h)"
    by (intro reseal_passes_outer_seal [of "JObj (fixture_pkg [])" "''outcome''"]) simp_all
  then obtain r h where r: "read_fields ident_canon export_fields q = Inr r" "map fst r = map fst export_fields"
    "canon_hash ident_canon (JObj r) = Inr h" "get_prop q ''exportHash'' = Inr (JArr h)" by blast
  have "length (map fst r) = 12" unfolding r(2) by (simp add: export_fields_def)
  then show ?thesis using a r(1,3,4)
    by (intro exI [of _ q] exI [of _ f] exI [of _ r]) (simp add: ident_canon_def)
qed

definition fixture_preimage :: jsval where
  "fixture_preimage =
    JObj [(''version'', JStr ''4''), (''bundleData'', JObj fixture_bundle),
     (''planHash'', JArr [jint 9, jint 9, jint 9]), (''outcomeDigest'', JArr [jint 1, jint 2, jint 3]),
     (''trustSnapshot'', JArr [JObj [(''profileId'', JStr ''p''), (''blockHeight'', jint 987)]]),
     (''inclusionProofs'', JArr [JObj [(''link'', JObj [(''contentHash'', JArr [jint 7, jint 7, jint 7])]),
        (''proof'', JArr [])]]),
     (''anchorProof'', JNull), (''anchorTxHash'', JStr ''''), (''anchorBlockHeight'', jint 0),
     (''pluginVersions'', JArr [JObj [(''pluginId'', JStr ''pkg.demo''), (''version'', JStr ''1.0.0''),
        (''implementationHash'', JStr ''abc'')]]),
     (''policyDecisionDigest'', JArr [jint 4, jint 5, jint 6]), (''replayCapsule'', JNull)]"

lemma fixture_intermediate: "intermediate ident_canon (JObj (fixture_pkg seal)) = Inr fixture_preimage"
  by (simp add: intermediate_def fixture_pkg_def fixture_preimage_def arrayify_hash_def ident_canon_def
      obj_get_simps proto_member_def proto_methods_def)

lemma fixture_preimage_data: "json_data fixture_preimage"
  by (simp add: fixture_preimage_def fixture_bundle_def)

theorem outer_seal_catches_naive_witness:
  "\<exists>q f. sealed ident_canon (JObj (fixture_pkg [fixture_preimage])) \<and>
     apply_forgery (JObj (fixture_pkg [fixture_preimage])) ''approver'' None = Inr (q, f) \<and>
     \<not> sealed ident_canon q"
proof -
  let ?p = "fixture_pkg [fixture_preimage]"
  have g: "genuine ?p" by (simp add: fixture_genuine fixture_preimage_data)
  have s: "sealed ident_canon (JObj ?p)"
    using fixture_intermediate [of "[fixture_preimage]"]
    by (simp add: sealed_def) (simp add: ident_canon_def fixture_pkg_def obj_get_simps)
  have nc: "no_collision ident_canon p q" for p q by (simp add: no_collision_def ident_canon_def)
  have "''approver'' \<in> set forgery_ids" by (simp add: forgery_ids_def)
  from forgery_effect [OF g ident_canon_total this] obtain q f where
    "apply_forgery (JObj ?p) ''approver'' (Some (make_reseal ident_canon)) = Inr (q, f)" by blast
  then have a: "apply_forgery (JObj ?p) ''approver'' None = Inr (q, f)"
    by (auto simp: apply_forgery_def rbind_eq_Inr forgery_reseal split: option.splits dest!: find_forgery)
  from outer_seal_catches_naive [OF g s a nc] s a show ?thesis by blast
qed

theorem reseal_ignores_bundle_form_witness:
  "rbind (make_reseal ident_canon (with_text (fixture_pkg []) (JObj fixture_bundle))) (\<lambda>p. get_prop p ''exportHash'') =
   rbind (make_reseal ident_canon (with_inline (fixture_pkg []) (JObj fixture_bundle))) (\<lambda>p. get_prop p ''exportHash'')"
  by (rule reseal_ignores_bundle_form) (simp_all add: fixture_bundle_def)

theorem with_bundle_same_edit_witness:
  "with_bundle (with_inline (fixture_pkg []) (JObj [])) (\<lambda>bd. set_prop bd ''id'' JNull) =
     Inr (with_inline (fixture_pkg []) (JObj [(''id'', JNull)])) \<and>
   with_bundle (with_text (fixture_pkg []) (JObj [])) (\<lambda>bd. set_prop bd ''id'' JNull) =
     Inr (with_text (fixture_pkg []) (JObj [(''id'', JNull)]))"
  by (rule with_bundle_same_edit) simp_all

theorem apply_forgery_refuses_witness:
  "apply_forgery (JObj (fixture_pkg [])) ''nope'' None = Inl (Thrown ''unknown forgery nope'')"
  using apply_forgery_refuses [of "fixture_pkg []" "''nope''" None]
  by (simp add: fixture_genuine forgery_ids_def)

theorem capitalised_policy_not_forged_witness:
  "apply_forgery (JObj [(''bundleData'', JObj [(''PolicyDecisions'', JArr [JNull])])]) ''policy'' (Some Inr) =
   Inr (JObj [(''bundleData'', JObj [(''PolicyDecisions'', JArr [JNull])])], FORGERIES ! 4)"
  using capitalised_policy_not_forged [of "[(''bundleData'', JObj [(''PolicyDecisions'', JArr [JNull])])]"
      "[(''PolicyDecisions'', JArr [JNull])]" "[JNull]" Inr]
  by (simp add: obj_get_simps)

theorem flip_first_complements:
  assumes "bytes (JArr xs)"
  shows "\<exists>n. 0 \<le> n \<and> n < 256 \<and> hd xs = jint n \<and>
             flip_first (JArr xs) = Inr (JArr (jint (255 - n) # tl xs)) \<and>
             rbind (flip_first (JArr xs)) flip_first = Inr (JArr xs)"
proof -
  from assms obtain b bs where xs: "xs = b # bs" and "is_byte b" by (cases xs) auto
  then obtain n where n: "b = jint n" "0 \<le> n" "n < 256" by (blast elim: is_byteE)
  have "flip_byte (jint (255 - n)) = Inr (jint n)"
    using flip_byte_jint [of "255 - n"] n by simp
  then show ?thesis
    using xs n flip_byte_jint [OF n(2,3)] by (intro exI [of _ n]) simp
qed

theorem flip_first_complements_witness:
  "flip_first (JArr [jint 1, jint 2]) = Inr (JArr [jint 254, jint 2])"
proof -
  have "bytes (JArr [jint 1, jint 2])" by (simp add: is_byte_def)
  from flip_first_complements [OF this] show ?thesis by auto
qed

end
