(* ===== verification/Dom.thy ===== *)
theory Dom
  imports JsText
begin

text \<open>
  The part of the document the modules build: an element with its tag, class, text, attributes
  (a \<open>data-\<close> attribute is a \<open>dataset\<close> entry), the action its click listener runs and its
  children. \<open>el\<close> is the helper \<open>el(tag, cls, text)\<close> that \<open>playground.js\<close> and
  \<open>checkMatrix.js\<close> share, \<open>elt\<close> the same for a text that is a string.
\<close>

datatype 'h dom =
  El (d_tag: string) (d_cls: string) (d_text: string) (d_attrs: "(string \<times> string) list")
     (d_on: "'h option") (d_kids: "'h dom list")

definition elt :: "string \<Rightarrow> string \<Rightarrow> string \<Rightarrow> 'h dom" where
  "elt tag cls s = El tag cls s [] None []"

definition el :: "string \<Rightarrow> string \<Rightarrow> jsval \<Rightarrow> 'h dom res" where
  "el tag cls text = (if nullish text then Inr (elt tag cls '''')
                      else rbind (to_str text) (\<lambda>s. Inr (elt tag cls s)))"

definition put_attr :: "string \<Rightarrow> string \<Rightarrow> 'h dom \<Rightarrow> 'h dom" where
  "put_attr a v e = (case e of El t c x as h ks \<Rightarrow> El t c x (AList.update a v as) h ks)"

definition drop_attr :: "string \<Rightarrow> 'h dom \<Rightarrow> 'h dom" where
  "drop_attr a e = (case e of El t c x as h ks \<Rightarrow> El t c x (AList.delete a as) h ks)"

definition attr :: "'h dom \<Rightarrow> string \<Rightarrow> string option" where
  "attr e a = map_of (d_attrs e) a"

definition on_click :: "'h \<Rightarrow> 'h dom \<Rightarrow> 'h dom" where
  "on_click h e = (case e of El t c x as _ ks \<Rightarrow> El t c x as (Some h) ks)"

definition put_text :: "string \<Rightarrow> 'h dom \<Rightarrow> 'h dom" where
  "put_text s e = (case e of El t c x as h ks \<Rightarrow> El t c s as h ks)"

text \<open>The children appended one after another.\<close>

definition append_kids :: "'h dom \<Rightarrow> 'h dom list \<Rightarrow> 'h dom" where
  "append_kids e ks' = (case e of El t c x as h ks \<Rightarrow> El t c x as h (ks @ ks'))"

fun nodes :: "'h dom \<Rightarrow> 'h dom list" where
  "nodes (El t c x as h ks) = El t c x as h ks # concat (map nodes ks)"

text \<open>The actions a visitor can reach by clicking somewhere in a tree.\<close>

definition actions :: "'h dom \<Rightarrow> 'h list" where
  "actions e = concat (map (\<lambda>n. case d_on n of None \<Rightarrow> [] | Some h \<Rightarrow> [h]) (nodes e))"

definition having :: "string \<Rightarrow> 'h dom \<Rightarrow> 'h dom list" where
  "having cls e = filter (\<lambda>n. d_cls n = cls) (nodes e)"

lemma dom_sel_elt [simp]:
  "d_tag (elt t c x) = t" "d_cls (elt t c x) = c" "d_text (elt t c x) = x" "d_attrs (elt t c x) = []"
  "d_on (elt t c x) = None" "d_kids (elt t c x) = []"
  by (simp_all add: elt_def)

lemma dom_sel_put_attr [simp]:
  "d_tag (put_attr a v e) = d_tag e" "d_cls (put_attr a v e) = d_cls e" "d_text (put_attr a v e) = d_text e"
  "d_on (put_attr a v e) = d_on e" "d_kids (put_attr a v e) = d_kids e"
  by (cases e; simp add: put_attr_def)+

lemma dom_sel_on_click [simp]:
  "d_tag (on_click h e) = d_tag e" "d_cls (on_click h e) = d_cls e" "d_text (on_click h e) = d_text e"
  "d_on (on_click h e) = Some h" "d_kids (on_click h e) = d_kids e" "d_attrs (on_click h e) = d_attrs e"
  by (cases e; simp add: on_click_def)+

lemma dom_sel_append_kids [simp]:
  "d_tag (append_kids e ks) = d_tag e" "d_cls (append_kids e ks) = d_cls e" "d_text (append_kids e ks) = d_text e"
  "d_on (append_kids e ks) = d_on e" "d_kids (append_kids e ks) = d_kids e @ ks" "d_attrs (append_kids e ks) = d_attrs e"
  by (cases e; simp add: append_kids_def)+

lemma dom_sel_put_text [simp]:
  "d_tag (put_text s e) = d_tag e" "d_cls (put_text s e) = d_cls e" "d_text (put_text s e) = s"
  "d_on (put_text s e) = d_on e" "d_kids (put_text s e) = d_kids e" "d_attrs (put_text s e) = d_attrs e"
  by (cases e; simp add: put_text_def)+

interpretation dom_attrs: keyed_store attr put_attr
  by unfold_locales (auto simp: attr_def put_attr_def split: dom.splits)

lemma attr_put [simp]: "attr (put_attr a v e) b = (if b = a then Some v else attr e b)"
  by (rule dom_attrs.look_put)

lemma attr_elt [simp]: "attr (elt t c x) a = None"
  by (simp add: attr_def)

lemma attr_keep [simp]: "attr (append_kids e ks) a = attr e a" "attr (on_click h e) a = attr e a"
  "attr (put_text s e) a = attr e a"
  by (simp_all add: attr_def)

lemma nodes_unfold: "nodes e = e # concat (map nodes (d_kids e))"
  by (cases e) simp

lemma actions_unfold:
  "actions e = (case d_on e of None \<Rightarrow> [] | Some h \<Rightarrow> [h]) @ concat (map actions (d_kids e))"
proof -
  have "concat (map f (concat (map g xs))) = concat (map (\<lambda>x. concat (map f (g x))) xs)"
    for f :: "'h dom \<Rightarrow> 'h list" and g :: "'h dom \<Rightarrow> 'h dom list" and xs
    by (induction xs) simp_all
  then show ?thesis
    unfolding actions_def [abs_def] by (subst nodes_unfold) (simp del: map_concat)
qed

lemma having_unfold: "having c e = (if d_cls e = c then [e] else []) @ concat (map (having c) (d_kids e))"
  unfolding having_def [abs_def] by (subst nodes_unfold) (simp add: filter_concat comp_def)

lemma el_Inr: "el t c x = Inr e \<Longrightarrow> d_tag e = t \<and> d_cls e = c \<and> d_attrs e = [] \<and> d_kids e = [] \<and> d_on e = None"
  by (auto simp: el_def rbind_eq_Inr split: if_splits)

lemma el_str [simp]: "el t c (JStr s) = Inr (elt t c s)"
  by (simp add: el_def)

text \<open>Searching a tree by class.\<close>

lemma having_elt [simp]: "having c (elt t d x) = (if d = c then [elt t d x] else [])"
  by (subst having_unfold) simp

lemma having_put [simp]:
  "map d_text (having c (put_attr a v e)) = map d_text (having c e)"
  by (simp add: having_unfold [of c e] having_unfold [of c "put_attr a v e"])

lemma having_append: "d_cls e \<noteq> c \<Longrightarrow> d_kids e = [] \<Longrightarrow> having c (append_kids e ks) = concat (map (having c) ks)"
  by (subst having_unfold) simp

lemma el_having: "el t d v = Inr e \<Longrightarrow> d \<noteq> c \<Longrightarrow> having c e = []"
  using el_Inr [of t d v e] by (subst having_unfold) simp

definition opt_el :: "string \<Rightarrow> string \<Rightarrow> jsval \<Rightarrow> 'h dom list res" where
  "opt_el tag cls v = (if truthy v then rbind (el tag cls v) (\<lambda>e. Inr [e]) else Inr [])"

lemma opt_el_having: "opt_el t d v = Inr es \<Longrightarrow> d \<noteq> c \<Longrightarrow> concat (map (having c) es) = []"
  by (auto simp: opt_el_def rbind_eq_Inr el_having split: if_splits)

end
