(* ===== verification/CheckMatrix.thy ===== *)
theory CheckMatrix
  imports Dom
begin

text \<open>
  The verdict matrix of \<open>web/checkMatrix.js\<close>: the copy of the ten checks, the
  normalisation of indexed check names, the tree \<open>mountCheckMatrix\<close> builds from the
  verifier's result, and the staggered reveal of the rows with its timers. A timer is the
  index of the row it turns on; the browser may run pending timers in any order.
\<close>

section \<open>Names and copy\<close>

definition TITLES :: "(string \<times> jsval) list" where
  "TITLES = [
     (''version'', JStr ''Format understood''),
     (''export_hash'', JStr ''Nothing altered after export''),
     (''bundle_data'', JStr ''Evidence bundle well-formed''),
     (''plan_hash'', JStr ''Approval bound to the exact plan''),
     (''outcome_digest'', JStr ''Outcome matches what was committed''),
     (''inclusion_proofs'', JStr ''Every step is in the tamper-evident chain''),
     (''anchor_proof'', JStr ''On-ledger anchor matches this bundle''),
     (''trust_snapshot'', JStr ''Trust profile captured at a real block''),
     (''policy_decision_digest'', JStr ''Policy decisions exactly as recorded''),
     (''plugin_versions'', JStr ''Every plugin identified by id, version, code hash'')]"

definition EXPLAIN :: "(string \<times> jsval) list" where
  "EXPLAIN = [
     (''version'', JStr ''The proof uses a format this verifier understands.''),
     (''export_hash'', JStr ''Nothing in the file was altered after it was exported.''),
     (''bundle_data'', JStr ''The evidence bundle is structurally valid.''),
     (''plan_hash'', JStr (''The approval is bound to the exact plan that ran '' @ u_dash @ '' not a substituted one.'')),
     (''outcome_digest'', JStr ''The recorded outcome matches what the bundle commits to.''),
     (''inclusion_proofs'', JStr ''Every step is provably part of one tamper-evident chain.''),
     (''anchor_proof'', JStr ''If anchored, the on-ledger anchor matches this bundle exactly.''),
     (''trust_snapshot'', JStr ''The trust profile in force was captured at a real block height.''),
     (''policy_decision_digest'', JStr (''The policy decisions are exactly those recorded '' @ u_dash @ '' none added or removed.'')),
     (''plugin_versions'', JStr ''Every plugin that touched this is identified by id, version, and code hash.'')]"

text \<open>
  \<open>baseName\<close> on a value of any type: strings and arrays have \<open>indexOf\<close> and
  \<open>slice\<close>, every other truthy value throws.
\<close>

definition base_root :: "string \<Rightarrow> string" where
  "base_root r = (if r = ''inclusion_proof'' \<or> r = ''inclusion_proofs'' then ''inclusion_proofs''
     else if r = ''trust_snapshot'' then ''trust_snapshot''
     else if r = ''plugin_versions'' then ''plugin_versions'' else r)"

fun base_name :: "jsval \<Rightarrow> jsval res" where
  "base_name (JStr s) =
     Inr (JStr (if CHR ''['' \<in> set s then base_root (takeWhile (\<lambda>c. c \<noteq> CHR ''['') s) else s))"
| "base_name (JArr xs) =
     Inr (JArr (if JStr ''['' \<in> set xs then takeWhile (\<lambda>x. x \<noteq> JStr ''['') xs else xs))"
| "base_name _ = Inl TypeErr"

section \<open>Rows\<close>

definition bool_str :: "bool \<Rightarrow> string" where
  "bool_str b = (if b then ''true'' else ''false'')"

definition matrix_row :: "nat \<Rightarrow> jsval \<Rightarrow> 'h dom res" where
  "matrix_row i c =
     rbind (get_prop c ''name'') (\<lambda>name. rbind (get_prop c ''passed'') (\<lambda>passed.
     rbind (get_prop c ''error'') (\<lambda>err. rbind (get_prop c ''detail'') (\<lambda>det.
     rbind (base_name (js_or name (JStr ''''))) (\<lambda>base.
     rbind (to_str base) (\<lambda>b.
     let li0 = put_attr ''data-pass'' (bool_str (truthy passed)) (elt ''li'' ''pg-matrix-row'' '''');
         li = (if truthy passed then li0 else put_attr ''data-fail'' ''1'' li0) in
     rbind (el ''span'' ''pg-matrix-name'' (js_or (js_or (obj_get TITLES b) name) (JStr ''check''))) (\<lambda>title.
     rbind (opt_el ''span'' ''pg-matrix-explain'' (obj_get EXPLAIN b)) (\<lambda>explain.
     rbind (opt_el ''code'' ''pg-matrix-detail'' (js_or err det)) (\<lambda>detail.
     Inr (append_kids li [
       elt ''span'' ''pg-matrix-rowglyph'' (if truthy passed then u_check else u_cross),
       elt ''span'' ''pg-matrix-idx'' (nat_str (i + 1)),
       append_kids (elt ''div'' ''pg-matrix-body'' '''') (title # explain @ detail)]))))))))))"

fun matrix_rows :: "nat \<Rightarrow> jsval list \<Rightarrow> 'h dom list res" where
  "matrix_rows i [] = Inr []"
| "matrix_rows i (c # cs) = rbind (matrix_row i c) (\<lambda>r. rbind (matrix_rows (i + 1) cs) (\<lambda>rs. Inr (r # rs)))"

section \<open>The matrix\<close>

record 'h matrix =
  mx_state :: string
  mx_label :: string
  mx_head :: "'h dom"
  mx_rows :: "'h dom list"
  mx_foot :: "'h dom list"
  mx_instant :: bool
  mx_timers :: "nat list"
  mx_scroll :: "nat option"

definition checks_of :: "jsval \<Rightarrow> jsval list res" where
  "checks_of result = (if truthy result
     then rbind (get_prop result ''checks'') (\<lambda>cs. Inr (case cs of JArr xs \<Rightarrow> xs | _ \<Rightarrow> []))
     else Inr [])"

definition all_pass :: "jsval \<Rightarrow> bool res" where
  "all_pass result = (if truthy result then rbind (get_prop result ''passed'') (\<lambda>p. Inr (truthy p)) else Inr False)"

definition check_passed :: "jsval \<Rightarrow> bool res" where
  "check_passed c = (if truthy c then rbind (get_prop c ''passed'') (\<lambda>p. Inr (truthy p)) else Inr False)"

definition count_text :: "nat \<Rightarrow> nat \<Rightarrow> string" where
  "count_text p n = nat_str p @ '' / '' @ nat_str n @ '' cryptographic check'' @ (if n = 1 then '''' else ''s'')
     @ '' reconstructed locally''"

definition matrix_head :: "bool \<Rightarrow> jsval \<Rightarrow> nat \<Rightarrow> nat \<Rightarrow> 'h dom res" where
  "matrix_head ok label p n =
     rbind (opt_el ''span'' ''pg-matrix-assurance'' label) (\<lambda>chip.
     Inr (append_kids (elt ''header'' ''pg-matrix-head'' '''') [
       elt ''p'' ''pg-eyebrow'' (''VERIFIED IN YOUR BROWSER '' @ u_mid @ '' THIS SERVER WAS NOT TRUSTED''),
       append_kids (elt ''div'' ''pg-matrix-verdict'' '''')
         ([elt ''span'' ''pg-matrix-glyph'' (if ok then u_check else u_cross),
           elt ''span'' ''pg-matrix-title'' (if ok then ''Proof holds'' else ''Proof did not verify'')] @ chip),
       elt ''p'' ''pg-matrix-count'' (count_text p n)]))"

text \<open>\<open>Number(opts.stagger) || 0\<close>, compared with zero.\<close>

fun num_le_zero :: "jsnum \<Rightarrow> bool" where
  "num_le_zero (Fin q) = (q \<le> 0)"
| "num_le_zero PosInf = False"
| "num_le_zero NegInf = True"
| "num_le_zero NaN = True"

definition reveal :: "'h matrix \<Rightarrow> 'h matrix" where
  "reveal m = (if mx_instant m then m\<lparr>mx_rows := map (put_attr ''data-revealed'' ''1'') (mx_rows m)\<rparr>
     else m\<lparr>mx_rows := map (put_attr ''data-revealed'' ''0'') (mx_rows m),
            mx_timers := mx_timers m @ [0..<length (mx_rows m)]\<rparr>)"

definition row_timer :: "nat \<Rightarrow> 'h matrix \<Rightarrow> 'h matrix" where
  "row_timer i m = m\<lparr>mx_rows := (mx_rows m)[i := put_attr ''data-revealed'' ''1'' (mx_rows m ! i)],
                     mx_timers := remove1 i (mx_timers m)\<rparr>"

definition first_fail :: "'h dom list \<Rightarrow> nat option" where
  "first_fail rs = (case filter (\<lambda>i. attr (rs ! i) ''data-fail'' \<noteq> None) [0..<length rs] of [] \<Rightarrow> None | i # _ \<Rightarrow> Some i)"

definition mount_check_matrix :: "jsval \<Rightarrow> jsval \<Rightarrow> 'h matrix res" where
  "mount_check_matrix result opts =
     rbind (get_prop opts ''stagger'') (\<lambda>st. rbind (to_number st) (\<lambda>stagger.
     rbind (get_prop opts ''assuranceLabel'') (\<lambda>lab.
     rbind (checks_of result) (\<lambda>checks.
     rbind (rmapM check_passed checks) (\<lambda>flags.
     rbind (all_pass result) (\<lambda>ok.
     rbind (matrix_head ok (js_or lab (JStr '''')) (length (filter id flags)) (length checks)) (\<lambda>head.
     rbind (matrix_rows 0 checks) (\<lambda>rows.
     Inr (reveal \<lparr>
       mx_state = (if ok then ''pass'' else ''fail''),
       mx_label = (if ok then ''Proof holds'' else ''Proof did not verify''),
       mx_head = head, mx_rows = rows,
       mx_foot = (if ok then [] else [elt ''div'' ''pg-matrix-failnote'' (''Here'' @ [CHR 0x27] @ ''s exactly what didn'' @ [CHR 0x27] @ ''t add up.'')]),
       mx_instant = num_le_zero stagger, mx_timers = [],
       mx_scroll = first_fail rows\<rparr>)))))))))"

definition matrix_dom :: "'h matrix \<Rightarrow> 'h dom" where
  "matrix_dom m = append_kids
     (put_attr ''aria-label'' (mx_label m) (put_attr ''role'' ''group''
       (put_attr ''data-state'' (mx_state m) (elt ''section'' ''pg-matrix'' ''''))))
     ([mx_head m, append_kids (elt ''ol'' ''pg-matrix-list'' '''') (mx_rows m)] @ mx_foot m)"

section \<open>What the rows show\<close>

text \<open>A row that presents check number \<open>i\<close> with this outcome.\<close>

definition presents :: "nat \<Rightarrow> bool \<Rightarrow> 'h dom \<Rightarrow> bool" where
  "presents i ok r \<longleftrightarrow> attr r ''data-pass'' = Some (bool_str ok) \<and> (attr r ''data-fail'' \<noteq> None \<longleftrightarrow> \<not> ok) \<and>
     (\<exists>body. d_kids r = [elt ''span'' ''pg-matrix-rowglyph'' (if ok then u_check else u_cross),
                         elt ''span'' ''pg-matrix-idx'' (nat_str (i + 1)), body])"

lemma matrix_row_presents:
  assumes "matrix_row i c = Inr r"
  shows "\<exists>pv. get_prop c ''passed'' = Inr pv \<and> presents i (truthy pv) r"
proof -
  obtain pv title explain detail where pv: "get_prop c ''passed'' = Inr pv"
    and r: "r = append_kids (if truthy pv then put_attr ''data-pass'' (bool_str (truthy pv)) (elt ''li'' ''pg-matrix-row'' '''')
        else put_attr ''data-fail'' ''1'' (put_attr ''data-pass'' (bool_str (truthy pv)) (elt ''li'' ''pg-matrix-row'' ''''))) [
       elt ''span'' ''pg-matrix-rowglyph'' (if truthy pv then u_check else u_cross),
       elt ''span'' ''pg-matrix-idx'' (nat_str (i + 1)),
       append_kids (elt ''div'' ''pg-matrix-body'' '''') (title # explain @ detail)]"
    using assms unfolding matrix_row_def rbind_eq_Inr Let_def by blast
  show ?thesis
    by (rule exI [of _ pv]) (simp add: pv r presents_def)
qed

lemma matrix_rows_presents:
  assumes "matrix_rows k cs = Inr rs"
  shows "length rs = length cs \<and>
    (\<forall>i < length cs. \<exists>pv. get_prop (cs ! i) ''passed'' = Inr pv \<and> presents (k + i) (truthy pv) (rs ! i))"
  using assms
proof (induction cs arbitrary: k rs)
  case (Cons c cs)
  then obtain r rs' where r: "matrix_row k c = Inr r" "matrix_rows (k + 1) cs = Inr rs'" "rs = r # rs'"
    by (auto simp: rbind_eq_Inr)
  from Cons.IH [OF r(2)] matrix_row_presents [OF r(1)] show ?case
    by (auto simp: r(3) nth_Cons less_Suc_eq_0_disj split: nat.splits)
qed simp

lemma presents_put [simp]: "presents i ok (put_attr ''data-revealed'' v r) = presents i ok r"
  by (simp add: presents_def)

lemma reveal_rows: "length (mx_rows (reveal m)) = length (mx_rows m)"
  "i < length (mx_rows m) \<Longrightarrow> \<exists>v. mx_rows (reveal m) ! i = put_attr ''data-revealed'' v (mx_rows m ! i)"
  by (auto simp: reveal_def)

lemma reveal_keeps [simp]: "mx_state (reveal m) = mx_state m" "mx_label (reveal m) = mx_label m"
  "mx_head (reveal m) = mx_head m" "mx_foot (reveal m) = mx_foot m" "mx_instant (reveal m) = mx_instant m"
  "mx_scroll (reveal m) = mx_scroll m"
  by (simp_all add: reveal_def)

lemma mount_matrixD:
  assumes "mount_check_matrix result opts = Inr (m :: 'a matrix)"
  shows "\<exists>cs flags ok lab head rows. checks_of result = Inr cs \<and> rmapM check_passed cs = Inr flags \<and>
    all_pass result = Inr ok \<and> matrix_head ok lab (length (filter id flags)) (length cs) = Inr head \<and>
    matrix_rows 0 cs = Inr rows \<and> mx_head m = head \<and>
    mx_state m = (if ok then ''pass'' else ''fail'') \<and> (mx_foot m = [] \<longleftrightarrow> ok) \<and>
    length (mx_rows m) = length rows \<and>
    (\<forall>i < length rows. \<exists>v. mx_rows m ! i = put_attr ''data-revealed'' v (rows ! i)) \<and>
    mx_scroll m = first_fail rows"
proof -
  obtain st stagger lab cs flags ok head rows where *:
    "checks_of result = Inr cs" "rmapM check_passed cs = Inr flags" "all_pass result = Inr ok"
    "matrix_head ok (js_or lab (JStr '''')) (length (filter id flags)) (length cs) = Inr head"
    "matrix_rows 0 cs = Inr rows"
    "m = reveal (\<lparr>
       mx_state = (if ok then ''pass'' else ''fail''),
       mx_label = (if ok then ''Proof holds'' else ''Proof did not verify''),
       mx_head = head, mx_rows = rows,
       mx_foot = (if ok then [] else [elt ''div'' ''pg-matrix-failnote'' (''Here'' @ [CHR 0x27] @ ''s exactly what didn'' @ [CHR 0x27] @ ''t add up.'')]),
       mx_instant = num_le_zero stagger, mx_timers = [],
       mx_scroll = first_fail rows\<rparr> :: 'a matrix)" (is "_ = reveal ?m")
    using assms unfolding mount_check_matrix_def rbind_eq_Inr by blast
  show ?thesis
    by (rule exI [of _ cs], rule exI [of _ flags], rule exI [of _ ok], rule exI [of _ "js_or lab (JStr '''')"],
        rule exI [of _ head], rule exI [of _ rows])
      (use *(1-5) reveal_rows(1) [of ?m] reveal_rows(2) [of _ ?m] in \<open>simp add: *(6) del: split_paired_Ex\<close>)
qed

lemma flags_of_rows:
  assumes "rmapM check_passed cs = Inr flags" and "matrix_rows k cs = Inr rows"
  shows "filter id flags = map (\<lambda>_. True) (filter (\<lambda>r. attr r ''data-pass'' = Some ''true'') rows)"
  using assms
proof (induction cs arbitrary: k flags rows)
  case (Cons c cs)
  then obtain r rs' f fl where r: "matrix_row k c = Inr r" "matrix_rows (k + 1) cs = Inr rs'" "rows = r # rs'"
    "check_passed c = Inr f" "rmapM check_passed cs = Inr fl" "flags = f # fl"
    by (auto simp: rbind_eq_Inr)
  obtain pv where pv: "get_prop c ''passed'' = Inr pv" "presents k (truthy pv) r"
    using matrix_row_presents [OF r(1)] by blast
  obtain nm where nm: "get_prop c ''name'' = Inr nm" "base_name (js_or nm (JStr '''')) \<noteq> Inl TypeErr"
    using r(1) by (auto simp: matrix_row_def rbind_eq_Inr)
  have "f = truthy pv"
    using r(4) pv(1) by (cases c) (auto simp: check_passed_def proto_member_def proto_methods_def split: if_splits)
  with Cons.IH [OF r(5,2)] pv(2) show ?case by (auto simp: r(3,6) presents_def bool_str_def)
qed simp

text \<open>C7: Every check of the result gets one row in order, numbered from one, whose glyph and flags
say whether that check passed.\<close>

theorem matrix_shows_every_check:
  assumes "mount_check_matrix result opts = Inr m" and "checks_of result = Inr cs"
  shows "length (mx_rows m) = length cs \<and>
    (\<forall>i < length cs. \<exists>pv. get_prop (cs ! i) ''passed'' = Inr pv \<and> presents i (truthy pv) (mx_rows m ! i))"
proof -
  obtain rows where r: "matrix_rows 0 cs = Inr rows" "length (mx_rows m) = length rows"
    "\<forall>i < length rows. \<exists>v. mx_rows m ! i = put_attr ''data-revealed'' v (rows ! i)"
    using mount_matrixD [OF assms(1)] assms(2) by auto
  from matrix_rows_presents [OF r(1)] r(2,3) show ?thesis by fastforce
qed

lemma mount_matrix_frame:
  assumes "mount_check_matrix result opts = Inr m" and "all_pass result = Inr ok"
  shows "mx_label m = (if ok then ''Proof holds'' else ''Proof did not verify'') \<and>
         map d_cls (mx_foot m) = (if ok then [] else [''pg-matrix-failnote''])"
  using assms by (auto simp: mount_check_matrix_def rbind_eq_Inr reveal_def)

lemma matrix_head_texts:
  assumes "matrix_head ok lab p n = Inr head"
  shows "map d_text (having ''pg-matrix-glyph'' head) = [if ok then u_check else u_cross] \<and>
         map d_text (having ''pg-matrix-title'' head) = [if ok then ''Proof holds'' else ''Proof did not verify''] \<and>
         map d_text (having ''pg-matrix-count'' head) = [count_text p n]"
proof -
  obtain chip where chip: "opt_el ''span'' ''pg-matrix-assurance'' lab = Inr chip"
    and head: "head = append_kids (elt ''header'' ''pg-matrix-head'' '''') [
       elt ''p'' ''pg-eyebrow'' (''VERIFIED IN YOUR BROWSER '' @ u_mid @ '' THIS SERVER WAS NOT TRUSTED''),
       append_kids (elt ''div'' ''pg-matrix-verdict'' '''')
         ([elt ''span'' ''pg-matrix-glyph'' (if ok then u_check else u_cross),
           elt ''span'' ''pg-matrix-title'' (if ok then ''Proof holds'' else ''Proof did not verify'')] @ chip),
       elt ''p'' ''pg-matrix-count'' (count_text p n)]"
    using assms unfolding matrix_head_def rbind_eq_Inr by blast
  have "concat (map (having ''pg-matrix-glyph'') chip) = []" "concat (map (having ''pg-matrix-title'') chip) = []"
    "concat (map (having ''pg-matrix-count'') chip) = []"
    by (rule opt_el_having [OF chip], simp)+
  then show ?thesis unfolding head by (simp add: having_append)
qed

lemma data_pass_rows:
  assumes "length rs = length rows" and "\<forall>i < length rows. \<exists>v. rs ! i = put_attr ''data-revealed'' v (rows ! i)"
  shows "length (filter (\<lambda>r. attr r ''data-pass'' = x) rs) = length (filter (\<lambda>r. attr r ''data-pass'' = x) rows)"
proof -
  have "map (\<lambda>r. attr r ''data-pass'') rs = map (\<lambda>r. attr r ''data-pass'') rows"
    using assms by (intro nth_equalityI) auto
  then have "length (filter (\<lambda>a. a = x) (map (\<lambda>r. attr r ''data-pass'') rs)) =
             length (filter (\<lambda>a. a = x) (map (\<lambda>r. attr r ''data-pass'') rows))" by simp
  then show ?thesis by (simp add: filter_map comp_def)
qed

text \<open>C6: The headline, the label, the glyph, the failure note and the data-state of the matrix follow
the result flag alone, and the count line counts exactly the rows shown as passed.\<close>

theorem matrix_verdict:
  assumes "mount_check_matrix result opts = Inr m" and "all_pass result = Inr ok"
  shows "attr (matrix_dom m) ''data-state'' = Some (if ok then ''pass'' else ''fail'') \<and>
    attr (matrix_dom m) ''aria-label'' = Some (if ok then ''Proof holds'' else ''Proof did not verify'') \<and>
    map d_text (having ''pg-matrix-title'' (mx_head m)) = [if ok then ''Proof holds'' else ''Proof did not verify''] \<and>
    map d_cls (mx_foot m) = (if ok then [] else [''pg-matrix-failnote'']) \<and>
    map d_text (having ''pg-matrix-glyph'' (mx_head m)) = [if ok then u_check else u_cross] \<and>
    map d_text (having ''pg-matrix-count'' (mx_head m)) =
      [count_text (length (filter (\<lambda>r. attr r ''data-pass'' = Some ''true'') (mx_rows m))) (length (mx_rows m))]"
proof -
  from mount_matrixD [OF assms(1)] assms(2) obtain cs flags lab rows where r: "rmapM check_passed cs = Inr flags"
    "matrix_head ok lab (length (filter id flags)) (length cs) = Inr (mx_head m)" "matrix_rows 0 cs = Inr rows"
    and st: "mx_state m = (if ok then ''pass'' else ''fail'')" "mx_foot m = [] \<longleftrightarrow> ok"
    and len: "length (mx_rows m) = length rows"
    and nth: "\<forall>i < length rows. \<exists>v. mx_rows m ! i = put_attr ''data-revealed'' v (rows ! i)"
    by (elim exE conjE) simp
  have "length (filter (\<lambda>r. attr r ''data-pass'' = Some ''true'') (mx_rows m)) = length (filter id flags)"
    by (simp only: data_pass_rows [OF len nth] flags_of_rows [OF r(1,3)] length_map)
  moreover have "length cs = length (mx_rows m)" using matrix_rows_presents [OF r(3)] len by simp
  ultimately show ?thesis
    using matrix_head_texts [OF r(2)] st mount_matrix_frame [OF assms] by (simp add: matrix_dom_def)
qed

lemma matrix_row_reason:
  assumes "matrix_row i c = Inr r" and "get_prop c ''error'' = Inr e" and "get_prop c ''detail'' = Inr d"
    and "js_or e d = JStr msg" and "msg \<noteq> ''''"
  shows "map d_text (having ''pg-matrix-detail'' r) = [msg]"
proof -
  obtain pv nm b title explain detail e' d' where
    ed: "get_prop c ''error'' = Inr e'" "get_prop c ''detail'' = Inr d'"
    and title: "el ''span'' ''pg-matrix-name'' (js_or (js_or (obj_get TITLES b) nm) (JStr ''check'')) = Inr title"
    and explain: "opt_el ''span'' ''pg-matrix-explain'' (obj_get EXPLAIN b) = Inr explain"
    and detail: "opt_el ''code'' ''pg-matrix-detail'' (js_or e' d') = Inr detail"
    and r: "r = append_kids (if truthy pv then put_attr ''data-pass'' (bool_str (truthy pv)) (elt ''li'' ''pg-matrix-row'' '''')
        else put_attr ''data-fail'' ''1'' (put_attr ''data-pass'' (bool_str (truthy pv)) (elt ''li'' ''pg-matrix-row'' ''''))) [
       elt ''span'' ''pg-matrix-rowglyph'' (if truthy pv then u_check else u_cross),
       elt ''span'' ''pg-matrix-idx'' (nat_str (i + 1)),
       append_kids (elt ''div'' ''pg-matrix-body'' '''') (title # explain @ detail)]"
    using assms(1) unfolding matrix_row_def rbind_eq_Inr Let_def by blast
  have "having ''pg-matrix-detail'' title = []" by (rule el_having [OF title]) simp
  moreover have "concat (map (having ''pg-matrix-detail'') explain) = []" by (rule opt_el_having [OF explain]) simp
  moreover have "detail = [elt ''code'' ''pg-matrix-detail'' msg]" using detail ed assms(2-5) by (simp add: opt_el_def del: truthy_js_or)
  ultimately show ?thesis unfolding r by (cases "truthy pv") (simp_all add: having_append)
qed

lemma matrix_rows_nth: "matrix_rows k cs = Inr rs \<Longrightarrow> i < length cs \<Longrightarrow> matrix_row (k + i) (cs ! i) = Inr (rs ! i)"
proof (induction cs arbitrary: k rs i)
  case (Cons c cs)
  then obtain r rs' where r: "matrix_row k c = Inr r" "matrix_rows (k + 1) cs = Inr rs'" "rs = r # rs'"
    by (auto simp: rbind_eq_Inr)
  from Cons.IH [OF r(2), of "i - 1"] Cons.prems(2) r show ?case by (cases i) simp_all
qed simp

lemma mount_matrix_rows:
  assumes "mount_check_matrix result opts = Inr m" and "checks_of result = Inr cs"
  shows "\<exists>rows. matrix_rows 0 cs = Inr rows \<and> length (mx_rows m) = length rows \<and>
    (\<forall>i < length rows. \<exists>v. mx_rows m ! i = put_attr ''data-revealed'' v (rows ! i))"
  using mount_matrixD [OF assms(1)] assms(2) by auto

section \<open>What a shown matrix tells\<close>

text \<open>The matrix has the state of the result and one row per check, each with the check's outcome.\<close>

definition matrix_tells :: "jsval \<Rightarrow> 'h matrix \<Rightarrow> bool" where
  "matrix_tells result m \<longleftrightarrow> (\<exists>ok cs. all_pass result = Inr ok \<and> mx_state m = (if ok then ''pass'' else ''fail'') \<and>
     checks_of result = Inr cs \<and> length (mx_rows m) = length cs \<and>
     (\<forall>i < length cs. \<exists>pv. get_prop (cs ! i) ''passed'' = Inr pv \<and> presents i (truthy pv) (mx_rows m ! i)))"

lemma mount_tells: "mount_check_matrix result opts = Inr m \<Longrightarrow> matrix_tells result m"
proof -
  assume "mount_check_matrix result opts = Inr m"
  from mount_matrixD [OF this] obtain cs ok rows where r: "checks_of result = Inr cs" "all_pass result = Inr ok"
    "matrix_rows 0 cs = Inr rows" "mx_state m = (if ok then ''pass'' else ''fail'')" "length (mx_rows m) = length rows"
    "\<forall>i < length rows. \<exists>v. mx_rows m ! i = put_attr ''data-revealed'' v (rows ! i)"
    by (elim exE conjE) simp
  note rp = matrix_rows_presents [OF r(3)]
  have "\<exists>pv. get_prop (cs ! i) ''passed'' = Inr pv \<and> presents i (truthy pv) (mx_rows m ! i)" if i: "i < length cs" for i
  proof -
    from rp i obtain pv where pv: "get_prop (cs ! i) ''passed'' = Inr pv" "presents i (truthy pv) (rows ! i)" by auto
    moreover from r(6) rp i obtain v where "mx_rows m ! i = put_attr ''data-revealed'' v (rows ! i)" by auto
    ultimately show ?thesis by simp
  qed
  moreover have "length (mx_rows m) = length cs" using rp r(5) by simp
  ultimately have "length (mx_rows m) = length cs \<and>
    (\<forall>i < length cs. \<exists>pv. get_prop (cs ! i) ''passed'' = Inr pv \<and> presents i (truthy pv) (mx_rows m ! i))" by blast
  with r(1,2,4) show ?thesis unfolding matrix_tells_def by blast
qed

lemma matrix_tells_cong:
  assumes "matrix_tells result m" and "mx_state m' = mx_state m" and "length (mx_rows m') = length (mx_rows m)"
    and same: "\<And>i ok. i < length (mx_rows m) \<Longrightarrow> presents i ok (mx_rows m' ! i) = presents i ok (mx_rows m ! i)"
  shows "matrix_tells result m'"
proof -
  obtain ok cs where "all_pass result = Inr ok" "mx_state m = (if ok then ''pass'' else ''fail'')"
    "checks_of result = Inr cs" "length (mx_rows m) = length cs"
    "\<forall>i < length cs. \<exists>pv. get_prop (cs ! i) ''passed'' = Inr pv \<and> presents i (truthy pv) (mx_rows m ! i)"
    using assms(1) unfolding matrix_tells_def by blast
  then show ?thesis
    unfolding matrix_tells_def by (intro exI [of _ ok] exI [of _ cs]) (simp add: assms(2,3) same)
qed

lemma reveal_tells: "matrix_tells result m \<Longrightarrow> matrix_tells result (reveal m)"
  by (erule matrix_tells_cong) (simp_all add: reveal_def)

lemma presents_update: "j < length xs \<Longrightarrow>
    presents j ok (xs[i := put_attr ''data-revealed'' v (xs ! i)] ! j) = presents j ok (xs ! j)"
  by (cases "i = j") simp_all

lemma row_timer_tells: "matrix_tells result m \<Longrightarrow> matrix_tells result (row_timer i m)"
  by (erule matrix_tells_cong) (simp_all add: row_timer_def presents_update)

section \<open>Reasons\<close>

theorem matrix_shows_reason:
  assumes "mount_check_matrix result opts = Inr m" and "checks_of result = Inr cs" and "i < length cs"
    and "get_prop (cs ! i) ''error'' = Inr e" and "get_prop (cs ! i) ''detail'' = Inr d"
    and "js_or e d = JStr msg" and "msg \<noteq> ''''"
  shows "map d_text (having ''pg-matrix-detail'' (mx_rows m ! i)) = [msg]"
proof -
  obtain rows where r: "matrix_rows 0 cs = Inr rows" "length (mx_rows m) = length rows"
    "\<forall>i < length rows. \<exists>v. mx_rows m ! i = put_attr ''data-revealed'' v (rows ! i)"
    using mount_matrix_rows [OF assms(1,2)] by blast
  have "length rows = length cs" using matrix_rows_presents [OF r(1)] by simp
  then obtain v where v: "mx_rows m ! i = put_attr ''data-revealed'' v (rows ! i)" using r(3) assms(3) by auto
  from matrix_row_reason [OF matrix_rows_nth [OF r(1) assms(3)] assms(4-7)] show ?thesis
    unfolding v by simp
qed

theorem null_check_breaks_matrix:
  assumes "checks_of result = Inr cs" and "JNull \<in> set cs"
  shows "check_passed JNull = Inr False \<and> (\<forall>m :: 'h matrix. mount_check_matrix result opts \<noteq> Inr m)"
proof -
  have "mount_check_matrix result opts \<noteq> Inr m" for m :: "'h matrix"
  proof
    assume "mount_check_matrix result opts = Inr m"
    from mount_matrix_rows [OF this assms(1)] obtain rows :: "'h dom list" where r: "matrix_rows 0 cs = Inr rows" by blast
    obtain i where "i < length cs" "cs ! i = JNull" using assms(2) by (auto simp: in_set_conv_nth)
    with matrix_rows_presents [OF r] show False by auto
  qed
  then show ?thesis by (simp add: check_passed_def)
qed

text \<open>Every name the verifier reports has a title: the ten names, and an indexed entry of a collection.\<close>

definition titled :: "string \<Rightarrow> bool" where
  "titled name = (case base_name (JStr name) of
     Inr (JStr b) \<Rightarrow> map_of TITLES b \<noteq> None \<and> map_of EXPLAIN b \<noteq> None | _ \<Rightarrow> False)"

definition collections :: "string list" where
  "collections = [''inclusion_proof'', ''inclusion_proofs'', ''trust_snapshot'', ''plugin_versions'']"

theorem reported_names_titled:
  "list_all titled (map fst TITLES) \<and> (\<forall>k \<in> set collections. \<forall>i. titled (k @ CHR ''['' # i))"
  by (simp add: titled_def TITLES_def EXPLAIN_def collections_def base_root_def)

theorem reported_names_titled_witness: "titled ''inclusion_proof[3]''"
  using reported_names_titled by (auto simp: collections_def dest: spec [of _ "''3]''"])

section \<open>The reveal\<close>

inductive matrix_step :: "'h matrix \<Rightarrow> 'h matrix \<Rightarrow> bool" where
  replay: "matrix_step m (reveal m)"
| fire: "i \<in> set (mx_timers m) \<Longrightarrow> matrix_step m (row_timer i m)"

definition reveal_inv :: "'h matrix \<Rightarrow> bool" where
  "reveal_inv m \<longleftrightarrow> (\<forall>i \<in> set (mx_timers m). i < length (mx_rows m)) \<and>
     (\<forall>i < length (mx_rows m). attr (mx_rows m ! i) ''data-revealed'' = Some ''1'' \<or> i \<in> set (mx_timers m))"

lemma reveal_inv_reveal: "(\<forall>i \<in> set (mx_timers m). i < length (mx_rows m)) \<Longrightarrow> reveal_inv (reveal m)"
  by (auto simp: reveal_inv_def reveal_def)

lemma in_set_remove1_or: "j \<in> set xs \<Longrightarrow> j = i \<or> j \<in> set (remove1 i xs)"
  by (cases "j = i") simp_all

lemma reveal_inv_timer: "reveal_inv m \<Longrightarrow> i \<in> set (mx_timers m) \<Longrightarrow> reveal_inv (row_timer i m)"
  by (auto simp: reveal_inv_def row_timer_def nth_list_update dest: in_set_remove1_or notin_set_remove1 set_remove1_subset [THEN subsetD])

lemma matrix_step_inv: "matrix_step m m' \<Longrightarrow> reveal_inv m \<Longrightarrow> reveal_inv m'"
proof (induction rule: matrix_step.induct)
  case (replay m)
  then show ?case by (intro reveal_inv_reveal) (simp add: reveal_inv_def)
qed (rule reveal_inv_timer)

lemma first_reveal_inv: "mount_check_matrix result opts = Inr m \<Longrightarrow> reveal_inv m"
  unfolding mount_check_matrix_def rbind_eq_Inr by (auto intro!: reveal_inv_reveal)

interpretation matrix: invariant_system
  "{m. \<exists>result opts. mount_check_matrix result opts = Inr m}" matrix_step reveal_inv
  by unfold_locales (auto intro: first_reveal_inv matrix_step_inv)

lemma timers_fired:
  "mset ts = mset (mx_timers m) \<Longrightarrow> mx_timers (fold row_timer ts m) = [] \<and>
     length (mx_rows (fold row_timer ts m)) = length (mx_rows m)"
proof (induction ts arbitrary: m)
  case (Cons i ts)
  then have "mset ts = mset (mx_timers (row_timer i m))" by (simp add: row_timer_def) (metis add_mset_remove_trivial)
  from Cons.IH [OF this] show ?case by (simp add: row_timer_def)
qed simp

lemma timers_fired_inv: "mset ts = mset (mx_timers m) \<Longrightarrow> reveal_inv m \<Longrightarrow> reveal_inv (fold row_timer ts m)"
proof (induction ts arbitrary: m)
  case (Cons i ts)
  then have i: "i \<in> set (mx_timers m)" by (metis list.set_intros(1) set_mset_mset)
  have "mset ts = mset (mx_timers (row_timer i m))"
    using Cons.prems(1) by (simp add: row_timer_def) (metis add_mset_remove_trivial)
  from Cons.IH [OF this reveal_inv_timer [OF Cons.prems(2) i]] show ?case by simp
qed simp

text \<open>C21: After any history of replays and timers, once the pending timers have fired in any order
every row is revealed.\<close>

theorem matrix_reveal_completes:
  assumes "mount_check_matrix result opts = Inr m0" and "reach {m0} matrix_step m"
    and "mset ts = mset (mx_timers m)"
  shows "length (mx_rows (fold row_timer ts m)) = length (mx_rows m) \<and>
         (\<forall>r \<in> set (mx_rows (fold row_timer ts m)). attr r ''data-revealed'' = Some ''1'')"
proof -
  have "reach {m. \<exists>result opts. mount_check_matrix result opts = Inr m} matrix_step m"
    using assms(2) by (rule reach_mono) (use assms(1) in blast)
  then have "reveal_inv (fold row_timer ts m)" by (intro timers_fired_inv [OF assms(3)] matrix.inv_reach)
  with timers_fired [OF assms(3)] show ?thesis by (auto simp: reveal_inv_def in_set_conv_nth)
qed

section \<open>A result with a broken link\<close>

definition sample_checks :: "jsval list" where
  "sample_checks = [
     JObj [(''name'', JStr ''plan_hash''), (''passed'', JBool True), (''detail'', JStr ''bound'')],
     JObj [(''name'', JStr ''inclusion_proof[2]''), (''passed'', JBool False), (''error'', JStr ''leaf mismatch'')]]"

definition sample_result :: jsval where
  "sample_result = JObj [(''passed'', JBool False), (''checks'', JArr sample_checks)]"

definition sample_opts :: jsval where
  "sample_opts = JObj [(''stagger'', jint 140)]"

lemma sample_checks_of: "checks_of sample_result = Inr sample_checks" "all_pass sample_result = Inr False"
  by (simp_all add: checks_of_def all_pass_def sample_result_def obj_get_simps)

lemma proto_plain [simp]: "proto_member ''error'' = JUndef" "proto_member ''detail'' = JUndef"
  "proto_member ''assuranceLabel'' = JUndef"
  by (simp_all add: proto_member_def proto_methods_def)

lemma sample_matrix: "\<exists>m :: 'h matrix. mount_check_matrix sample_result sample_opts = Inr m"
proof -
  have "\<exists>r :: 'h dom. matrix_row 0 (sample_checks ! 0) = Inr r"
    by (simp add: matrix_row_def sample_checks_def obj_get_simps js_or_def TITLES_def EXPLAIN_def opt_el_def Let_def)
  moreover have "\<exists>r :: 'h dom. matrix_row 1 (sample_checks ! 1) = Inr r"
    by (simp add: matrix_row_def sample_checks_def obj_get_simps js_or_def TITLES_def EXPLAIN_def opt_el_def Let_def base_root_def)
  ultimately have "\<exists>rs :: 'h dom list. matrix_rows 0 sample_checks = Inr rs"
    by (auto simp: sample_checks_def)
  then show ?thesis
    unfolding mount_check_matrix_def sample_checks_of
    by (auto simp: sample_opts_def obj_get_simps js_or_def matrix_head_def opt_el_def
        sample_checks_def check_passed_def)
qed

theorem matrix_shows_every_check_witness:
  "\<exists>m :: nat matrix. length (mx_rows m) = 2 \<and> presents 1 False (mx_rows m ! 1)"
proof -
  obtain m :: "nat matrix" where m: "mount_check_matrix sample_result sample_opts = Inr m" using sample_matrix by blast
  from matrix_shows_every_check [OF m sample_checks_of(1)] show ?thesis
    by (intro exI [of _ m]) (auto simp: sample_checks_def obj_get_simps dest!: spec [of _ 1])
qed

theorem matrix_verdict_witness:
  "\<exists>m :: nat matrix. mount_check_matrix sample_result sample_opts = Inr m \<and> attr (matrix_dom m) ''data-state'' = Some ''fail'' \<and>
     map d_text (having ''pg-matrix-title'' (mx_head m)) = [''Proof did not verify'']"
proof -
  obtain m :: "nat matrix" where m: "mount_check_matrix sample_result sample_opts = Inr m" using sample_matrix by blast
  from matrix_verdict [OF m sample_checks_of(2)] m show ?thesis by auto
qed

theorem matrix_shows_reason_witness:
  "\<exists>m :: nat matrix. map d_text (having ''pg-matrix-detail'' (mx_rows m ! 1)) = [''leaf mismatch'']"
proof -
  obtain m :: "nat matrix" where m: "mount_check_matrix sample_result sample_opts = Inr m" using sample_matrix by blast
  show ?thesis
    by (rule exI [of _ m], rule matrix_shows_reason [OF m sample_checks_of(1), of 1 "JStr ''leaf mismatch''" JUndef])
      (simp_all add: sample_checks_def obj_get_simps)
qed

theorem null_check_breaks_matrix_witness:
  "\<forall>m :: nat matrix. mount_check_matrix (JObj [(''passed'', JBool True), (''checks'', JArr [JNull])]) (JObj []) \<noteq> Inr m"
  by (rule conjunct2 [OF null_check_breaks_matrix [of _ "[JNull]"]]) (simp_all add: checks_of_def obj_get_simps)

theorem matrix_reveal_completes_witness:
  "\<exists>m :: nat matrix. mx_timers m = [0, 1] \<and>
     (\<forall>r \<in> set (mx_rows (fold row_timer [1, 0] m)). attr r ''data-revealed'' = Some ''1'')"
proof -
  obtain m :: "nat matrix" where m: "mount_check_matrix sample_result sample_opts = Inr m" using sample_matrix by blast
  have "length (mx_rows m) = 2"
    using mount_matrix_rows [OF m sample_checks_of(1)] matrix_rows_presents by (fastforce simp: sample_checks_def)
  moreover have "mx_timers m = [0..<length (mx_rows m)]"
    using m unfolding mount_check_matrix_def rbind_eq_Inr
    by (auto simp: sample_opts_def obj_get_simps reveal_def)
  ultimately have "mx_timers m = [0, 1]" by (simp add: upt_rec)
  with matrix_reveal_completes [OF m reach_init, of m "[1, 0]"] show ?thesis by auto
qed

end
