(* ===== verification/Flows.thy ===== *)
theory Flows
  imports Dom
begin

text \<open>
  The registry of the builder flows of \<open>web/playground.js\<close> (\<open>FLOWS\<close>, \<open>flowMeta\<close>,
  \<open>allowedFlowIds\<close>) and the panel that shows how to reproduce a flow
  (\<open>reproducePanel\<close>, \<open>copyableCode\<close> with the feedback of its copy button).
\<close>

section \<open>The registry\<close>

definition sq :: "string \<Rightarrow> string" where
  "sq s = CHR 0x27 # s @ [CHR 0x27]"

definition unlines :: "string list \<Rightarrow> string" where
  "unlines = join [CHR 0x0A]"

definition network_id :: string where
  "network_id = ''g1-e3f3119213a1ead44647659d67e47f4269a2affb13f150aa87b20baacf93cf81''"

definition escrow_sdk :: string where
  "escrow_sdk = unlines [
     ''import { InfrixClient, withGoldenApp } from '' @ sq ''@infrix/client'' @ '';'',
     ''import { verifyPortablePackage } from '' @ sq ''@infrix/verify'' @ '';'',
     '''',
     ''const app = withGoldenApp(new InfrixClient('' @ sq ''kermit'' @ '', { actor: '' @ sq ''acc://you.acme'' @
       '', purpose: '' @ sq ''demo'' @ '' }));'',
     ''const { escrowId, intentId } = await app.escrow.create({'',
     ''  buyer: '' @ sq ''acc://buyer.acme'' @ '', seller: '' @ sq ''acc://seller.acme'' @ '', amount: 1000,'',
     ''});'',
     ''await app.escrow.release({ escrowId });'',
     ''const proof = await app.proofs.export({ intentId });'',
     ''// verify offline '' @ u_dash @ '' no node trusted:'',
     ''console.log((await verifyPortablePackage(proof)).passed);'']"

definition did_sdk :: string where
  "did_sdk = unlines [
     ''import { InfrixClient } from '' @ sq ''@infrix/client'' @ '';'',
     '''',
     ''const infrix = new InfrixClient('' @ sq ''kermit'' @ '', { actor: '' @ sq ''acc://alice.acme'' @
       '', purpose: '' @ sq ''identity'' @ '' });'',
     ''const did = infrix.credentials.createDID('' @ sq ''acc://alice.acme'' @ '', { networkId: '' @
       sq network_id @ '' }); // offline, no node'',
     ''console.log(did); // did:infrix:v1:acc:'' @ network_id @ '':alice.acme'']"

definition credential_sdk :: string where
  "credential_sdk = unlines [
     ''import { InfrixClient } from '' @ sq ''@infrix/client'' @ '';'',
     '''',
     ''const infrix = new InfrixClient('' @ sq ''kermit'' @ '', { actor: '' @ sq ''acc://issuer.acme'' @
       '', purpose: '' @ sq ''issuance'' @ '' });'',
     ''const vc = await infrix.credentials.issue({'',
     ''  subjectDID: '' @ sq (''did:infrix:v1:acc:'' @ network_id @ '':alice.acme'') @ '','',
     ''  credentialTypes: ['' @ sq ''KYCCredential'' @ ''],'',
     ''  claims: { tier: '' @ sq ''2'' @ '' },'',
     ''});'']"

definition flow_entry :: "string \<Rightarrow> string \<Rightarrow> string \<Rightarrow> string \<Rightarrow> string \<Rightarrow> string \<Rightarrow> string \<Rightarrow> jsval" where
  "flow_entry lab cta eyebrow tagline blurb cli sdk = JObj [
     (''label'', JStr lab), (''cta'', JStr cta), (''eyebrow'', JStr eyebrow), (''tagline'', JStr tagline),
     (''blurb'', JStr blurb), (''cli'', JStr cli), (''sdk'', JStr sdk)]"

definition FLOWS :: "(string \<times> jsval) list" where
  "FLOWS = [
     (''golden-escrow'', flow_entry ''Escrow release'' (''Run the escrow '' @ u_arrow) ''GOVERNED ESCROW''
        (''A governed escrow, hash-linked stage by stage '' @ u_dash @ '' no wallet, no funding.'')
        (''An escrow release governed by a policy, a role approval, and a delivery credential '' @ u_dash @
         '' ending in a proof you verify yourself.'')
        ''infrix demo start --mode local'' escrow_sdk),
     (''create-did'', flow_entry ''Create a DID'' (''Create a DID '' @ u_arrow) (''IDENTITY '' @ u_mid @ '' DID'')
        (''A did:infrix created through the governed spine '' @ u_dash @ '' proof you verify yourself.'')
        (''Create a did:infrix decentralized identifier through a governed flow '' @ u_dash @
         '' intent, policy, outcome '' @ u_dash @ '' ending in a proof you verify yourself.'')
        ''infrix did create --adi acc://alice.acme'' did_sdk),
     (''issue-credential'', flow_entry ''Issue a credential'' (''Issue a credential '' @ u_arrow)
        (''IDENTITY '' @ u_mid @ '' CREDENTIAL'')
        (''A verifiable credential issued through the governed spine '' @ u_dash @ '' proof you verify yourself.'')
        (''Issue a verifiable credential to a subject DID through a governed flow '' @ u_dash @
         '' issuer approval, policy, outcome '' @ u_dash @ '' ending in a proof you verify yourself.'')
        (''infrix credential issue --subject did:infrix:v1:acc:'' @ network_id @ '':alice.acme --type KYCCredential'')
        credential_sdk)]"

definition flow_meta :: "string \<Rightarrow> jsval" where
  "flow_meta fid = js_or (obj_get FLOWS fid) (obj_get FLOWS ''golden-escrow'')"

text \<open>The text a page shows of a flow: a field of its entry.\<close>

definition flow_field :: "string \<Rightarrow> string \<Rightarrow> jsval res" where
  "flow_field fid k = get_prop (flow_meta fid) k"

section \<open>The flows on offer\<close>

definition default_flows :: "jsval list" where
  "default_flows = [JStr ''golden-escrow'']"

definition advertised_flows :: "jsval \<Rightarrow> jsval list res" where
  "advertised_flows config = rbind (get_prop config ''allowedFlows'') (\<lambda>fs.
     Inr (case fs of JArr (x # xs) \<Rightarrow> x # xs | _ \<Rightarrow> default_flows))"

definition allowed_flow_ids :: "jsval \<Rightarrow> string list res" where
  "allowed_flow_ids config = rbind (advertised_flows config) (\<lambda>adv.
     let ids = filter (\<lambda>fid. JStr fid \<in> set adv) (map fst FLOWS) in
     Inr (if ids \<noteq> [] then ids else [''golden-escrow'']))"

section \<open>Reproducing a flow\<close>

text \<open>The listeners of the whole page; a copy button carries the text it copies.\<close>

datatype action = StartRun string string | ChooseMode string | ChooseFlow string | CopyText string string
  | OptInChanged | Forge string | ResetProof | Replay | PickFile | TogglePaste | VerifyPasted | LoadSample | SignSample

definition copyable_code :: "string \<Rightarrow> jsval \<Rightarrow> action dom res" where
  "copyable_code lab code =
     rbind (el ''code'' '''' code) (\<lambda>c. rbind (to_str code) (\<lambda>txt.
     Inr (append_kids (elt ''div'' ''pg-code-block'' '''') [
       append_kids (elt ''div'' ''pg-code-bar'' '''') [
         elt ''span'' ''pg-code-label'' lab,
         on_click (CopyText txt ''Copy'') (put_attr ''type'' ''button'' (elt ''button'' ''pg-btn pg-btn-sm'' ''Copy''))],
       append_kids (elt ''pre'' ''pg-code'' '''') [c]])))"

definition reproduce_panel :: "jsval \<Rightarrow> action dom res" where
  "reproduce_panel flow =
     rbind (to_str (js_or flow (JStr ''golden-escrow''))) (\<lambda>fid.
     rbind (flow_field fid ''cli'') (\<lambda>cli. rbind (flow_field fid ''sdk'') (\<lambda>sdk.
     rbind (copyable_code ''CLI'' cli) (\<lambda>b1. rbind (copyable_code ''TypeScript SDK'' sdk) (\<lambda>b2.
     Inr (append_kids (elt ''section'' ''pg-reproduce'' '''') [
       elt ''h2'' '''' ''Reproduce this yourself'',
       elt ''p'' ''pg-note'' (''Produce the same proof locally '' @ u_dash @
         '' then verify it offline with the same published verifier this page used.''),
       b1, b2]))))))"

text \<open>
  The feedback of a copy button: its text after a click (the text shown when copying failed
  is an argument, as the share link shows the link itself) and after its timer. A clipboard
  that is missing or refuses is \<open>None\<close>.
\<close>

record copy_button =
  cb_text :: string
  cb_timers :: nat

definition copy_click :: "string \<Rightarrow> bool option \<Rightarrow> copy_button \<Rightarrow> copy_button" where
  "copy_click failed_text clipboard b =
     \<lparr>cb_text = (if clipboard = Some True then ''Copied '' @ u_check else failed_text), cb_timers = cb_timers b + 1\<rparr>"

definition copy_timer :: "string \<Rightarrow> copy_button \<Rightarrow> copy_button" where
  "copy_timer idle_text b = \<lparr>cb_text = idle_text, cb_timers = cb_timers b - 1\<rparr>"

section \<open>Properties\<close>

definition registered :: "string list" where
  "registered = [''golden-escrow'', ''create-did'', ''issue-credential'']"

lemma registered_FLOWS: "map fst FLOWS = registered"
  by (simp add: FLOWS_def registered_def)

lemma allowed_flow_idsD:
  assumes "allowed_flow_ids config = Inr ids"
  shows "\<exists>adv. advertised_flows config = Inr adv \<and>
    ids = (if filter (\<lambda>f. JStr f \<in> set adv) registered \<noteq> [] then filter (\<lambda>f. JStr f \<in> set adv) registered
           else [''golden-escrow''])"
  using assms by (auto simp: allowed_flow_ids_def registered_FLOWS rbind_eq_Inr Let_def)

theorem flow_picker_within_allowlist:
  assumes "get_prop config ''allowedFlows'' = Inr (JArr adv)" and "\<exists>f \<in> set registered. JStr f \<in> set adv"
  shows "allowed_flow_ids config = Inr (filter (\<lambda>f. JStr f \<in> set adv) registered)"
proof -
  have "adv \<noteq> []" "filter (\<lambda>f. JStr f \<in> set adv) registered \<noteq> []" using assms(2) by (auto simp: filter_empty_conv)
  then show ?thesis
    using assms(1) by (cases adv) (simp_all add: allowed_flow_ids_def advertised_flows_def registered_FLOWS Let_def)
qed

theorem flow_picker_offers_rejected:
  assumes "get_prop config ''allowedFlows'' = Inr (JArr adv)" and "adv \<noteq> []"
    and "\<forall>f \<in> set registered. JStr f \<notin> set adv"
  shows "allowed_flow_ids config = Inr [''golden-escrow''] \<and> JStr ''golden-escrow'' \<notin> set adv"
proof -
  have "filter (\<lambda>f. JStr f \<in> set adv) registered = []" using assms(3) by (simp add: filter_empty_conv)
  moreover have "''golden-escrow'' \<in> set registered" by (simp add: registered_def)
  ultimately show ?thesis
    using assms by (cases adv) (auto simp: allowed_flow_ids_def advertised_flows_def registered_FLOWS)
qed

theorem reproduce_panel_copies_flow:
  assumes "fid \<in> set registered" and "flow_field fid ''cli'' = Inr (JStr cli)" and "flow_field fid ''sdk'' = Inr (JStr sdk)"
  shows "\<exists>panel. reproduce_panel (JStr fid) = Inr panel \<and> actions panel = [CopyText cli ''Copy'', CopyText sdk ''Copy''] \<and>
     map d_text (having '''' panel) = [''Reproduce this yourself'', cli, sdk]"
proof -
  have "truthy (JStr fid)" using assms(1) by (auto simp: registered_def)
  then show ?thesis
    using assms(2,3)
    by (simp add: reproduce_panel_def copyable_code_def actions_unfold having_append having_unfold)
qed

definition sample_config :: "string list \<Rightarrow> jsval" where
  "sample_config fs = JObj [(''kermitEnabled'', JBool False), (''allowedFlows'', JArr (map JStr fs))]"

theorem flow_picker_within_allowlist_witness:
  "allowed_flow_ids (sample_config [''create-did'', ''golden-escrow'']) = Inr [''golden-escrow'', ''create-did'']"
  by (subst flow_picker_within_allowlist [of _ "map JStr [''create-did'', ''golden-escrow'']"])
    (simp_all add: sample_config_def obj_get_simps registered_def)

theorem flow_picker_offers_rejected_witness:
  "allowed_flow_ids (sample_config [''treasury'']) = Inr [''golden-escrow'']"
  using flow_picker_offers_rejected [of "sample_config [''treasury'']" "[JStr ''treasury'']"]
  by (simp add: sample_config_def obj_get_simps registered_def)

theorem reproduce_panel_copies_flow_witness:
  "\<exists>panel. reproduce_panel (JStr ''create-did'') = Inr panel \<and>
     actions panel = [CopyText ''infrix did create --adi acc://alice.acme'' ''Copy'', CopyText did_sdk ''Copy'']"
proof -
  have "flow_field ''create-did'' ''cli'' = Inr (JStr ''infrix did create --adi acc://alice.acme'')"
    "flow_field ''create-did'' ''sdk'' = Inr (JStr did_sdk)"
    by (simp_all add: flow_field_def flow_meta_def FLOWS_def flow_entry_def obj_get_simps js_or_def)
  from reproduce_panel_copies_flow [OF _ this] show ?thesis by (auto simp: registered_def)
qed

end
