(* ===== verification/Telemetry.thy ===== *)
theory Telemetry
  imports JsonText
begin

text \<open>
  The browser's storage, and the opt-in analytics of \<open>web/playground.js\<close>
  (\<open>telemetry\<close>): the stored choice, the session identifier and \<open>emit\<close>, which posts an
  event to \<open>/api/events\<close>. A storage may refuse reads or writes (a blocked or full
  storage), which the code swallows. The random suffix of a new session identifier and the
  time stamp are arguments; \<open>tl_sent\<close> lists the bodies handed to \<open>fetch\<close>.
\<close>

section \<open>Storage\<close>

record storage =
  so_entries :: "(string \<times> string) list"
  so_readable :: bool
  so_writable :: bool

definition so_look :: "storage \<Rightarrow> string \<Rightarrow> string option" where
  "so_look s k = map_of (so_entries s) k"

definition so_put :: "string \<Rightarrow> string \<Rightarrow> storage \<Rightarrow> storage" where
  "so_put k v s = s\<lparr>so_entries := AList.update k v (so_entries s)\<rparr>"

interpretation store: keyed_store so_look so_put
  by unfold_locales (auto simp: so_look_def so_put_def)

text \<open>\<open>None\<close>: the access throws.\<close>

definition get_item :: "storage \<Rightarrow> string \<Rightarrow> string option option" where
  "get_item s k = (if so_readable s then Some (so_look s k) else None)"

definition set_item :: "string \<Rightarrow> string \<Rightarrow> storage \<Rightarrow> storage option" where
  "set_item k v s = (if so_writable s then Some (so_put k v s) else None)"

section \<open>The telemetry object\<close>

record tele =
  tl_local :: storage
  tl_session :: storage
  tl_sent :: "jsval list"

definition tele_key :: string where "tele_key = ''pg:analytics:optin''"
definition sid_key :: string where "sid_key = ''pg:analytics:sid''"

definition opted_in :: "tele \<Rightarrow> bool" where
  "opted_in t = (get_item (tl_local t) tele_key = Some (Some ''1''))"

definition set_opt_in :: "bool \<Rightarrow> tele \<Rightarrow> tele" where
  "set_opt_in on t = (case set_item tele_key (if on then ''1'' else ''0'') (tl_local t) of
     None \<Rightarrow> t | Some s \<Rightarrow> t\<lparr>tl_local := s\<rparr>)"

definition session_id :: "string \<Rightarrow> tele \<Rightarrow> string \<times> tele" where
  "session_id rnd t = (case get_item (tl_session t) sid_key of
     None \<Rightarrow> (''s_anon'', t)
   | Some found \<Rightarrow>
      (if found \<noteq> None \<and> found \<noteq> Some '''' then (the found, t)
       else (case set_item sid_key (''s_'' @ rnd) (tl_session t) of
               None \<Rightarrow> (''s_anon'', t) | Some s \<Rightarrow> (''s_'' @ rnd, t\<lparr>tl_session := s\<rparr>))))"

definition event_body :: "string \<Rightarrow> string \<Rightarrow> string \<Rightarrow> (string \<times> jsval) list \<Rightarrow> jsval" where
  "event_body time sid event extra = JObj (fold (\<lambda>(k, v). AList.update k v) extra
     [(''version'', JStr ''1''), (''time'', JStr time), (''source'', JStr ''hosted''),
      (''sessionId'', JStr sid), (''event'', JStr event), (''redacted'', JBool True)])"

definition tele_emit :: "string \<Rightarrow> string \<Rightarrow> string \<Rightarrow> (string \<times> jsval) list \<Rightarrow> tele \<Rightarrow> tele" where
  "tele_emit time rnd event extra t =
     (if \<not> opted_in t then t
      else (let (sid, t1) = session_id rnd t
            in t1\<lparr>tl_sent := tl_sent t1 @ [event_body time sid event extra]\<rparr>))"

section \<open>Consent\<close>

datatype tele_op = OptIn bool | Report string string string "(string \<times> jsval) list"

fun tele_do :: "tele_op \<Rightarrow> tele \<Rightarrow> tele" where
  "tele_do (OptIn on) t = set_opt_in on t"
| "tele_do (Report time rnd event extra) t = tele_emit time rnd event extra t"

lemma session_id_keeps:
  "session_id rnd t = (sid, t1) \<Longrightarrow> tl_local t1 = tl_local t \<and> tl_sent t1 = tl_sent t"
  by (auto simp: session_id_def split: option.splits if_splits)

lemma tele_emit_keeps [simp]: "opted_in (tele_emit time rnd event extra t) = opted_in t"
  "tl_local (tele_emit time rnd event extra t) = tl_local t"
  by (auto simp: tele_emit_def opted_in_def split: prod.splits dest: session_id_keeps)

lemma silent_without_consent:
  "\<not> opted_in t \<Longrightarrow> OptIn True \<notin> set ops \<Longrightarrow>
     tl_sent (fold tele_do ops t) = tl_sent t \<and> \<not> opted_in (fold tele_do ops t)"
proof (induction ops arbitrary: t)
  case (Cons a ops)
  have "\<not> opted_in (tele_do a t) \<and> tl_sent (tele_do a t) = tl_sent t"
  proof (cases a)
    case (OptIn on)
    then show ?thesis using Cons.prems
      by (auto simp: set_opt_in_def set_item_def opted_in_def get_item_def so_look_def so_put_def split: if_splits)
  qed (use Cons.prems in \<open>simp add: tele_emit_def\<close>)
  with Cons show ?case by simp
qed simp

theorem no_event_without_consent:
  assumes "so_look (tl_local t) tele_key \<noteq> Some ''1''" and "OptIn True \<notin> set ops"
  shows "tl_sent (fold tele_do ops t) = tl_sent t"
  using silent_without_consent [of t ops] assms by (simp add: opted_in_def get_item_def)

text \<open>A withdrawn consent holds for the rest of the visit, if the storage takes the write.\<close>

theorem withdrawn_consent_holds:
  assumes "so_writable (tl_local t)" and "OptIn True \<notin> set ops"
  shows "tl_sent (fold tele_do (OptIn False # ops) t) = tl_sent t"
proof -
  have "\<not> opted_in (set_opt_in False t) \<and> tl_sent (set_opt_in False t) = tl_sent t"
    using assms(1) by (simp add: set_opt_in_def set_item_def opted_in_def get_item_def so_look_def so_put_def)
  with silent_without_consent [OF _ assms(2)] show ?thesis by simp
qed

text \<open>A storage that refuses the write keeps the old consent, and events are still sent.\<close>

theorem refused_write_keeps_consent:
  assumes "opted_in t" and "\<not> so_writable (tl_local t)"
  shows "length (tl_sent (fold tele_do [OptIn False, Report time rnd event extra] t)) = length (tl_sent t) + 1"
proof -
  have "set_opt_in False t = t" using assms(2) by (simp add: set_opt_in_def set_item_def)
  then show ?thesis using assms(1)
    by (auto simp: tele_emit_def split: prod.splits dest: session_id_keeps)
qed

section \<open>What an event says\<close>

text \<open>
  The body of an event with the words of one of the call sites, and nothing else: the fixed
  fields, the session identifier, the redaction flag, and the mode and result of the site.
\<close>

definition call_site :: "string \<Rightarrow> (string \<times> jsval) list \<Rightarrow> bool" where
  "call_site event extra \<longleftrightarrow>
     event = ''page.loaded'' \<and> extra = [] \<or>
     event = ''cinema.opened'' \<and> extra = [(''result'', JStr ''success'')] \<or>
     event = ''proof.verified'' \<and> (\<exists>r \<in> {''success'', ''failure''}. extra = [(''result'', JStr r)]) \<or>
     event = ''demo.completed'' \<and> (\<exists>m \<in> {''kermit'', ''local''}. extra = [(''mode'', JStr m), (''result'', JStr ''success'')]) \<or>
     event = ''error.step'' \<and> (\<exists>m \<in> {''kermit'', ''local''}. extra = [(''mode'', JStr m), (''result'', JStr ''failure'')])"

definition redacted_event :: "string \<Rightarrow> jsval \<Rightarrow> bool" where
  "redacted_event sid b \<longleftrightarrow> (\<exists>time event extra. call_site event extra \<and>
     b = JObj ([(''version'', JStr ''1''), (''time'', JStr time), (''source'', JStr ''hosted''),
                (''sessionId'', JStr sid), (''event'', JStr event), (''redacted'', JBool True)] @ extra))"

lemma event_body_redacted: "call_site event extra \<Longrightarrow> redacted_event sid (event_body time sid event extra)"
  unfolding redacted_event_def
  by (rule exI [of _ time], rule exI [of _ event], rule exI [of _ extra]) (auto simp: call_site_def event_body_def)

text \<open>The session identifier a visit uses: the stored one, a new one, or none that lasts.\<close>

definition visit_sid :: "string \<Rightarrow> tele \<Rightarrow> string" where
  "visit_sid rnd t = (if \<not> so_readable (tl_session t) then ''s_anon''
     else case so_look (tl_session t) sid_key of
            Some sid \<Rightarrow> if sid \<noteq> '''' then sid else if so_writable (tl_session t) then ''s_'' @ rnd else ''s_anon''
          | None \<Rightarrow> if so_writable (tl_session t) then ''s_'' @ rnd else ''s_anon'')"

lemma session_id_sid: "session_id rnd t = (sid, t1) \<Longrightarrow> sid = visit_sid rnd t \<and> visit_sid rnd t1 = visit_sid rnd t"
  by (auto simp: session_id_def visit_sid_def get_item_def set_item_def store.look_put so_put_def
      split: if_splits option.splits) (simp_all add: so_look_def)

lemma visit_sid_sent [simp]: "visit_sid rnd (t\<lparr>tl_sent := x\<rparr>) = visit_sid rnd t"
  by (simp add: visit_sid_def)

lemma set_opt_in_sid: "visit_sid rnd (set_opt_in on t) = visit_sid rnd t \<and> tl_sent (set_opt_in on t) = tl_sent t"
  by (simp add: set_opt_in_def visit_sid_def split: option.split)

text \<open>An operation of the program: a change of the choice, or a report of one of the call sites.\<close>

definition told :: "string \<Rightarrow> tele_op \<Rightarrow> bool" where
  "told rnd a = (case a of OptIn _ \<Rightarrow> True | Report _ r event extra \<Rightarrow> r = rnd \<and> call_site event extra)"

lemma told_sent:
  "list_all (told rnd) ops \<Longrightarrow> \<exists>bs. tl_sent (fold tele_do ops t) = tl_sent t @ bs \<and>
     (\<forall>b \<in> set bs. redacted_event (visit_sid rnd t) b)"
proof (induction ops arbitrary: t)
  case (Cons a ops)
  have 1: "visit_sid rnd (tele_do a t) = visit_sid rnd t \<and>
      (\<exists>bs. tl_sent (tele_do a t) = tl_sent t @ bs \<and> (\<forall>b \<in> set bs. redacted_event (visit_sid rnd t) b))"
  proof (cases a)
    case (Report time r event extra)
    obtain sid t1 where s: "session_id rnd t = (sid, t1)" by (cases "session_id rnd t")
    then show ?thesis using Report Cons.prems session_id_sid [OF s] session_id_keeps [OF s]
      by (auto simp: told_def tele_emit_def intro: event_body_redacted)
  qed (simp add: set_opt_in_sid)
  then obtain bs where bs: "tl_sent (tele_do a t) = tl_sent t @ bs" "\<forall>b \<in> set bs. redacted_event (visit_sid rnd t) b" by blast
  from Cons.IH [of "tele_do a t"] Cons.prems 1 obtain cs where
    "tl_sent (fold tele_do ops (tele_do a t)) = tl_sent (tele_do a t) @ cs" "\<forall>b \<in> set cs. redacted_event (visit_sid rnd t) b"
    by auto
  with bs show ?case by (intro exI [of _ "bs @ cs"]) auto
qed simp

section \<open>A visit\<close>

definition empty_storage :: storage where
  "empty_storage = \<lparr>so_entries = [], so_readable = True, so_writable = True\<rparr>"

definition sample_tele :: tele where
  "sample_tele = \<lparr>tl_local = empty_storage, tl_session = empty_storage, tl_sent = []\<rparr>"

definition consenting :: tele where
  "consenting = sample_tele\<lparr>tl_local := \<lparr>so_entries = [(tele_key, ''1'')], so_readable = True, so_writable = False\<rparr>,
     tl_session := \<lparr>so_entries = [(sid_key, ''s_abc'')], so_readable = True, so_writable = True\<rparr>\<rparr>"

theorem no_event_without_consent_witness:
  "tl_sent (fold tele_do [Report ''t0'' ''r'' ''page.loaded'' [], OptIn False, Report ''t1'' ''r'' ''demo.completed'' []] sample_tele) = []"
  by (subst no_event_without_consent) (simp_all add: sample_tele_def empty_storage_def so_look_def)

theorem withdrawn_consent_holds_witness:
  "tl_sent (fold tele_do [OptIn False, Report ''t1'' ''r'' ''demo.completed'' []] sample_tele) = []"
  by (subst withdrawn_consent_holds) (simp_all add: sample_tele_def empty_storage_def)

theorem refused_write_keeps_consent_witness:
  "length (tl_sent (fold tele_do [OptIn False, Report ''t1'' ''r'' ''page.loaded'' []] consenting)) = 1"
  by (subst refused_write_keeps_consent)
    (simp_all add: consenting_def sample_tele_def opted_in_def get_item_def so_look_def)

end
