(* ===== verification/Theme.thy ===== *)
theory Theme
  imports Telemetry
begin

text \<open>
  The theme switch of \<open>web/playground.js\<close> (\<open>THEMES\<close>, \<open>applyTheme\<close>,
  \<open>initTheme\<close> and its click listener): the document's \<open>data-theme\<close>, the header button
  and the remembered choice. \<open>th_button\<close> is \<open>None\<close> on a document without the button.
\<close>

definition THEMES :: "string list" where
  "THEMES = [''dark'', ''light'', ''contrast'']"

definition THEME_GLYPH :: "(string \<times> string) list" where
  "THEME_GLYPH = [(''dark'', [CHR 0xE2, CHR 0x98, CHR 0xBE]), (''light'', [CHR 0xE2, CHR 0x98, CHR 0x80]),
     (''contrast'', [CHR 0xE2, CHR 0x96, CHR 0xAE])]"

definition THEME_LABEL :: "(string \<times> string) list" where
  "THEME_LABEL = [(''dark'', ''Dark''), (''light'', ''Daylight''), (''contrast'', ''Phosphor'')]"

record theme_button =
  tb_text :: string
  tb_title :: string
  tb_aria :: string

record theme_page =
  th_attr :: "string option"
  th_button :: "theme_button option"
  th_store :: storage
  th_listens :: bool

definition table_text :: "(string \<times> string) list \<Rightarrow> string \<Rightarrow> string \<Rightarrow> string" where
  "table_text tbl absent_text t = (case map_of tbl t of Some s \<Rightarrow> s | None \<Rightarrow> absent_text)"

definition button_for :: "string \<Rightarrow> theme_button" where
  "button_for t = (let l = table_text THEME_LABEL ''undefined'' t in
     \<lparr>tb_text = table_text THEME_GLYPH '''' t,
      tb_title = ''Theme: '' @ l @ '' (click to switch)'',
      tb_aria = ''Theme: '' @ l @ ''. Switch theme.''\<rparr>)"

definition apply_theme :: "string \<Rightarrow> theme_page \<Rightarrow> theme_page" where
  "apply_theme t p =
     (let p1 = p\<lparr>th_attr := Some t, th_button := map_option (\<lambda>_. button_for t) (th_button p)\<rparr> in
      case set_item ''pg:theme'' t (th_store p1) of None \<Rightarrow> p1 | Some s \<Rightarrow> p1\<lparr>th_store := s\<rparr>)"

definition stored_theme :: "storage \<Rightarrow> string" where
  "stored_theme s = (case get_item s ''pg:theme'' of
     Some (Some t) \<Rightarrow> (if t \<in> set THEMES then t else ''dark'') | _ \<Rightarrow> ''dark'')"

definition init_theme :: "theme_page \<Rightarrow> theme_page" where
  "init_theme p = (let p1 = apply_theme (stored_theme (th_store p)) p in
     p1\<lparr>th_listens := (th_button p1 \<noteq> None)\<rparr>)"

fun index_of :: "'a list \<Rightarrow> 'a \<Rightarrow> int" where
  "index_of [] x = -1"
| "index_of (y # ys) x = (if y = x then 0 else (let i = index_of ys x in if i = -1 then -1 else i + 1))"

definition next_theme :: "string option \<Rightarrow> string" where
  "next_theme cur =
     THEMES ! nat (((case cur of Some c \<Rightarrow> index_of THEMES c | None \<Rightarrow> -1) + 1) mod int (length THEMES))"

definition click_theme :: "theme_page \<Rightarrow> theme_page" where
  "click_theme p = (if th_listens p then apply_theme (next_theme (th_attr p)) p else p)"

section \<open>The switch\<close>

lemma next_theme_eq:
  "next_theme cur = (if cur = Some ''dark'' then ''light'' else if cur = Some ''light'' then ''contrast'' else ''dark'')"
  by (cases cur) (simp_all add: next_theme_def THEMES_def)

definition theme_inv :: "theme_page \<Rightarrow> bool" where
  "theme_inv p \<longleftrightarrow> (\<exists>t \<in> set THEMES. th_attr p = Some t \<and> (th_button p = None \<or> th_button p = Some (button_for t)) \<and>
     (so_writable (th_store p) \<longrightarrow> so_look (th_store p) ''pg:theme'' = Some t))"

inductive theme_step :: "theme_page \<Rightarrow> theme_page \<Rightarrow> bool" where
  click: "theme_step p (click_theme p)"


lemma apply_theme_inv: "t \<in> set THEMES \<Longrightarrow> theme_inv (apply_theme t p)"
  by (auto simp: theme_inv_def apply_theme_def set_item_def so_look_def so_put_def Let_def split: option.splits)

lemma stored_theme_known: "stored_theme s \<in> set THEMES"
  by (auto simp: stored_theme_def THEMES_def split: option.splits)

lemma init_theme_inv: "theme_inv (init_theme p)"
  using apply_theme_inv [OF stored_theme_known, of "th_store p" p] by (simp add: init_theme_def Let_def theme_inv_def)

lemma theme_step_inv: "theme_step p q \<Longrightarrow> theme_inv p \<Longrightarrow> theme_inv q"
proof (induction rule: theme_step.induct)
  case (click p)
  then show ?case
    using apply_theme_inv [of "next_theme (th_attr p)" p] by (auto simp: click_theme_def next_theme_eq THEMES_def)
qed

interpretation theme: invariant_system "range init_theme" theme_step theme_inv
  by unfold_locales (auto intro: init_theme_inv theme_step_inv)

theorem theme_always_known:
  assumes "reach (range init_theme) theme_step p"
  shows "\<exists>t \<in> set THEMES. th_attr p = Some t \<and> (th_button p = None \<or> th_button p = Some (button_for t))
     \<and> (so_look (th_store p) ''pg:theme'' = Some t \<or> \<not> so_writable (th_store p))"
  using theme.inv_reach [OF assms] by (auto simp: theme_inv_def)

text \<open>The next visit starts with the theme the last one ended with.\<close>

theorem theme_remembered:
  assumes "reach (range init_theme) theme_step p" and "so_writable (th_store p)" and "so_readable (th_store p)"
    and "th_store q = th_store p"
  shows "th_attr (init_theme q) = th_attr p"
  using theme.inv_reach [OF assms(1)] assms(2-4)
  by (auto simp: theme_inv_def init_theme_def apply_theme_def stored_theme_def get_item_def Let_def split: option.splits)

theorem three_clicks_cycle:
  assumes "reach (range init_theme) theme_step p" and "th_listens p"
  shows "th_attr (click_theme (click_theme (click_theme p))) = th_attr p \<and>
         distinct [th_attr p, th_attr (click_theme p), th_attr (click_theme (click_theme p))]"
proof -
  have a: "th_attr (apply_theme t q) = Some t" "th_listens (apply_theme t q) = th_listens q" for t q
    by (auto simp: apply_theme_def Let_def split: option.splits)
  obtain t where "t \<in> set THEMES" "th_attr p = Some t" using theme.inv_reach [OF assms(1)] by (auto simp: theme_inv_def)
  then show ?thesis using assms(2) by (auto simp: click_theme_def a next_theme_eq THEMES_def)
qed

definition fresh_page :: theme_page where
  "fresh_page = \<lparr>th_attr = None, th_button = Some \<lparr>tb_text = '''', tb_title = '''', tb_aria = ''''\<rparr>,
     th_store = \<lparr>so_entries = [(''pg:theme'', ''neon'')], so_readable = True, so_writable = True\<rparr>, th_listens = False\<rparr>"

lemma fresh_reach: "reach (range init_theme) theme_step (click_theme (init_theme fresh_page))"
  by (rule reach_step [where s = "init_theme fresh_page"]) (auto intro: reach_init theme_step.click)

lemma fresh_listens: "th_listens (click_theme (init_theme fresh_page))"
  by (auto simp: fresh_page_def click_theme_def init_theme_def apply_theme_def Let_def split: option.splits)

lemma fresh_store: "so_writable (th_store (click_theme (init_theme fresh_page)))"
  "so_readable (th_store (click_theme (init_theme fresh_page)))"
  by (auto simp: fresh_page_def click_theme_def init_theme_def apply_theme_def Let_def set_item_def so_put_def split: option.splits)

theorem theme_always_known_witness:
  "\<exists>t \<in> set THEMES. th_attr (click_theme (init_theme fresh_page)) = Some t"
  using theme_always_known [OF fresh_reach] by blast

theorem theme_remembered_witness:
  "th_attr (init_theme (fresh_page\<lparr>th_store := th_store (click_theme (init_theme fresh_page))\<rparr>)) =
   th_attr (click_theme (init_theme fresh_page))"
  by (rule theme_remembered [OF fresh_reach fresh_store]) simp

theorem three_clicks_cycle_witness:
  "th_attr (click_theme (click_theme (click_theme (click_theme (init_theme fresh_page))))) =
   th_attr (click_theme (init_theme fresh_page))"
  using three_clicks_cycle [OF fresh_reach fresh_listens] by blast

end
