(* ===== verification/Uri.thy ===== *)
theory Uri
  imports JsText
begin

text \<open>
  The language's \<open>encodeURIComponent\<close> and \<open>decodeURIComponent\<close> on texts given as their
  UTF-8 bytes, which the page uses for the paths it requests and the receipt links it opens.
  Decoding throws \<open>URIErr\<close> on a truncated escape and on escapes that are no UTF-8.
\<close>

abbreviation code :: "char \<Rightarrow> nat" where
  "code c \<equiv> of_char c"

definition unreserved :: "char \<Rightarrow> bool" where
  "unreserved c \<longleftrightarrow> (65 \<le> code c \<and> code c \<le> 90) \<or> (97 \<le> code c \<and> code c \<le> 122) \<or> is_digit c \<or>
     c \<in> {CHR ''-'', CHR ''_'', CHR ''.'', CHR ''!'', CHR ''~'', CHR ''*'', CHR 0x27, CHR ''('', CHR '')''}"

definition pct_char :: "char \<Rightarrow> string" where
  "pct_char c = [CHR ''%'', hex_char_upper (code c div 16), hex_char_upper (code c mod 16)]"

definition encode_uri :: "string \<Rightarrow> string" where
  "encode_uri s = concat (map (\<lambda>c. if unreserved c then [c] else pct_char c) s)"

text \<open>The number of leading one bits of a byte says how long its sequence is.\<close>

definition seq_len :: "nat \<Rightarrow> nat" where
  "seq_len b = (if b < 128 then 0 else if b < 192 then 1 else if b < 224 then 2
     else if b < 240 then 3 else if b < 248 then 4 else 5)"

definition cont :: "nat \<Rightarrow> bool" where
  "cont b \<longleftrightarrow> 128 \<le> b \<and> b < 192"

text \<open>The well-formed sequences: no overlong form, no surrogate, nothing above U+10FFFF.\<close>

fun utf8_seq :: "nat list \<Rightarrow> bool" where
  "utf8_seq [a, b] = (194 \<le> a \<and> a < 224 \<and> cont b)"
| "utf8_seq [a, b, c] = (224 \<le> a \<and> a < 240 \<and> cont b \<and> cont c \<and> (a = 224 \<longrightarrow> 160 \<le> b) \<and> (a = 237 \<longrightarrow> b < 160))"
| "utf8_seq [a, b, c, d] = (240 \<le> a \<and> a < 245 \<and> cont b \<and> cont c \<and> cont d \<and> (a = 240 \<longrightarrow> 144 \<le> b) \<and> (a = 244 \<longrightarrow> b < 144))"
| "utf8_seq _ = False"

fun pct_byte :: "string \<Rightarrow> (nat \<times> string) option" where
  "pct_byte (p # a # b # r) = (if p = CHR ''%'' \<and> hex_val a \<noteq> None \<and> hex_val b \<noteq> None
     then Some (16 * hex_digit a + hex_digit b, r) else None)"
| "pct_byte _ = None"

fun pct_bytes :: "nat \<Rightarrow> string \<Rightarrow> (nat list \<times> string) option" where
  "pct_bytes 0 s = Some ([], s)"
| "pct_bytes (Suc n) s = (case pct_byte s of
     None \<Rightarrow> None
   | Some (b, r) \<Rightarrow> (case pct_bytes n r of None \<Rightarrow> None | Some (bs, r') \<Rightarrow> Some (b # bs, r')))"

lemma pct_byte_length: "pct_byte s = Some (b, r) \<Longrightarrow> length s = length r + 3"
  by (induction s rule: pct_byte.induct) (auto split: if_splits)

lemma pct_bytes_length: "pct_bytes n s = Some (bs, r) \<Longrightarrow> length r \<le> length s"
  by (induction n arbitrary: s bs) (auto split: option.splits dest!: pct_byte_length, fastforce)

function decode_uri :: "string \<Rightarrow> string res" where
  "decode_uri s = (case s of
     [] \<Rightarrow> Inr []
   | c # r \<Rightarrow>
      if c \<noteq> CHR ''%'' then rbind (decode_uri r) (\<lambda>t. Inr (c # t))
      else (case pct_byte s of
          None \<Rightarrow> Inl URIErr
        | Some (b, r1) \<Rightarrow>
            if seq_len b = 0 then rbind (decode_uri r1) (\<lambda>t. Inr (char_of b # t))
            else (case pct_bytes (seq_len b - 1) r1 of
                None \<Rightarrow> Inl URIErr
              | Some (bs, r2) \<Rightarrow>
                  if utf8_seq (b # bs) then rbind (decode_uri r2) (\<lambda>t. Inr (map char_of (b # bs) @ t))
                  else Inl URIErr)))"
  by pat_completeness auto
termination
proof (relation "measure length", goal_cases)
  case (4 s c r p b r1 q bs r2)
  then show ?case using pct_byte_length [of s b r1] pct_bytes_length [of "seq_len b - 1" r1 bs r2] by auto
qed (auto dest: pct_byte_length)

declare decode_uri.simps [simp del]

text \<open>Texts that are the UTF-8 of some string.\<close>

function utf8_text :: "string \<Rightarrow> bool" where
  "utf8_text s = (case s of
     [] \<Rightarrow> True
   | c # r \<Rightarrow> (let n = seq_len (code c) in
       if n = 0 then utf8_text r
       else n - 1 \<le> length r \<and> utf8_seq (map code (c # take (n - 1) r)) \<and> utf8_text (drop (n - 1) r)))"
  by pat_completeness auto
termination
  by (relation "measure length") auto

declare utf8_text.simps [simp del]

section \<open>Round trips\<close>

lemma decode_uri_Nil [simp]: "decode_uri [] = Inr []"
  by (simp add: decode_uri.simps)

lemma decode_uri_plain: "c \<noteq> CHR ''%'' \<Longrightarrow> decode_uri (c # r) = rbind (decode_uri r) (\<lambda>t. Inr (c # t))"
  by (subst decode_uri.simps) simp

lemmas decode_uri_other = decode_uri_plain decode_uri_plain [OF not_sym]

lemma decode_uri_id: "CHR ''%'' \<notin> set s \<Longrightarrow> decode_uri s = Inr s"
  by (induction s) (auto simp: decode_uri_plain)

lemma code_less: "code c < 256"
  by (rule nat_of_char_less_256)

lemma less_16: "(n :: nat) < 256 \<Longrightarrow> n div 16 < 16"
  by simp

lemma pct_byte_pct_char: "pct_byte (pct_char c @ r) = Some (code c, r)"
proof -
  have "code c div 16 < 16" by (rule less_16 [OF code_less])
  then show ?thesis by (simp add: pct_char_def hex_digit_def)
qed

lemma pct_bytes_pct_chars: "pct_bytes (length cs) (concat (map pct_char cs) @ r) = Some (map code cs, r)"
proof (induction cs)
  case (Cons c cs)
  have "concat (map pct_char (c # cs)) @ r = pct_char c @ (concat (map pct_char cs) @ r)" by simp
  then show ?case using Cons pct_byte_pct_char [of c "concat (map pct_char cs) @ r"] by simp
qed simp

lemma pct_char_Cons: "pct_char c = CHR ''%'' # tl (pct_char c)"
  by (simp add: pct_char_def)

lemma decode_uri_ascii:
  assumes "seq_len (code c) = 0"
  shows "decode_uri (pct_char c @ r) = rbind (decode_uri r) (\<lambda>t. Inr (c # t))"
  using pct_byte_pct_char [of c r] assms
  by (subst decode_uri.simps) (subst (1 2) pct_char_Cons, simp add: pct_char_def)

lemma decode_uri_seq:
  assumes "seq_len (code c) = Suc (length cs)" and "utf8_seq (map code (c # cs))"
  shows "decode_uri (concat (map pct_char (c # cs)) @ r) = rbind (decode_uri r) (\<lambda>t. Inr (c # cs @ t))"
proof -
  have "pct_byte (pct_char c @ concat (map pct_char cs) @ r) = Some (code c, concat (map pct_char cs) @ r)"
    by (rule pct_byte_pct_char)
  then show ?thesis
    using pct_bytes_pct_chars [of cs r] assms
    by (subst decode_uri.simps) (simp add: pct_char_def comp_def)
qed

lemma unreserved_ascii: "unreserved c \<Longrightarrow> seq_len (code c) = 0 \<and> c \<noteq> CHR ''%''"
  by (auto simp: unreserved_def seq_len_def is_digit_def)

lemma encode_uri_append: "encode_uri (s @ t) = encode_uri s @ encode_uri t"
  by (simp add: encode_uri_def)

lemma encode_uri_high: "\<forall>c \<in> set cs. 128 \<le> code c \<Longrightarrow> encode_uri cs = concat (map pct_char cs)"
  by (induction cs) (auto simp: encode_uri_def seq_len_def dest!: unreserved_ascii split: if_splits)

lemma utf8_seq_high: "utf8_seq bs \<Longrightarrow> \<forall>b \<in> set bs. 128 \<le> b"
  by (induction bs rule: utf8_seq.induct) (auto simp: cont_def)

lemma utf8_seq_length: "utf8_seq (b # bs) \<Longrightarrow> seq_len b = Suc (length bs)"
  by (induction "b # bs" rule: utf8_seq.induct) (auto simp: seq_len_def)

lemma decode_encode: "utf8_text s \<Longrightarrow> decode_uri (encode_uri s) = Inr s"
proof (induction s rule: utf8_text.induct)
  case (1 s)
  show ?case
  proof (cases s)
    case (Cons c r)
    let ?n = "seq_len (code c)"
    show ?thesis
    proof (cases "?n = 0")
      case True
      then have "utf8_text r" using "1.prems" Cons by (subst (asm) utf8_text.simps) (simp add: Let_def)
      with "1.IH"(1) [OF Cons refl True] have ih: "decode_uri (encode_uri r) = Inr r" by simp
      have e: "encode_uri s = (if unreserved c then [c] else pct_char c) @ encode_uri r"
        by (simp add: Cons encode_uri_def)
      show ?thesis
      proof (cases "unreserved c")
        case True
        then show ?thesis using unreserved_ascii [OF True] by (simp add: e decode_uri_plain ih) (simp add: Cons)
      next
        case False
        then show ?thesis using True by (simp add: e decode_uri_ascii ih) (simp add: Cons)
      qed
    next
      case False
      then have *: "?n - 1 \<le> length r" "utf8_seq (map code (c # take (?n - 1) r))" "utf8_text (drop (?n - 1) r)"
        using "1.prems" Cons by (subst (asm) utf8_text.simps, simp add: Let_def)+
      with "1.IH"(2) [OF Cons refl False] have ih: "decode_uri (encode_uri (drop (?n - 1) r)) = Inr (drop (?n - 1) r)"
        by simp
      have s: "s = (c # take (?n - 1) r) @ drop (?n - 1) r" by (simp add: Cons)
      have "encode_uri s = concat (map pct_char (c # take (?n - 1) r)) @ encode_uri (drop (?n - 1) r)"
        using utf8_seq_high [OF *(2)] encode_uri_high [of "c # take (?n - 1) r"] by (subst s) (simp only: encode_uri_append, simp)
      then show ?thesis
        using decode_uri_seq [of c "take (?n - 1) r" "encode_uri (drop (?n - 1) r)"] *(1,2) False ih
        by (simp add: Cons)
    qed
  qed (simp add: encode_uri_def)
qed

lemma encode_uri_chars: "c \<in> set (encode_uri s) \<Longrightarrow> unreserved c \<or> c = CHR ''%''"
proof -
  have h: "d < 16 \<Longrightarrow> unreserved (hex_char_upper d)" for d
    by (auto simp: unreserved_def hex_char_upper_def is_digit_def)
  show "c \<in> set (encode_uri s) \<Longrightarrow> unreserved c \<or> c = CHR ''%''"
    using code_less [THEN less_16] by (auto simp: encode_uri_def pct_char_def h split: if_splits)
qed

end
