(* ===== verification/Route.thy ===== *)
theory Route
  imports Uri
begin

text \<open>
  The hash router of \<open>web/playground.js\<close> (\<open>route\<close>), the links the program builds for
  a receipt, and what the browser makes of a fragment that is assigned to
  \<open>location.hash\<close> (the URL standard's fragment percent-encode set).
\<close>

datatype page = Receipt string | Verify | Lab | Status | MetaMask | Home | RedirectStatus

definition strip_hash :: "string \<Rightarrow> string" where
  "strip_hash s = (case s of [] \<Rightarrow> [] | c # r \<Rightarrow> if c = CHR 0x23 then r else s)"

definition route :: "string \<Rightarrow> page res" where
  "route location_hash =
     (let hash = strip_hash (if location_hash = '''' then ''#/'' else location_hash) in
      if starts_with ''/r/'' hash then rbind (decode_uri (drop 3 hash)) (\<lambda>rid. Inr (Receipt rid))
      else if hash = ''/verify'' then Inr Verify
      else if hash = ''/lab'' then Inr Lab
      else if hash = ''/readiness'' then Inr RedirectStatus
      else if hash = ''/status'' then Inr Status
      else if hash = ''/metamask'' then Inr MetaMask
      else Inr Home)"

text \<open>
  \<open>location.hash = s\<close> and the value read back. A tab or a newline, which the URL parser
  drops, is escaped like the other control characters; the identifiers of the node have none.
\<close>

definition fragment_escaped :: "char \<Rightarrow> bool" where
  "fragment_escaped c \<longleftrightarrow> code c < 33 \<or> 126 < code c \<or> c \<in> {CHR 0x22, CHR ''<'', CHR ''>'', CHR 0x60}"

definition browser_hash :: "string \<Rightarrow> string" where
  "browser_hash s = (let f = strip_hash s in
     if f = '''' then '''' else CHR 0x23 # concat (map (\<lambda>c. if fragment_escaped c then pct_char c else [c]) f))"

text \<open>The hash a sealed run opens and \<open>Copy share link\<close> copies, and the path it loads.\<close>

definition receipt_link :: "string \<Rightarrow> string" where
  "receipt_link rid = ''#/r/'' @ rid"

definition receipt_path :: "string \<Rightarrow> string" where
  "receipt_path rid = ''/api/receipts/'' @ encode_uri rid"

section \<open>Links and pages\<close>

definition frag :: "string \<Rightarrow> string" where
  "frag s = concat (map (\<lambda>c. if fragment_escaped c then pct_char c else [c]) s)"

lemma frag_simps: "frag [] = []" "frag (c # s) = (if fragment_escaped c then pct_char c else [c]) @ frag s"
  "frag (s @ t) = frag s @ frag t"
  by (simp_all add: frag_def)

lemma frag_high: "\<forall>c \<in> set cs. 128 \<le> code c \<Longrightarrow> frag cs = concat (map pct_char cs)"
  by (induction cs) (auto simp: frag_simps fragment_escaped_def)

lemma decode_frag: "utf8_text s \<Longrightarrow> CHR ''%'' \<notin> set s \<Longrightarrow> decode_uri (frag s) = Inr s"
proof (induction s rule: utf8_text.induct)
  case (1 s)
  show ?case
  proof (cases s)
    case (Cons c r)
    let ?n = "seq_len (code c)"
    show ?thesis
    proof (cases "?n = 0")
      case True
      then have "utf8_text r" using "1.prems" Cons by (subst (asm) utf8_text.simps) (simp add: Let_def)
      with "1.IH"(1) [OF Cons refl True] "1.prems" Cons have ih: "decode_uri (frag r) = Inr r" by simp
      show ?thesis
        using True "1.prems"(2) by (simp add: Cons frag_simps decode_uri_ascii decode_uri_other ih)
    next
      case False
      then have *: "?n - 1 \<le> length r" "utf8_seq (map code (c # take (?n - 1) r))" "utf8_text (drop (?n - 1) r)"
        using "1.prems" Cons by (subst (asm) utf8_text.simps, simp add: Let_def)+
      have "CHR ''%'' \<notin> set (drop (?n - 1) r)" using "1.prems"(2) Cons by (auto dest: in_set_dropD)
      with "1.IH"(2) [OF Cons refl False] * have ih: "decode_uri (frag (drop (?n - 1) r)) = Inr (drop (?n - 1) r)"
        by simp
      have s: "s = (c # take (?n - 1) r) @ drop (?n - 1) r" by (simp add: Cons)
      have "frag s = concat (map pct_char (c # take (?n - 1) r)) @ frag (drop (?n - 1) r)"
        using utf8_seq_high [OF *(2)] frag_high [of "c # take (?n - 1) r"]
        by (subst s) (simp only: frag_simps(3), simp)
      then show ?thesis
        using decode_uri_seq [of c "take (?n - 1) r" "frag (drop (?n - 1) r)"] *(1,2) False ih
        by (simp add: Cons)
    qed
  qed (simp add: frag_simps)
qed

lemma route_receipt_link:
  assumes "utf8_text rid" and "CHR ''%'' \<notin> set rid"
  shows "route (browser_hash (receipt_link rid)) = Inr (Receipt rid)"
proof -
  have "browser_hash (receipt_link rid) = ''#/r/'' @ frag rid"
    by (simp add: browser_hash_def receipt_link_def strip_hash_def frag_def fragment_escaped_def)
  then show ?thesis using decode_frag [OF assms] by (simp add: route_def strip_hash_def starts_with_def)
qed

text \<open>C23: The share link of a receipt opens that receipt, and the path requested for it decodes to
its identifier.\<close>

theorem share_link_roundtrip:
  assumes "utf8_text rid" and "CHR ''%'' \<notin> set rid"
  shows "route (browser_hash (receipt_link rid)) = Inr (Receipt rid) \<and>
         decode_uri (drop (length ''/api/receipts/'') (receipt_path rid)) = Inr rid"
  using route_receipt_link [OF assms] decode_encode [OF assms(1)] by (simp add: receipt_path_def)

theorem share_link_roundtrip_witness:
  "route (browser_hash (receipt_link ''rcp 1/2'')) = Inr (Receipt ''rcp 1/2'')"
proof -
  have "utf8_text ''rcp 1/2''" by (simp add: utf8_text.simps seq_len_def)
  from share_link_roundtrip [OF this] show ?thesis by simp
qed

text \<open>
  A link whose escapes are broken makes the router throw: no page is rendered and nothing
  reports it.
\<close>

lemma decode_uri_broken: "CHR ''%'' \<notin> set pre \<Longrightarrow> pct_byte (CHR ''%'' # rest) = None \<Longrightarrow>
    decode_uri (pre @ CHR ''%'' # rest) = Inl URIErr"
proof (induction pre)
  case Nil
  then show ?case by (subst decode_uri.simps) simp
qed (simp add: decode_uri_other)

theorem broken_link_throws:
  assumes "CHR ''%'' \<notin> set pre" and "pct_byte (CHR ''%'' # rest) = None"
  shows "route (''#/r/'' @ pre @ CHR ''%'' # rest) = Inl URIErr"
  using decode_uri_broken [OF assms] by (simp add: route_def strip_hash_def starts_with_def)

theorem broken_link_throws_witness: "route ''#/r/50%'' = Inl URIErr"
  using broken_link_throws [of "''50''" "''''"] by simp

lemma route_pages:
  "route h = Inl e \<Longrightarrow> starts_with ''/r/'' (strip_hash h)"
  "route '''' = Inr Home" "route ''#/'' = Inr Home" "route ''#/lab'' = Inr Lab" "route ''#/verify'' = Inr Verify"
  "route ''#/status'' = Inr Status" "route ''#/metamask'' = Inr MetaMask" "route ''#/readiness'' = Inr RedirectStatus"
  by (auto simp: route_def strip_hash_def starts_with_def Let_def split: if_splits)

end
