(* ===== verification/Spine.thy ===== *)
theory Spine
  imports JsText
begin

text \<open>
  The Run Theater spine of \<open>web/spine.js\<close>: stage colours sampled from the theme's style
  sheet (with the per-theme cache), and the row of stage nodes with its \<open>set\<close> and
  \<open>seal\<close> operations. The computed style of the document comes from a style sheet that is
  not part of the repository, so it is an argument: \<open>css name\<close> is the raw value of the
  custom property \<open>name\<close>. Integers stay below \<open>2^24\<close> here, so the \<open>int\<close> bit
  operations are the engine's 32-bit ones. The nodes are the elements \<open>mountSpine\<close>
  creates, in order; \<open>nodes\<close> is the lookup object, whose entries are positions in that list.
\<close>

section \<open>Stage colours\<close>

datatype stop = One string | Between string string rat

definition STAGE_STOPS :: "(string \<times> stop) list" where
  "STAGE_STOPS = [
     (''intent'', One ''--spine-1''),
     (''plan'', One ''--spine-2''),
     (''policy'', One ''--spine-3''),
     (''approval'', Between ''--spine-3'' ''--spine-4'' (1 / 2)),
     (''credential'', Between ''--spine-4'' ''--spine-5'' (1 / 2)),
     (''outcome'', One ''--spine-5''),
     (''anchor'', One ''--spine-7''),
     (''export'', One ''--accent''),
     (''verify'', One ''--text'')]"

text \<open>\<open>None\<close> stands for an environment where reading the computed style throws.\<close>

type_synonym css = "string \<Rightarrow> string option"

definition css_var :: "css \<Rightarrow> string \<Rightarrow> string" where
  "css_var css name = (case css name of Some v \<Rightarrow> trim v | None \<Rightarrow> '''')"

text \<open>\<open>s.replace('#', '')\<close> removes the first occurrence only.\<close>

definition drop_hash :: "string \<Rightarrow> string" where
  "drop_hash s = remove1 (CHR 0x23) s"

text \<open>\<open>parseInt(s, 16)\<close>: white space, sign, optional 0x, then the longest run of digits.\<close>

definition parse_int16 :: "string \<Rightarrow> int option" where
  "parse_int16 s0 =
     (let s = dropWhile is_space s0;
          neg = (s \<noteq> [] \<and> hd s = CHR ''-'');
          u = (if s \<noteq> [] \<and> (hd s = CHR ''-'' \<or> hd s = CHR ''+'') then tl s else s);
          d = (if starts_with ''0x'' u \<or> starts_with ''0X'' u then drop 2 u else u);
          h = takeWhile (\<lambda>c. hex_val c \<noteq> None) d
      in if h = [] then None else Some (if neg then - int (hex_num h) else int (hex_num h)))"

definition hex_to_rgb :: "string \<Rightarrow> (int \<times> int \<times> int) option" where
  "hex_to_rgb h0 =
     (let h1 = trim (drop_hash h0);
          h = (if length h1 = 3 then concat (map (\<lambda>c. [c, c]) h1) else h1)
      in if length h < 6 then None
         else (case parse_int16 (take 6 h) of
                 None \<Rightarrow> None
               | Some n \<Rightarrow> Some (drop_bit 16 n AND 255, drop_bit 8 n AND 255, n AND 255)))"

text \<open>\<open>Math.round(v + (b - v) * t)\<close>\<close>

definition mix1 :: "int \<Rightarrow> int \<Rightarrow> rat \<Rightarrow> int" where
  "mix1 v b t = \<lfloor>of_int v + of_int (b - v) * t + 1 / 2\<rfloor>"

fun mix :: "int \<times> int \<times> int \<Rightarrow> int \<times> int \<times> int \<Rightarrow> rat \<Rightarrow> int \<times> int \<times> int" where
  "mix (a1, a2, a3) (b1, b2, b3) t = (mix1 a1 b1 t, mix1 a2 b2 t, mix1 a3 b3 t)"

fun rgb_text :: "int \<times> int \<times> int \<Rightarrow> string" where
  "rgb_text (r, g, b) = ''rgb('' @ join '','' [int_str r, int_str g, int_str b] @ '')''"

text \<open>
  What \<open>stageColor\<close> computes for a key it has not cached. A key that plain objects inherit
  finds a value that is no stop list: \<open>cssVar\<close> of its missing first element is empty.
\<close>

definition fresh_color :: "css \<Rightarrow> string \<Rightarrow> string" where
  "fresh_color css key =
     (case map_of STAGE_STOPS key of
        None \<Rightarrow> ''var(--accent)''
      | Some (One v) \<Rightarrow>
          (case hex_to_rgb (css_var css v) of
             Some a \<Rightarrow> rgb_text a
           | None \<Rightarrow> if css_var css v = '''' then ''var(--accent)'' else css_var css v)
      | Some (Between v w t) \<Rightarrow>
          (case hex_to_rgb (css_var css v) of
             Some a \<Rightarrow> (case hex_to_rgb (css_var css w) of
                          Some b \<Rightarrow> rgb_text (mix a b t) | None \<Rightarrow> rgb_text a)
           | None \<Rightarrow> if css_var css v = '''' then ''var(--accent)'' else css_var css v))"

type_synonym color_cache = "(string \<times> string) list"

definition cache_key :: "string option \<Rightarrow> string \<Rightarrow> string" where
  "cache_key theme key = (case theme of Some t \<Rightarrow> (if t = '''' then ''dark'' else t) | None \<Rightarrow> ''dark'') @ '':'' @ key"

definition stage_color :: "css \<Rightarrow> string option \<Rightarrow> string \<Rightarrow> color_cache \<Rightarrow> string \<times> color_cache" where
  "stage_color css theme key cache =
     (let ck = cache_key theme key in
      case map_of cache ck of
        Some c \<Rightarrow> (c, cache)
      | None \<Rightarrow> (let out = fresh_color css key in (out, AList.update ck out cache)))"

section \<open>The spine\<close>

record spine_step =
  s_key :: jsval
  s_label :: jsval
  s_color :: jsval

record spine_node =
  n_key :: string
  n_label :: string
  n_color :: string
  n_state :: string
  n_hash :: string

datatype animation = DotPulse nat | NodeShake nat

record spine =
  sp_nodes :: "spine_node list"
  sp_index :: "(string \<times> nat) list"
  sp_reduce :: bool
  sp_can_animate :: bool
  sp_animations :: "animation list"
  sp_sealing :: bool
  sp_sealed :: bool

text \<open>\<open>e.textContent = v\<close>: an absent value clears the text.\<close>

definition to_text :: "jsval \<Rightarrow> string res" where
  "to_text v = (if nullish v then Inr '''' else to_str v)"

definition mount_node :: "spine_step \<Rightarrow> spine_node res" where
  "mount_node s =
     rbind (to_str (s_key s)) (\<lambda>k.
     rbind (to_str (js_or (s_color s) (JStr ''var(--accent)''))) (\<lambda>c.
     rbind (to_text (s_label s)) (\<lambda>l.
     Inr \<lparr>n_key = k, n_label = l, n_color = c, n_state = ''pending'', n_hash = ''''\<rparr>)))"

definition index_nodes :: "spine_node list \<Rightarrow> (string \<times> nat) list" where
  "index_nodes ns = fold (\<lambda>i. AList.update (n_key (ns ! i)) i) [0..<length ns] []"

definition mount_spine :: "spine_step list \<Rightarrow> bool \<Rightarrow> bool \<Rightarrow> spine res" where
  "mount_spine steps reduce can_animate =
     rbind (rmapM mount_node steps) (\<lambda>ns.
     Inr \<lparr>sp_nodes = ns, sp_index = index_nodes ns, sp_reduce = reduce,
          sp_can_animate = can_animate, sp_animations = [], sp_sealing = False, sp_sealed = False\<rparr>)"

text \<open>
  \<open>nodes[key]\<close>: an own entry, or a member every object inherits, on which the first access
  of \<open>set\<close> throws.
\<close>

definition spine_set :: "spine \<Rightarrow> jsval \<Rightarrow> jsval \<Rightarrow> jsval \<Rightarrow> spine res" where
  "spine_set sp key state hash_text =
     rbind (to_str key) (\<lambda>k.
     case map_of (sp_index sp) k of
       None \<Rightarrow> (if truthy (proto_member k) then Inl TypeErr else Inr sp)
     | Some i \<Rightarrow>
         rbind (to_str state) (\<lambda>st.
         rbind (if truthy hash_text then to_str hash_text else Inr (n_hash (sp_nodes sp ! i))) (\<lambda>h.
         let sp1 = sp\<lparr>sp_nodes := (sp_nodes sp)[i := (sp_nodes sp ! i)\<lparr>n_state := st, n_hash := h\<rparr>]\<rparr> in
         Inr (if sp_reduce sp then sp1
              else if state = JStr ''complete'' \<and> sp_can_animate sp
                then sp1\<lparr>sp_animations := sp_animations sp @ [DotPulse i]\<rparr>
              else if state = JStr ''failed'' \<and> sp_can_animate sp
                then sp1\<lparr>sp_animations := sp_animations sp @ [NodeShake i]\<rparr>
              else sp1))))"

text \<open>
  \<open>seal()\<close> up to its promise, and the timer that resolves it when motion is allowed; the
  boolean says whether the promise is resolved at once.
\<close>

definition spine_seal :: "spine \<Rightarrow> bool \<times> spine" where
  "spine_seal sp = (if sp_reduce sp then (True, sp\<lparr>sp_sealed := True\<rparr>)
                    else (False, sp\<lparr>sp_sealing := True\<rparr>))"

definition spine_seal_timer :: "spine \<Rightarrow> spine" where
  "spine_seal_timer sp = sp\<lparr>sp_sealed := True\<rparr>"

definition spine_node_at :: "spine \<Rightarrow> string \<Rightarrow> spine_node option" where
  "spine_node_at sp k = map_option (\<lambda>i. sp_nodes sp ! i) (map_of (sp_index sp) k)"

definition spine_keys :: "spine \<Rightarrow> string list" where
  "spine_keys sp = map fst (sp_index sp)"

section \<open>Colours\<close>

lemma and_255_bounds: "0 \<le> (n :: int) AND 255" "(n :: int) AND 255 \<le> 255"
  by simp_all

lemma and_255_mod: "(n :: int) AND 255 = n mod 256"
proof -
  have "(255 :: int) = mask 8" by (simp add: mask_eq_exp_minus_1)
  then have "n AND 255 = take_bit 8 n" by (simp add: take_bit_eq_mask)
  then show ?thesis by (simp add: take_bit_eq_mod)
qed

definition channel :: "int \<Rightarrow> bool" where
  "channel n \<longleftrightarrow> 0 \<le> n \<and> n \<le> 255"

fun channels :: "int \<times> int \<times> int \<Rightarrow> bool" where
  "channels (r, g, b) = (channel r \<and> channel g \<and> channel b)"

lemma hex_to_rgb_channels: "hex_to_rgb h = Some c \<Longrightarrow> channels c"
  by (auto simp: hex_to_rgb_def Let_def channel_def and_255_bounds split: option.splits if_splits)

definition hex2 :: "nat \<Rightarrow> string" where
  "hex2 n = [hex_char (n div 16), hex_char (n mod 16)]"

lemma hex_digit_hex_char [simp]: "d < 16 \<Longrightarrow> hex_digit (hex_char d) = d"
  by (simp add: hex_digit_def)

lemma hex_char_not: "d < 16 \<Longrightarrow> \<not> is_space (hex_char d) \<and> hex_char d \<notin> {CHR 0x23, CHR ''-'', CHR ''+'', CHR ''x'', CHR ''X''}"
proof -
  assume d: "d < 16"
  have h: "hex_val (hex_char d) \<noteq> None" using d by simp
  have "hex_val (CHR 0x23) = None" "hex_val (CHR ''-'') = None" "hex_val (CHR ''+'') = None"
    "hex_val (CHR ''x'') = None" "hex_val (CHR ''X'') = None" by (simp_all add: hex_val_def)
  with h have "hex_char d \<notin> {CHR 0x23, CHR ''-'', CHR ''+'', CHR ''x'', CHR ''X''}" by auto
  moreover have "\<not> is_space (hex_char d)"
    using d by (auto simp: is_space_def hex_char_def)
  ultimately show ?thesis by blast
qed

lemma parse_int16_digits:
  assumes "\<forall>d \<in> set ds. d < 16" and "2 \<le> length ds"
  shows "parse_int16 (map hex_char ds) = Some (int (hex_num (map hex_char ds)))"
proof -
  obtain a b r where ds: "ds = a # b # r" using assms(2) by (cases ds; cases "tl ds") auto
  have all: "\<forall>c \<in> set (map hex_char ds). hex_val c \<noteq> None" using assms(1) by auto
  have "takeWhile (\<lambda>c. hex_val c \<noteq> None) (map hex_char ds) = map hex_char ds"
    using all by simp
  moreover have "dropWhile is_space (map hex_char ds) = map hex_char ds"
    using ds hex_char_not [of a] assms(1) by simp
  moreover have "hd (map hex_char ds) \<noteq> CHR ''-''" "hd (map hex_char ds) \<noteq> CHR ''+''"
    using ds hex_char_not [of a] assms(1) by auto
  moreover have "\<not> starts_with ''0x'' (map hex_char ds)" "\<not> starts_with ''0X'' (map hex_char ds)"
    using ds hex_char_not [of b] assms(1) by (auto simp: starts_with_def)
  ultimately show ?thesis using ds by (simp add: parse_int16_def Let_def)
qed

lemma split_rgb:
  fixes r g b :: int
  assumes "0 \<le> r" "r < 256" "0 \<le> g" "g < 256" "0 \<le> b" "b < 256"
  shows "(65536 * r + 256 * g + b) div 65536 = r"
    and "(65536 * r + 256 * g + b) div 256 mod 256 = g"
    and "(65536 * r + 256 * g + b) mod 256 = b"
proof -
  have x: "(65536 * r + 256 * g + b) div 256 = 256 * r + g"
    using assms div_mult_self4 [of 256 b "256 * r + g"] by (simp add: algebra_simps)
  then show "(65536 * r + 256 * g + b) div 256 mod 256 = g"
    using assms mod_mult_self4 [of 256 r g] by (simp add: algebra_simps)
  have "(65536 * r + 256 * g + b) div 65536 = (65536 * r + 256 * g + b) div 256 div 256"
    by (simp add: div_mult2_eq [symmetric])
  then show "(65536 * r + 256 * g + b) div 65536 = r"
    using assms div_mult_self4 [of 256 g r] unfolding x by (simp add: algebra_simps)
  show "(65536 * r + 256 * g + b) mod 256 = b"
    using assms mod_mult_self4 [of 256 "256 * r + g" b] by (simp add: algebra_simps)
qed

lemma hex_to_rgb_roundtrip:
  assumes "r < 256" and "g < 256" and "b < 256"
  shows "hex_to_rgb (CHR 0x23 # hex2 r @ hex2 g @ hex2 b) = Some (int r, int g, int b)"
proof -
  let ?ds = "[r div 16, r mod 16, g div 16, g mod 16, b div 16, b mod 16]"
  let ?h = "map hex_char ?ds"
  have ds: "\<forall>d \<in> set ?ds. d < 16" using assms by auto
  have h: "CHR 0x23 # hex2 r @ hex2 g @ hex2 b = CHR 0x23 # ?h" by (simp add: hex2_def)
  have "trim (drop_hash (CHR 0x23 # ?h)) = ?h"
    using ds hex_char_not by (simp add: drop_hash_def trim_id)
  moreover have "hex_num ?h = 65536 * r + 256 * g + b"
    using ds by (simp add: hex_num_def)
  moreover have "parse_int16 ?h = Some (int (hex_num ?h))"
    by (rule parse_int16_digits [OF ds]) simp
  ultimately have "hex_to_rgb (CHR 0x23 # ?h) =
      Some (drop_bit 16 (int (65536 * r + 256 * g + b)) AND 255, drop_bit 8 (int (65536 * r + 256 * g + b)) AND 255,
            int (65536 * r + 256 * g + b) AND 255)"
    by (simp add: hex_to_rgb_def Let_def)
  moreover have "int (65536 * r + 256 * g + b) = 65536 * int r + 256 * int g + int b" by simp
  moreover have "int r mod 256 = int r" using assms by simp
  ultimately show ?thesis
    unfolding h using assms split_rgb [of "int r" "int g" "int b"]
    by (simp only: and_255_mod drop_bit_eq_div) simp
qed

lemma mix1_bounds:
  assumes "0 \<le> t" and "t \<le> 1" and "lo \<le> v" "v \<le> hi" "lo \<le> b" "b \<le> hi"
  shows "lo \<le> mix1 v b t \<and> mix1 v b t \<le> hi"
proof -
  let ?x = "of_int v + of_int (b - v) * t :: rat"
  have x: "?x = of_int v * (1 - t) + of_int b * t" by (simp add: algebra_simps)
  have lo: "of_int lo \<le> ?x"
  proof -
    have "of_int lo * (1 - t) + of_int lo * t \<le> of_int v * (1 - t) + of_int b * t"
      using assms by (intro add_mono mult_right_mono) simp_all
    then show ?thesis unfolding x by (simp add: algebra_simps)
  qed
  have hi: "?x \<le> of_int hi"
  proof -
    have "of_int v * (1 - t) + of_int b * t \<le> of_int hi * (1 - t) + of_int hi * t"
      using assms by (intro add_mono mult_right_mono) simp_all
    then show ?thesis unfolding x by (simp add: algebra_simps)
  qed
  have "lo \<le> \<lfloor>?x + 1 / 2\<rfloor>" using lo by (simp add: le_floor_iff)
  moreover have "\<lfloor>?x + 1 / 2\<rfloor> \<le> hi" using hi by (simp add: floor_le_iff)
  ultimately show ?thesis by (simp add: mix1_def)
qed

theorem solid_stage_color:
  assumes "map_of STAGE_STOPS key = Some (One v)"
    and "css_var css v = CHR 0x23 # hex2 r @ hex2 g @ hex2 b" and "r < 256" "g < 256" "b < 256"
  shows "fresh_color css key = ''rgb('' @ join '','' [nat_str r, nat_str g, nat_str b] @ '')''"
  using assms hex_to_rgb_roundtrip [of r g b] by (simp add: fresh_color_def int_str_def)

definition sample_css :: css where
  "sample_css v = (if v = ''--spine-3'' then Some '' #204060 '' else if v = ''--spine-4'' then Some ''#ffffff'' else None)"

lemma sample_css_3: "css_var sample_css ''--spine-3'' = CHR 0x23 # hex2 32 @ hex2 64 @ hex2 96"
  by code_simp

lemma sample_css_4: "css_var sample_css ''--spine-4'' = CHR 0x23 # hex2 255 @ hex2 255 @ hex2 255"
  by code_simp

lemma solid_stage_color_witness:
  "fresh_color sample_css ''policy'' = ''rgb('' @ join '','' [nat_str 32, nat_str 64, nat_str 96] @ '')''"
  by (rule solid_stage_color [of _ "''--spine-3''"]) (simp_all add: STAGE_STOPS_def sample_css_3)

fun between :: "int \<times> int \<times> int \<Rightarrow> int \<times> int \<times> int \<Rightarrow> int \<times> int \<times> int \<Rightarrow> bool" where
  "between (a1, a2, a3) (b1, b2, b3) (c1, c2, c3) =
     (min a1 b1 \<le> c1 \<and> c1 \<le> max a1 b1 \<and> min a2 b2 \<le> c2 \<and> c2 \<le> max a2 b2 \<and> min a3 b3 \<le> c3 \<and> c3 \<le> max a3 b3)"

lemma mix_between: "0 \<le> t \<Longrightarrow> t \<le> 1 \<Longrightarrow> between a b (mix a b t)"
  using mix1_bounds [of t "min (v :: int) w" v "max v w" w for v w] by (cases a; cases b) simp

lemma between_channels: "channels a \<Longrightarrow> channels b \<Longrightarrow> between a b c \<Longrightarrow> channels c"
  by (cases a; cases b; cases c) (auto simp: channel_def)

lemma STAGE_STOPS_Between: "map_of STAGE_STOPS key = Some (Between v w t) \<Longrightarrow> t = 1 / 2"
  by (auto simp: STAGE_STOPS_def split: if_splits)

text \<open>C32: A stage between two gradient stops gets a colour whose channels are bytes between those of
the stops.\<close>

theorem interpolated_stage_color:
  assumes "map_of STAGE_STOPS key = Some (Between v w t)"
    and "hex_to_rgb (css_var css v) = Some a" and "hex_to_rgb (css_var css w) = Some b"
  shows "\<exists>c. fresh_color css key = rgb_text c \<and> channels c \<and> between a b c"
proof (intro exI conjI)
  have t: "t = 1 / 2" by (rule STAGE_STOPS_Between [OF assms(1)])
  show "fresh_color css key = rgb_text (mix a b t)" using assms by (simp add: fresh_color_def)
  show "between a b (mix a b t)" by (rule mix_between) (simp_all add: t)
  then show "channels (mix a b t)"
    using assms(2,3) by (blast intro: between_channels hex_to_rgb_channels)
qed

lemma interpolated_stage_color_witness:
  "\<exists>c. fresh_color sample_css ''approval'' = rgb_text c \<and> channels c \<and> between (32, 64, 96) (255, 255, 255) c"
  by (rule interpolated_stage_color [of _ "''--spine-3''" "''--spine-4''" "1 / 2"])
    (simp_all add: STAGE_STOPS_def sample_css_3 sample_css_4 hex_to_rgb_roundtrip)

text \<open>
  The cache agrees with the style sheet of each theme, as long as the sheet of a theme does
  not change: a theme switch never shows a colour of the old theme.
\<close>

definition plain_theme :: "string option \<Rightarrow> bool" where
  "plain_theme t \<longleftrightarrow> (case t of None \<Rightarrow> True | Some s \<Rightarrow> CHR '':'' \<notin> set s)"

definition theme_name :: "string option \<Rightarrow> string" where
  "theme_name t = (case t of Some s \<Rightarrow> (if s = '''' then ''dark'' else s) | None \<Rightarrow> ''dark'')"

definition coherent :: "(string \<Rightarrow> css) \<Rightarrow> color_cache \<Rightarrow> bool" where
  "coherent sheet cache \<longleftrightarrow>
     (\<forall>t key c. plain_theme t \<longrightarrow> map_of cache (cache_key t key) = Some c \<longrightarrow>
                c = fresh_color (sheet (theme_name t)) key)"

lemma append_colon_eq:
  "CHR '':'' \<notin> set a \<Longrightarrow> CHR '':'' \<notin> set b \<Longrightarrow> a @ CHR '':'' # x = b @ CHR '':'' # y \<longleftrightarrow> a = b \<and> x = y"
  by (induction a arbitrary: b) (case_tac b; auto)+

lemma cache_key_inj:
  assumes "plain_theme s" and "plain_theme t"
  shows "cache_key s k = cache_key t l \<longleftrightarrow> theme_name s = theme_name t \<and> k = l"
proof -
  have n: "CHR '':'' \<notin> set (theme_name u)" if "plain_theme u" for u
    using that by (auto simp: plain_theme_def theme_name_def split: option.splits)
  show ?thesis
    using append_colon_eq [OF n [OF assms(1)] n [OF assms(2)], of k l]
    by (simp add: cache_key_def theme_name_def)
qed

text \<open>C26: The colour cache stays coherent with the style sheet of every theme, so a theme switch
never shows a colour of the other theme.\<close>

theorem stage_color_coherent:
  assumes "coherent sheet cache" and "plain_theme theme"
  shows "fst (stage_color (sheet (theme_name theme)) theme key cache) = fresh_color (sheet (theme_name theme)) key
       \<and> coherent sheet (snd (stage_color (sheet (theme_name theme)) theme key cache))"
proof (cases "map_of cache (cache_key theme key)")
  case (Some c)
  with assms show ?thesis by (auto simp: stage_color_def coherent_def)
next
  case None
  have "coherent sheet (AList.update (cache_key theme key) (fresh_color (sheet (theme_name theme)) key) cache)"
    using assms by (auto simp: coherent_def cache_key_inj split: if_splits)
  with None show ?thesis by (simp add: stage_color_def Let_def)
qed

lemma stage_color_coherent_witness:
  "fst (stage_color sample_css (Some ''light'') ''verify'' []) = fresh_color sample_css ''verify''"
  using stage_color_coherent [of "\<lambda>_. sample_css" "[]" "Some ''light''" "''verify''"]
  by (simp add: coherent_def plain_theme_def)

section \<open>The spine's nodes\<close>

definition spine_inv :: "spine \<Rightarrow> bool" where
  "spine_inv sp \<longleftrightarrow>
     (\<forall>k i. map_of (sp_index sp) k = Some i \<longrightarrow> i < length (sp_nodes sp) \<and> n_key (sp_nodes sp ! i) = k) \<and>
     (sp_reduce sp \<longrightarrow> sp_animations sp = [])"

lemma index_nodes_upto:
  "map_of (fold (\<lambda>i. AList.update (n_key (ns ! i)) i) [0..<m] []) k = Some i \<Longrightarrow> i < m \<and> n_key (ns ! i) = k"
  by (induction m) (auto split: if_splits)

lemma index_nodes_dom:
  "j < m \<Longrightarrow> map_of (fold (\<lambda>i. AList.update (n_key (ns ! i)) i) [0..<m] []) (n_key (ns ! j)) \<noteq> None"
  by (induction m) (auto simp: less_Suc_eq)

lemma index_nodes_Some: "map_of (index_nodes ns) k = Some i \<Longrightarrow> i < length ns \<and> n_key (ns ! i) = k"
  unfolding index_nodes_def by (rule index_nodes_upto)

lemma index_nodes_total: "k \<in> n_key ` set ns \<Longrightarrow> \<exists>i. map_of (index_nodes ns) k = Some i"
  using index_nodes_dom [of _ "length ns" ns] by (auto simp: index_nodes_def in_set_conv_nth)

lemma mount_spine_inv: "mount_spine steps reduce anim = Inr sp \<Longrightarrow> spine_inv sp"
  by (auto simp: mount_spine_def rbind_eq_Inr spine_inv_def dest: index_nodes_Some)

lemma mount_node_pending: "mount_node s = Inr n \<Longrightarrow> n_state n = ''pending'' \<and> n_hash n = '''' \<and> to_str (s_key s) = Inr (n_key n)"
  by (auto simp: mount_node_def rbind_eq_Inr)

lemma spine_set_Inr:
  assumes "spine_set sp key state h = Inr sp'"
  obtains k where "to_str key = Inr k" and "map_of (sp_index sp) k = None" and "sp' = sp"
  | k i st ht where "to_str key = Inr k" and "map_of (sp_index sp) k = Some i" and "to_str state = Inr st"
    and "truthy h \<Longrightarrow> to_str h = Inr ht" and "\<not> truthy h \<Longrightarrow> ht = n_hash (sp_nodes sp ! i)"
    and "sp_nodes sp' = (sp_nodes sp)[i := (sp_nodes sp ! i)\<lparr>n_state := st, n_hash := ht\<rparr>]"
    and "sp_index sp' = sp_index sp" and "sp_reduce sp' = sp_reduce sp"
    and "sp_reduce sp \<Longrightarrow> sp_animations sp' = sp_animations sp"
    and "sp_sealed sp' = sp_sealed sp" and "sp_sealing sp' = sp_sealing sp"
proof -
  from assms obtain k where k: "to_str key = Inr k" by (auto simp: spine_set_def rbind_eq_Inr)
  show thesis
  proof (cases "map_of (sp_index sp) k")
    case None
    with assms k that(1) show thesis by (auto simp: spine_set_def split: if_splits)
  next
    case (Some i)
    with assms k obtain st ht where "to_str state = Inr st"
      "(if truthy h then to_str h else Inr (n_hash (sp_nodes sp ! i))) = Inr ht"
      by (auto simp: spine_set_def rbind_eq_Inr)
    note * = this
    have sp': "sp' = (let sp1 = sp\<lparr>sp_nodes := (sp_nodes sp)[i := (sp_nodes sp ! i)\<lparr>n_state := st, n_hash := ht\<rparr>]\<rparr> in
         if sp_reduce sp then sp1
              else if state = JStr ''complete'' \<and> sp_can_animate sp
                then sp1\<lparr>sp_animations := sp_animations sp @ [DotPulse i]\<rparr>
              else if state = JStr ''failed'' \<and> sp_can_animate sp
                then sp1\<lparr>sp_animations := sp_animations sp @ [NodeShake i]\<rparr>
              else sp1)"
      using assms k Some * by (simp add: spine_set_def Let_def)
    show thesis
      by (rule that(2) [OF k Some *(1)]) (use *(2) in \<open>auto simp: sp' Let_def split: if_splits\<close>)
  qed
qed

lemma spine_set_inv: "spine_inv sp \<Longrightarrow> spine_set sp key state h = Inr sp' \<Longrightarrow> spine_inv sp'"
  by (erule spine_set_Inr) (auto simp: spine_inv_def nth_list_update)

text \<open>The hash text of a node after a \<open>set\<close> with this third argument.\<close>

definition hash_after :: "jsval \<Rightarrow> string \<Rightarrow> string" where
  "hash_after h old = (if truthy h then case to_str h of Inr s \<Rightarrow> s | Inl _ \<Rightarrow> old else old)"

lemma hash_after_simps [simp]: "hash_after JUndef old = old" "hash_after (JStr s) old = (if s = '''' then old else s)"
  by (simp_all add: hash_after_def)

lemma spine_set_at:
  assumes "spine_inv sp" and "spine_set sp (JStr k) (JStr st) h = Inr sp'"
  shows "spine_node_at sp' k' = (if k' = k
           then map_option (\<lambda>n. n\<lparr>n_state := st, n_hash := hash_after h (n_hash n)\<rparr>) (spine_node_at sp k)
           else spine_node_at sp k') \<and>
         sp_index sp' = sp_index sp \<and> sp_reduce sp' = sp_reduce sp"
  using assms(2)
proof (rule spine_set_Inr)
  fix k1 assume "to_str (JStr k) = Inr k1" "map_of (sp_index sp) k1 = None" "sp' = sp"
  then show ?thesis by (simp add: spine_node_at_def)
next
  fix k1 i st' ht
  assume a: "to_str (JStr k) = Inr k1" "map_of (sp_index sp) k1 = Some i" "to_str (JStr st) = Inr st'"
    "truthy h \<Longrightarrow> to_str h = Inr ht" "\<not> truthy h \<Longrightarrow> ht = n_hash (sp_nodes sp ! i)"
    "sp_nodes sp' = (sp_nodes sp)[i := (sp_nodes sp ! i)\<lparr>n_state := st', n_hash := ht\<rparr>]"
    "sp_index sp' = sp_index sp" "sp_reduce sp' = sp_reduce sp"
  have inv: "map_of (sp_index sp) k' = Some j \<Longrightarrow> j < length (sp_nodes sp) \<and> n_key (sp_nodes sp ! j) = k'" for k' j
    using assms(1) by (simp add: spine_inv_def)
  have ht: "ht = hash_after h (n_hash (sp_nodes sp ! i))"
    using a(4,5) by (auto simp: hash_after_def)
  show ?thesis
  proof (cases "k' = k")
    case True
    then show ?thesis using a inv [of k i] ht by (simp add: spine_node_at_def)
  next
    case False
    then have "map_of (sp_index sp) k' \<noteq> Some i" using a(1,2) inv [of k i] inv [of k' i] by auto
    then show ?thesis using a False by (cases "map_of (sp_index sp) k'") (simp_all add: spine_node_at_def)
  qed
qed

lemma spine_set_ok:
  assumes "map_of (sp_index sp) k \<noteq> None \<or> \<not> truthy (proto_member k)" and "h = JUndef \<or> is_str h"
  shows "\<exists>sp'. spine_set sp (JStr k) (JStr st) h = Inr sp'"
  using assms by (auto simp: spine_set_def Let_def is_str_iff split: option.splits)

text \<open>C25: Setting the state of a stage changes that node alone, writes the hash it is given and keeps
the old one when it is given none (undefined, null or empty), and animates nothing under reduced
motion.\<close>

theorem spine_set_exact:
  assumes "spine_inv sp" and "spine_set sp (JStr k) (JStr st) h = Inr sp'" and "spine_node_at sp k = Some n"
  shows "\<exists>ht. (if truthy h then to_str h = Inr ht else ht = n_hash n) \<and>
           spine_node_at sp' k = Some (n\<lparr>n_state := st, n_hash := ht\<rparr>) \<and>
         (\<forall>k'. k' \<noteq> k \<longrightarrow> spine_node_at sp' k' = spine_node_at sp k') \<and>
         (sp_reduce sp \<longrightarrow> sp_animations sp' = [])"
proof -
  have "\<exists>ht. to_str h = Inr ht" if "truthy h"
    using assms(2,3) that by (auto simp: spine_set_def spine_node_at_def rbind_eq_Inr split: option.splits)
  then have "if truthy h then to_str h = Inr (hash_after h (n_hash n)) else hash_after h (n_hash n) = n_hash n"
    by (auto simp: hash_after_def)
  then show ?thesis
    using assms(3) spine_set_at [OF assms(1,2)] spine_set_inv [OF assms(1,2)]
    by (intro exI [of _ "hash_after h (n_hash n)"]) (simp add: spine_inv_def)
qed

lemma spine_set_exact_witness:
  "\<exists>sp sp1 sp2 n. spine_set sp (JStr ''plan'') (JStr ''complete'') (JStr ''ab'') = Inr sp1 \<and>
     spine_node_at sp1 ''plan'' = Some (n\<lparr>n_state := ''complete'', n_hash := ''ab''\<rparr>) \<and>
     spine_set sp (JStr ''plan'') (JStr ''running'') JUndef = Inr sp2 \<and>
     spine_node_at sp2 ''plan'' = Some (n\<lparr>n_state := ''running''\<rparr>)"
proof -
  let ?m = "mount_spine [\<lparr>s_key = JStr ''plan'', s_label = JStr ''Plan'', s_color = JUndef\<rparr>] True True"
  obtain sp where sp: "?m = Inr sp" by (simp add: mount_spine_def mount_node_def to_text_def js_or_def)
  obtain sp1 sp2 where s: "spine_set sp (JStr ''plan'') (JStr ''complete'') (JStr ''ab'') = Inr sp1"
    "spine_set sp (JStr ''plan'') (JStr ''running'') JUndef = Inr sp2"
    using sp by (auto simp: mount_spine_def mount_node_def to_text_def js_or_def spine_set_def index_nodes_def)
  obtain n where n: "spine_node_at sp ''plan'' = Some n"
    using sp by (auto simp: mount_spine_def mount_node_def to_text_def js_or_def spine_node_at_def index_nodes_def)
  show ?thesis
    using spine_set_exact [OF mount_spine_inv [OF sp] s(1) n] spine_set_exact [OF mount_spine_inv [OF sp] s(2) n] s
    by (intro exI [of _ sp] exI [of _ sp1] exI [of _ sp2] exI [of _ n]) auto
qed

end
