(* ===== verification/Channel.thy ===== *)
theory Channel
  imports Prelude
begin

text \<open>
  The asynchronous queue between the event source and the Run Theater's loop
  (\<open>makeChannel\<close> of \<open>web/playground.js\<close>), and the interface the loop relies on: what
  has been delivered followed by what is still queued is what was pushed, in order, and a
  consumer never waits while something is queued. A promise is a number (the count of
  \<open>next\<close> calls before it), and \<open>c_settled\<close> lists the promises resolved so far with
  their values, in the order they were resolved.
\<close>

section \<open>The interface\<close>

locale fifo =
  fixes ready :: "'q \<Rightarrow> bool"
    and make :: 'q
    and push :: "'a \<Rightarrow> 'q \<Rightarrow> 'q"
    and "next" :: "'q \<Rightarrow> 'q"
    and delivered :: "'q \<Rightarrow> 'a list"
    and queued :: "'q \<Rightarrow> 'a list"
    and waiting :: "'q \<Rightarrow> bool"
  assumes ready_make: "ready make"
    and make_empty: "delivered make = [] \<and> queued make = [] \<and> \<not> waiting make"
    and ready_push: "ready q \<Longrightarrow> ready (push x q)"
    and push_contents: "ready q \<Longrightarrow> delivered (push x q) @ queued (push x q) = delivered q @ queued q @ [x]"
    and push_answers: "ready q \<Longrightarrow> waiting q \<Longrightarrow> \<not> waiting (push x q) \<and> queued (push x q) = []"
    and push_keeps: "ready q \<Longrightarrow> \<not> waiting q \<Longrightarrow> \<not> waiting (push x q) \<and> delivered (push x q) = delivered q"
    and ready_next: "ready q \<Longrightarrow> \<not> waiting q \<Longrightarrow> ready (next q)"
    and next_queued: "ready q \<Longrightarrow> \<not> waiting q \<Longrightarrow> queued q = x # xs \<Longrightarrow>
      \<not> waiting (next q) \<and> delivered (next q) = delivered q @ [x] \<and> queued (next q) = xs"
    and next_empty: "ready q \<Longrightarrow> \<not> waiting q \<Longrightarrow> queued q = [] \<Longrightarrow>
      waiting (next q) \<and> delivered (next q) = delivered q \<and> queued (next q) = []"
    and waiting_empty: "ready q \<Longrightarrow> waiting q \<Longrightarrow> queued q = []"
begin

lemma next_contents:
  "ready q \<Longrightarrow> \<not> waiting q \<Longrightarrow> delivered (next q) @ queued (next q) = delivered q @ queued q"
  by (cases "queued q") (simp_all add: next_queued next_empty)

lemma pushes:
  "ready q \<Longrightarrow> ready (fold push xs q) \<and>
     delivered (fold push xs q) @ queued (fold push xs q) = delivered q @ queued q @ xs"
proof (induction xs arbitrary: q)
  case (Cons x xs)
  then have "ready (push x q)" by (simp add: ready_push)
  from Cons.IH [OF this] Cons.prems show ?case using push_contents [of q x] by simp
qed simp

lemma pushes_keep:
  "ready q \<Longrightarrow> \<not> waiting q \<Longrightarrow> \<not> waiting (fold push xs q) \<and> delivered (fold push xs q) = delivered q"
  by (induction xs arbitrary: q) (simp_all add: push_keeps ready_push)

end

section \<open>The queue of the source\<close>

record 'a chan =
  c_buf :: "'a list"
  c_waiter :: "nat option"
  c_promises :: nat
  c_settled :: "(nat \<times> 'a) list"

definition make_channel :: "'a chan" where
  "make_channel = \<lparr>c_buf = [], c_waiter = None, c_promises = 0, c_settled = []\<rparr>"

text \<open>The resolution of a promise with the front of the buffer (\<open>resolve(buf.shift())\<close>).\<close>

definition ch_resolve :: "nat \<Rightarrow> 'a chan \<Rightarrow> 'a chan" where
  "ch_resolve p c = (case c_buf c of
     [] \<Rightarrow> c
   | x # xs \<Rightarrow> c\<lparr>c_buf := xs, c_settled := c_settled c @ [(p, x)]\<rparr>)"

definition ch_push :: "'a \<Rightarrow> 'a chan \<Rightarrow> 'a chan" where
  "ch_push x c =
     (let c1 = c\<lparr>c_buf := c_buf c @ [x]\<rparr> in
      case c_waiter c1 of None \<Rightarrow> c1 | Some w \<Rightarrow> ch_resolve w (c1\<lparr>c_waiter := None\<rparr>))"

definition ch_next :: "'a chan \<Rightarrow> 'a chan" where
  "ch_next c =
     (let p = c_promises c; c1 = c\<lparr>c_promises := p + 1\<rparr> in
      if c_buf c \<noteq> [] then ch_resolve p c1 else c1\<lparr>c_waiter := Some p\<rparr>)"

definition ch_delivered :: "'a chan \<Rightarrow> 'a list" where
  "ch_delivered c = map snd (c_settled c)"

definition ch_waiting :: "'a chan \<Rightarrow> bool" where
  "ch_waiting c \<longleftrightarrow> c_waiter c \<noteq> None"

text \<open>A waiter is only stored when the buffer is empty, and it is an earlier promise.\<close>

definition chan_inv :: "'a chan \<Rightarrow> bool" where
  "chan_inv c \<longleftrightarrow> (\<forall>w. c_waiter c = Some w \<longrightarrow> c_buf c = [] \<and> w < c_promises c \<and> w \<notin> fst ` set (c_settled c)) \<and>
                (\<forall>p \<in> fst ` set (c_settled c). p < c_promises c)"

lemmas chan_defs = make_channel_def ch_resolve_def ch_push_def ch_next_def ch_delivered_def ch_waiting_def Let_def

lemma chan_inv_push: "chan_inv c \<Longrightarrow> chan_inv (ch_push x c)"
  by (auto simp: chan_inv_def chan_defs split: option.splits list.splits)

lemma chan_inv_next: "chan_inv c \<Longrightarrow> chan_inv (ch_next c)"
  by (fastforce simp: chan_inv_def chan_defs split: list.splits)

interpretation chan: fifo chan_inv make_channel ch_push ch_next ch_delivered c_buf ch_waiting
proof (unfold_locales, goal_cases)
  case (4 q x) then show ?case by (auto simp: chan_inv_def chan_defs split: option.splits)
next
  case (5 q x) then show ?case by (auto simp: chan_inv_def chan_defs split: option.splits)
next
  case (7 q) then show ?case by (simp add: chan_inv_next)
qed (auto simp: chan_inv_push chan_inv_def chan_defs split: option.splits list.splits)

section \<open>Runs of one consumer\<close>

datatype 'a chop = Push 'a | Next

fun ch_op :: "'a chop \<Rightarrow> 'a chan \<Rightarrow> 'a chan" where
  "ch_op (Push x) c = ch_push x c"
| "ch_op Next c = ch_next c"

text \<open>The single consumer awaits its promise before it asks again.\<close>

fun disciplined :: "'a chop list \<Rightarrow> 'a chan \<Rightarrow> bool" where
  "disciplined [] c = True"
| "disciplined (a # as) c = ((a = Next \<longrightarrow> \<not> ch_waiting c) \<and> disciplined as (ch_op a c))"

fun pushed :: "'a chop list \<Rightarrow> 'a list" where
  "pushed [] = []"
| "pushed (Push x # as) = x # pushed as"
| "pushed (Next # as) = pushed as"

fun asked :: "'a chop list \<Rightarrow> nat" where
  "asked [] = 0"
| "asked (Push x # as) = asked as"
| "asked (Next # as) = Suc (asked as)"

lemma disciplined_contents:
  "chan_inv c \<Longrightarrow> disciplined as c \<Longrightarrow>
     ch_delivered (fold ch_op as c) @ c_buf (fold ch_op as c) = ch_delivered c @ c_buf c @ pushed as \<and>
     chan_inv (fold ch_op as c)"
proof (induction as arbitrary: c)
  case (Cons a as)
  show ?case
  proof (cases a)
    case (Push x)
    with Cons.prems Cons.IH [of "ch_push x c"] show ?thesis
      using chan.push_contents [of c x] by (simp add: chan.ready_push)
  next
    case Next
    with Cons.prems Cons.IH [of "ch_next c"] show ?thesis
      using chan.next_contents [of c] by (simp add: chan.ready_next)
  qed
qed simp

lemma disciplined_asked:
  "chan_inv c \<Longrightarrow> disciplined as c \<Longrightarrow>
     length (ch_delivered (fold ch_op as c)) + of_bool (ch_waiting (fold ch_op as c)) =
     length (ch_delivered c) + of_bool (ch_waiting c) + asked as"
proof (induction as arbitrary: c)
  case (Cons a as)
  show ?case
  proof (cases a)
    case (Push x)
    have "length (ch_delivered (ch_push x c)) + of_bool (ch_waiting (ch_push x c)) =
          length (ch_delivered c) + of_bool (ch_waiting c)"
      using Cons.prems(1) by (auto simp: chan_inv_def chan_defs split: option.splits)
    with Push Cons.prems Cons.IH [of "ch_push x c"] show ?thesis by (simp add: chan.ready_push)
  next
    case Next
    with Cons.prems Cons.IH [of "ch_next c"] show ?thesis
      by (cases "c_buf c") (simp_all add: chan.ready_next chan.next_queued chan.next_empty)
  qed
qed simp

text \<open>
  Whatever the interleaving of the server's pushes and the loop's calls, the loop receives
  exactly the first frames that were pushed, in order, one per call, and only its last call
  can be waiting, which means that every pushed frame was delivered.
\<close>

text \<open>C15: A single consumer of the channel receives exactly the pushed frames, in order, one per
call, and a waiting call means that all of them were delivered.\<close>

theorem channel_fifo:
  assumes "disciplined as make_channel"
  defines "c \<equiv> fold ch_op as make_channel"
  shows "ch_delivered c = take (asked as) (pushed as) \<and> c_buf c = drop (asked as) (pushed as) \<and>
         (ch_waiting c \<longrightarrow> ch_delivered c = pushed as)"
proof -
  have 1: "ch_delivered c @ c_buf c = pushed as" "chan_inv c"
    using disciplined_contents [OF chan.ready_make assms(1)]
    by (simp_all add: c_def make_channel_def ch_delivered_def)
  have 2: "length (ch_delivered c) + of_bool (ch_waiting c) = asked as"
    using disciplined_asked [OF chan.ready_make assms(1)]
    by (simp add: c_def make_channel_def ch_delivered_def ch_waiting_def)
  show ?thesis
  proof (cases "ch_waiting c")
    case True
    with 1 2 chan.waiting_empty [of c] show ?thesis by simp
  next
    case False
    with 2 have "asked as = length (ch_delivered c)" by simp
    then show ?thesis using False 1(1) [symmetric] by simp
  qed
qed

lemma channel_fifo_witness:
  "ch_delivered (fold ch_op [Push 1, Push (2 :: nat), Next, Next, Next, Push 3, Push 4] make_channel) = [1, 2, 3]"
  using channel_fifo [of "[Push 1, Push (2 :: nat), Next, Next, Next, Push 3, Push 4]"]
  by (simp add: chan_defs)

text \<open>
  The channel is for one consumer only: a second \<open>next\<close> while the first is waiting
  overwrites the waiter, and the first promise is never resolved.
\<close>

lemma lost_promise_op:
  assumes "c_waiter c \<noteq> Some w" and "w < c_promises c" and "w \<notin> fst ` set (c_settled c)"
  shows "c_waiter (ch_op a c) \<noteq> Some w \<and> w < c_promises (ch_op a c) \<and> w \<notin> fst ` set (c_settled (ch_op a c))"
  using assms by (cases a) (auto simp: chan_defs split: option.splits list.splits)

lemma lost_promise:
  "c_waiter c \<noteq> Some w \<Longrightarrow> w < c_promises c \<Longrightarrow> w \<notin> fst ` set (c_settled c) \<Longrightarrow>
     w \<notin> fst ` set (c_settled (fold ch_op as c))"
proof (induction as arbitrary: c)
  case (Cons a as)
  from lost_promise_op [OF Cons.prems] Cons.IH [of "ch_op a c"] show ?case by simp
qed simp

theorem second_next_starves_first:
  assumes "chan_inv c" and "c_waiter c = Some w"
  shows "w \<notin> fst ` set (c_settled (fold ch_op as (ch_next c)))"
  using assms by (intro lost_promise) (auto simp: chan_inv_def chan_defs)

lemma second_next_starves_first_witness:
  "0 \<notin> fst ` set (c_settled (fold ch_op [Push 7, Push (8 :: nat)] (ch_next (ch_next make_channel))))"
  by (rule second_next_starves_first) (simp_all add: chan_inv_def chan_defs)

end
