(* ===== verification/RunTheater.thy ===== *)
theory RunTheater
  imports JsonRoundtrip Spine Channel
begin

text \<open>
  The Run Theater of \<open>web/playground.js\<close> (\<open>startRun\<close>, \<open>skeletonSteps\<close>,
  \<open>RUN_SHORT_LABEL\<close>): what a started run mounts, and the loop that consumes the events of
  the run's stream. The loop is a small machine over the channel: \<open>t_pc\<close> says at which
  \<open>await\<close> it stands, and one \<open>tick\<close> is one callback of the browser: a frame or an error
  of the event source, the loop resumed with the value of its promise, or its timer. The
  browser may interleave these in any order the guards of \<open>theater_do\<close> allow. When a
  statement of the loop throws, the promise of the loop is rejected and nothing shows it: the
  program counter becomes \<open>Crashed\<close>, with the view and the flags as the statements before
  the exception left them (\<open>event_wreck\<close>).
\<close>

section \<open>What a run mounts\<close>

definition RUN_SHORT_LABEL :: "(string \<times> jsval) list" where
  "RUN_SHORT_LABEL = [
     (''intent'', JStr ''Intent''), (''plan'', JStr ''Plan''), (''policy'', JStr ''Policy''),
     (''approval'', JStr ''Approval''), (''credential'', JStr ''Credential''),
     (''outcome'', JStr ''Outcome''), (''anchor'', JStr ''Anchored''),
     (''export'', JStr ''Exported''), (''verify'', JStr ''Verified'')]"

definition skeleton_step :: "string \<Rightarrow> string \<Rightarrow> jsval" where
  "skeleton_step k l = JObj [(''key'', JStr k), (''label'', JStr l)]"

definition skeletonSteps :: "jsval list" where
  "skeletonSteps = [
     skeleton_step ''intent'' ''Buyer submits escrow intent'',
     skeleton_step ''plan'' ''Infrix compiles a governed plan'',
     skeleton_step ''policy'' ''Policy authorizes a regulated release'',
     skeleton_step ''approval'' ''Operator approval bound to the plan hash'',
     skeleton_step ''credential'' ''Delivery credential verified'',
     skeleton_step ''outcome'' ''Funds released to the seller'',
     skeleton_step ''anchor'' ''Evidence anchored'',
     skeleton_step ''export'' ''Portable proof exported'',
     skeleton_step ''verify'' ''Verified independently (no node trust)'']"

text \<open>
  The steps the node announced, or the skeleton. Something with a length that is not an array
  has no \<open>map\<close>, so the run's set-up throws.
\<close>

definition run_steps :: "jsval \<Rightarrow> jsval list res" where
  "run_steps started =
     rbind (get_prop started ''steps'') (\<lambda>st.
     if truthy st then
       rbind (get_prop st ''length'') (\<lambda>n.
       if truthy n then (case st of JArr xs \<Rightarrow> Inr xs | _ \<Rightarrow> Inl TypeErr) else Inr skeletonSteps)
     else Inr skeletonSteps)"

fun label_by_key :: "jsval list \<Rightarrow> (string \<times> jsval) list \<Rightarrow> (string \<times> jsval) list res" where
  "label_by_key [] m = Inr m"
| "label_by_key (s # ss) m =
     rbind (get_prop s ''key'') (\<lambda>k. rbind (get_prop s ''label'') (\<lambda>l.
     rbind (to_str k) (\<lambda>ks. label_by_key ss (AList.update ks l m))))"

fun run_spine_steps :: "css \<Rightarrow> string option \<Rightarrow> jsval list \<Rightarrow> color_cache \<Rightarrow> (spine_step list \<times> color_cache) res" where
  "run_spine_steps css theme [] cache = Inr ([], cache)"
| "run_spine_steps css theme (s # ss) cache =
     rbind (get_prop s ''key'') (\<lambda>k. rbind (to_str k) (\<lambda>ks. rbind (get_prop s ''label'') (\<lambda>l.
     let (c, cache1) = stage_color css theme ks cache in
     rbind (run_spine_steps css theme ss cache1) (\<lambda>(rest, cache2).
     Inr (\<lparr>s_key = k, s_label = js_or (obj_get RUN_SHORT_LABEL ks) l, s_color = JStr c\<rparr> # rest, cache2)))))"

section \<open>The view\<close>

text \<open>The active-stage card: the narrated stage, or the note that replaces it.\<close>

datatype card = StageCard string string string | FailNote string

text \<open>A call \<open>telemetry.emit(event, {mode, result})\<close>.\<close>

datatype emission = Emit string string string

record view =
  v_spine :: spine
  v_card :: card
  v_card_anims :: nat
  v_location :: "string option"
  v_emits :: "emission list"

text \<open>What the closure of one run fixes: its mode, its labels and the motion preference.\<close>

record run_env =
  e_kermit :: bool
  e_labels :: "(string \<times> jsval) list"
  e_reduce :: bool
  e_can_animate :: bool

definition t_starting :: string where "t_starting = ''Starting the governed run'' @ u_ellipsis"
definition t_asking :: string where "t_asking = ''Asking the node to run the flow; the proof is verified in your browser.''"
definition t_linked :: string where "t_linked = ''Hash-linked into the tamper-evident chain.''"
definition t_recorded :: string where "t_recorded = ''Recorded in the proof.''"
definition t_running :: string where "t_running = ''Running'' @ u_ellipsis"
definition t_opening :: string where
  "t_opening = ''Verified independently '' @ u_dash @ '' opening the verdict.''"
definition t_lost :: string where "t_lost = ''The connection to the run was lost.''"

definition swap_card :: "run_env \<Rightarrow> jsval \<Rightarrow> bool \<Rightarrow> view \<Rightarrow> view res" where
  "swap_card env st finished v =
     rbind (get_prop st ''key'') (\<lambda>k. rbind (get_prop st ''label'') (\<lambda>l. rbind (get_prop st ''hash'') (\<lambda>h.
     rbind (to_str k) (\<lambda>ks.
     rbind (to_text (js_or (js_or (obj_get (e_labels env) ks) l) k)) (\<lambda>title.
     rbind (if truthy h then rbind (to_str h) (\<lambda>hs. Inr (''hash '' @ hs @ u_ellipsis)) else Inr '''') (\<lambda>hash.
     let desc = (if finished then (if truthy h then t_linked else t_recorded) else t_running) in
     Inr (v\<lparr>v_card := StageCard title hash desc,
           v_card_anims := (if \<not> e_reduce env \<and> e_can_animate env then v_card_anims v + 1 else v_card_anims v)\<rparr>)))))))"

definition fail_run :: "jsval \<Rightarrow> view \<Rightarrow> view res" where
  "fail_run msg v =
     rbind (to_str (js_or msg (JStr ''Something interrupted the run.''))) (\<lambda>m.
     Inr (v\<lparr>v_card := FailNote m\<rparr>))"

definition set_node :: "jsval \<Rightarrow> string \<Rightarrow> jsval \<Rightarrow> view \<Rightarrow> view res" where
  "set_node k state h v = rbind (spine_set (v_spine v) k (JStr state) h) (\<lambda>sp. Inr (v\<lparr>v_spine := sp\<rparr>))"

definition emit :: "run_env \<Rightarrow> string \<Rightarrow> string \<Rightarrow> view \<Rightarrow> view" where
  "emit env event result v =
     v\<lparr>v_emits := v_emits v @ [Emit event (if e_kermit env then ''kermit'' else ''local'') result]\<rparr>"

section \<open>One event\<close>

text \<open>
  What the body of the loop does with an event, up to its next \<open>await\<close> or its return:
  nothing, pace a step, end the run, or wait for the seal beat before it opens the receipt.
\<close>

datatype reaction = Ignore | Pace jsval | Ended | ToSeal jsval

definition on_failed_step :: "run_env \<Rightarrow> jsval \<Rightarrow> view \<Rightarrow> (reaction \<times> view) res" where
  "on_failed_step env k v =
     rbind (set_node k ''failed'' JUndef v) (\<lambda>v1.
     rbind (to_str k) (\<lambda>ks.
     rbind (to_str (js_or (obj_get (e_labels env) ks) k)) (\<lambda>l.
     rbind (fail_run (JStr (''Stage '' @ u_lquo @ l @ u_rquo @ '' failed.'')) v1) (\<lambda>v2.
     Inr (Ended, v2)))))"

definition on_done :: "run_env \<Rightarrow> jsval \<Rightarrow> view \<Rightarrow> (reaction \<times> view) res" where
  "on_done env rid v =
     (let v1 = emit env ''demo.completed'' ''success''
                 (v\<lparr>v_card := StageCard ''Proof sealed'' '''' t_opening\<rparr>);
          (now, sp) = spine_seal (v_spine v1)
      in Inr (ToSeal rid, v1\<lparr>v_spine := sp\<rparr>))"

definition on_event :: "run_env \<Rightarrow> jsval \<Rightarrow> view \<Rightarrow> (reaction \<times> view) res" where
  "on_event env e v =
     (if \<not> truthy e then Inr (Ignore, v) else
      rbind (get_prop e ''type'') (\<lambda>ty. rbind (get_prop e ''step'') (\<lambda>st.
      rbind (get_prop e ''receiptId'') (\<lambda>rid. rbind (get_prop e ''error'') (\<lambda>err.
      if ty = JStr ''step'' \<and> truthy st then
        rbind (get_prop st ''status'') (\<lambda>status. rbind (get_prop st ''key'') (\<lambda>k.
        if status = JStr ''failed'' then on_failed_step env k v
        else rbind (set_node k ''running'' JUndef v) (\<lambda>v1.
             rbind (swap_card env st False v1) (\<lambda>v2. Inr (Pace st, v2)))))
      else if ty = JStr ''done'' \<and> truthy rid then on_done env rid v
      else if ty = JStr ''error'' then
        rbind (fail_run err (emit env ''error.step'' ''failure'' v)) (\<lambda>v1. Inr (Ended, v1))
      else if ty = JStr ''__sse_error'' then
        rbind (fail_run (JStr t_lost) v) (\<lambda>v1. Inr (Ended, v1))
      else Inr (Ignore, v))))))"

text \<open>The second half of a paced step, after its delay.\<close>

definition complete_step :: "run_env \<Rightarrow> jsval \<Rightarrow> view \<Rightarrow> view res" where
  "complete_step env st v =
     rbind (get_prop st ''key'') (\<lambda>k. rbind (get_prop st ''hash'') (\<lambda>h.
     rbind (set_node k ''complete'' h v) (\<lambda>v1. swap_card env st True v1)))"

text \<open>
  The end of the seal beat: the location becomes the receipt's. With reduced motion the class
  is already set and setting it again changes nothing.
\<close>

definition open_receipt :: "jsval \<Rightarrow> view \<Rightarrow> view res" where
  "open_receipt rid v =
     rbind (to_str rid) (\<lambda>r.
     Inr (v\<lparr>v_spine := spine_seal_timer (v_spine v), v_location := Some (''#/r/'' @ r)\<rparr>))"

text \<open>
  What the handling of an event has done when one of its statements throws: whether the run was
  already terminated (and its stream closed), and the view. \<open>set\<close> throws at its lookup, before
  it writes, and \<open>swapCard\<close> may have written the title when the hash cannot be shown.
\<close>

definition prop_or_undef :: "jsval \<Rightarrow> string \<Rightarrow> jsval" where
  "prop_or_undef x k = (case get_prop x k of Inr y \<Rightarrow> y | Inl _ \<Rightarrow> JUndef)"

definition swap_card_wreck :: "run_env \<Rightarrow> jsval \<Rightarrow> view \<Rightarrow> view" where
  "swap_card_wreck env st v =
     (let k = prop_or_undef st ''key''; l = prop_or_undef st ''label'' in
      case rbind (to_str k) (\<lambda>ks. to_text (js_or (js_or (obj_get (e_labels env) ks) l) k)) of
        Inl _ \<Rightarrow> v
      | Inr title \<Rightarrow> (case v_card v of StageCard _ h d \<Rightarrow> v\<lparr>v_card := StageCard title h d\<rparr> | FailNote _ \<Rightarrow> v))"

definition event_wreck :: "run_env \<Rightarrow> jsval \<Rightarrow> view \<Rightarrow> bool \<times> view" where
  "event_wreck env e v =
     (let ty = prop_or_undef e ''type''; st = prop_or_undef e ''step''; k = prop_or_undef st ''key'' in
      if ty = JStr ''step'' \<and> truthy st then
        (if prop_or_undef st ''status'' = JStr ''failed''
         then (True, case set_node k ''failed'' JUndef v of Inl _ \<Rightarrow> v | Inr v1 \<Rightarrow> v1)
         else (False, case set_node k ''running'' JUndef v of Inl _ \<Rightarrow> v | Inr v1 \<Rightarrow> swap_card_wreck env st v1))
      else if ty = JStr ''error'' then (True, emit env ''error.step'' ''failure'' v)
      else (False, v))"

section \<open>The loop\<close>

datatype pc = Awaiting | Pacing jsval | Pausing | Sealing jsval | Finished | Crashed

record theater =
  t_chan :: "jsval chan"
  t_taken :: nat
  t_pc :: pc
  t_terminated :: bool
  t_closed :: bool
  t_view :: view

datatype tick = Frame string | SourceError | Resume | Timer

definition sse_error :: jsval where
  "sse_error = JObj [(''type'', JStr ''__sse_error'')]"

text \<open>The top of the loop: \<open>await ch.next()\<close>.\<close>

definition await_next :: "theater \<Rightarrow> theater" where
  "await_next t = t\<lparr>t_chan := ch_next (t_chan t), t_pc := Awaiting\<rparr>"

definition settle_reaction :: "bool \<times> view \<Rightarrow> (reaction \<times> view) res \<Rightarrow> theater \<Rightarrow> theater" where
  "settle_reaction wreck r t = (case r of
     Inl _ \<Rightarrow> t\<lparr>t_view := snd wreck, t_pc := Crashed, t_terminated := fst wreck, t_closed := fst wreck\<rparr>
   | Inr (Ignore, v) \<Rightarrow> await_next (t\<lparr>t_view := v\<rparr>)
   | Inr (Pace st, v) \<Rightarrow> t\<lparr>t_view := v, t_pc := Pacing st\<rparr>
   | Inr (Ended, v) \<Rightarrow> t\<lparr>t_view := v, t_pc := Finished, t_terminated := True, t_closed := True\<rparr>
   | Inr (ToSeal rid, v) \<Rightarrow> t\<lparr>t_view := v, t_pc := Sealing rid, t_terminated := True, t_closed := True\<rparr>)"

definition resume :: "run_env \<Rightarrow> theater \<Rightarrow> theater option" where
  "resume env t =
     (if t_pc t = Awaiting \<and> t_taken t < length (ch_delivered (t_chan t)) then
        (let e = ch_delivered (t_chan t) ! t_taken t; t1 = t\<lparr>t_taken := t_taken t + 1\<rparr> in
         Some (if t_terminated t1 then t1\<lparr>t_pc := Finished\<rparr>
               else settle_reaction (event_wreck env e (t_view t1)) (on_event env e (t_view t1)) t1))
      else None)"

definition timer :: "run_env \<Rightarrow> theater \<Rightarrow> theater option" where
  "timer env t = (case t_pc t of
     Pacing st \<Rightarrow> Some (if t_terminated t then t\<lparr>t_pc := Finished\<rparr>
        else (case complete_step env st (t_view t) of
                Inl _ \<Rightarrow> t\<lparr>t_pc := Crashed\<rparr>
              | Inr v \<Rightarrow> t\<lparr>t_view := v, t_pc := Pausing\<rparr>))
   | Pausing \<Rightarrow> Some (await_next t)
   | Sealing rid \<Rightarrow> Some (case open_receipt rid (t_view t) of
                Inl _ \<Rightarrow> t\<lparr>t_view := (t_view t)\<lparr>v_spine := spine_seal_timer (v_spine (t_view t))\<rparr>, t_pc := Crashed\<rparr>
              | Inr v \<Rightarrow> t\<lparr>t_view := v, t_pc := Finished\<rparr>)
   | _ \<Rightarrow> None)"

fun theater_do :: "run_env \<Rightarrow> tick \<Rightarrow> theater \<Rightarrow> theater option" where
  "theater_do env (Frame s) t =
     Some (case json_parse s of Inl _ \<Rightarrow> t | Inr e \<Rightarrow> t\<lparr>t_chan := ch_push e (t_chan t)\<rparr>)"
| "theater_do env SourceError t =
     Some (if t_terminated t then t else t\<lparr>t_chan := ch_push sse_error (t_chan t)\<rparr>)"
| "theater_do env Resume t = resume env t"
| "theater_do env Timer t = timer env t"

inductive theater_step :: "run_env \<Rightarrow> theater \<Rightarrow> theater \<Rightarrow> bool" for env :: run_env where
  tick: "theater_do env a t = Some t' \<Longrightarrow> theater_step env t t'"

text \<open>The state in which the loop starts, standing at its first \<open>await\<close>.\<close>

definition start_theater :: "view \<Rightarrow> theater" where
  "start_theater v = await_next \<lparr>t_chan = make_channel, t_taken = 0, t_pc = Awaiting,
     t_terminated = False, t_closed = False, t_view = v\<rparr>"

text \<open>The set-up of \<open>startRun\<close> once the node has answered.\<close>

definition start_run ::
  "css \<Rightarrow> string option \<Rightarrow> bool \<Rightarrow> bool \<Rightarrow> bool \<Rightarrow> jsval \<Rightarrow> color_cache \<Rightarrow> (run_env \<times> theater \<times> color_cache) res" where
  "start_run css theme kermit reduce can_animate started cache =
     rbind (run_steps started) (\<lambda>steps.
     rbind (label_by_key steps []) (\<lambda>labels.
     rbind (run_spine_steps css theme steps cache) (\<lambda>(ss, cache1).
     rbind (mount_spine ss reduce can_animate) (\<lambda>sp.
     Inr (\<lparr>e_kermit = kermit, e_labels = labels, e_reduce = reduce, e_can_animate = can_animate\<rparr>,
          start_theater \<lparr>v_spine = sp, v_card = StageCard t_starting '''' t_asking,
             v_card_anims = 0, v_location = None, v_emits = []\<rparr>,
          cache1)))))"

section \<open>The narration the loop implements\<close>

text \<open>
  The specification: the events taken one after another, with no scheduling. It says what the
  view is when the stream has been consumed and whether the run is still listening, failed, or
  sealed with a receipt; what comes after the end is not looked at.
\<close>

datatype ending = Listening | Failed | Sealed jsval

fun narrate :: "run_env \<Rightarrow> jsval list \<Rightarrow> view \<Rightarrow> (ending \<times> view) res" where
  "narrate env [] v = Inr (Listening, v)"
| "narrate env (e # es) v =
     rbind (on_event env e v) (\<lambda>(r, v1). case r of
       Ignore \<Rightarrow> narrate env es v1
     | Pace st \<Rightarrow> rbind (complete_step env st v1) (narrate env es)
     | Ended \<Rightarrow> Inr (Failed, v1)
     | ToSeal rid \<Rightarrow> Inr (Sealed rid, v1))"

definition narrated :: "run_env \<Rightarrow> jsval list \<Rightarrow> view \<Rightarrow> (ending \<times> view) res" where
  "narrated env es v =
     rbind (narrate env es v) (\<lambda>(r, v1). case r of
       Sealed rid \<Rightarrow> rbind (open_receipt rid v1) (\<lambda>v2. Inr (r, v2))
     | _ \<Rightarrow> Inr (r, v1))"

lemma narrate_append:
  "narrate env (es @ xs) v =
     rbind (narrate env es v) (\<lambda>(r, v1). if r = Listening then narrate env xs v1 else Inr (r, v1))"
proof (induction es arbitrary: v)
  case (Cons e es)
  show ?case
  proof (cases "on_event env e v")
    case (Inr p)
    obtain r v1 where p: "p = (r, v1)" by (cases p)
    show ?thesis
    proof (cases r)
      case (Pace st)
      then show ?thesis using Inr p Cons by (cases "complete_step env st v1") simp_all
    qed (use Inr p Cons in simp_all)
  qed simp
qed simp

lemma narrate_snoc:
  "narrate env es v = Inr (Listening, v1) \<Longrightarrow> narrate env (es @ [e]) v = narrate env [e] v1"
  by (simp add: narrate_append)

lemma narrate_stops: "narrate env es v = Inr (r, v1) \<Longrightarrow> r \<noteq> Listening \<Longrightarrow> narrate env (es @ xs) v = Inr (r, v1)"
  by (simp add: narrate_append)

lemma narrate_throws: "narrate env es v = Inl x \<Longrightarrow> narrate env (es @ xs) v = Inl x"
  by (simp add: narrate_append)

section \<open>The invariant of the loop\<close>

definition t_stream :: "theater \<Rightarrow> jsval list" where
  "t_stream t = ch_delivered (t_chan t) @ c_buf (t_chan t)"

definition t_seen :: "theater \<Rightarrow> jsval list" where
  "t_seen t = take (t_taken t) (ch_delivered (t_chan t))"

definition idle_chan :: "theater \<Rightarrow> bool" where
  "idle_chan t \<longleftrightarrow> \<not> ch_waiting (t_chan t) \<and> length (ch_delivered (t_chan t)) = t_taken t"

definition on_stage :: "run_env \<Rightarrow> view \<Rightarrow> theater \<Rightarrow> bool" where
  "on_stage env v0 t = (case t_pc t of
     Awaiting \<Rightarrow> \<not> t_terminated t \<and> narrate env (t_seen t) v0 = Inr (Listening, t_view t) \<and>
       length (ch_delivered (t_chan t)) + of_bool (ch_waiting (t_chan t)) = t_taken t + 1
   | Pacing st \<Rightarrow> \<not> t_terminated t \<and> idle_chan t \<and>
       (\<exists>es e v. t_seen t = es @ [e] \<and> narrate env es v0 = Inr (Listening, v) \<and> on_event env e v = Inr (Pace st, t_view t))
   | Pausing \<Rightarrow> \<not> t_terminated t \<and> idle_chan t \<and> narrate env (t_seen t) v0 = Inr (Listening, t_view t)
   | Sealing rid \<Rightarrow> t_terminated t \<and> idle_chan t \<and> narrate env (t_seen t) v0 = Inr (Sealed rid, t_view t)
   | Finished \<Rightarrow> idle_chan t \<and> (\<exists>r. r \<noteq> Listening \<and> narrated env (t_seen t) v0 = Inr (r, t_view t))
   | Crashed \<Rightarrow> idle_chan t \<and> (\<exists>x. narrated env (t_seen t) v0 = Inl x))"

definition theater_inv :: "run_env \<Rightarrow> view \<Rightarrow> theater \<Rightarrow> bool" where
  "theater_inv env v0 t \<longleftrightarrow> chan_inv (t_chan t) \<and> t_taken t \<le> length (ch_delivered (t_chan t)) \<and> on_stage env v0 t"

lemma start_theater_inv: "theater_inv env v (start_theater v)"
  by (simp add: theater_inv_def on_stage_def start_theater_def await_next_def t_seen_def chan_inv_def chan_defs)

text \<open>A push changes neither what the loop has seen nor whether it is idle.\<close>

lemma push_grows:
  "chan_inv c \<Longrightarrow> \<exists>d. ch_delivered (ch_push x c) = ch_delivered c @ d \<and>
     length d = of_bool (ch_waiting c) \<and> \<not> ch_waiting (ch_push x c)"
  by (auto simp: chan_inv_def chan_defs split: option.splits)

lemma theater_inv_push:
  assumes "theater_inv env v0 t"
  shows "theater_inv env v0 (t\<lparr>t_chan := ch_push x (t_chan t)\<rparr>)"
proof -
  have c: "chan_inv (t_chan t)" using assms by (simp add: theater_inv_def)
  obtain d where d: "ch_delivered (ch_push x (t_chan t)) = ch_delivered (t_chan t) @ d"
    "length d = of_bool (ch_waiting (t_chan t))" "\<not> ch_waiting (ch_push x (t_chan t))"
    using push_grows [OF c] by blast
  have seen: "t_seen (t\<lparr>t_chan := ch_push x (t_chan t)\<rparr>) = t_seen t"
    using assms d by (simp add: t_seen_def theater_inv_def)
  have idle: "idle_chan t \<Longrightarrow> idle_chan (t\<lparr>t_chan := ch_push x (t_chan t)\<rparr>)"
    using d by (simp add: idle_chan_def)
  show ?thesis
    using assms d idle chan_inv_push [OF c]
    by (auto simp: theater_inv_def on_stage_def seen split: pc.splits)
qed

lemma next_from_idle:
  assumes "chan_inv c" and "\<not> ch_waiting c"
  shows "\<exists>d. ch_delivered (ch_next c) = ch_delivered c @ d \<and> length d + of_bool (ch_waiting (ch_next c)) = 1"
  using assms by (cases "c_buf c") (auto simp: chan_inv_def chan_defs)

lemma theater_inv_await:
  assumes "chan_inv (t_chan t)" and "idle_chan t" and "\<not> t_terminated t"
    and "narrate env (t_seen t) v0 = Inr (Listening, t_view t)"
  shows "theater_inv env v0 (await_next t)"
proof -
  obtain d where d: "ch_delivered (ch_next (t_chan t)) = ch_delivered (t_chan t) @ d"
    "length d + of_bool (ch_waiting (ch_next (t_chan t))) = 1"
    using next_from_idle [OF assms(1)] assms(2) by (auto simp: idle_chan_def)
  have "t_seen (await_next t) = t_seen t" using assms(2) d by (simp add: t_seen_def await_next_def idle_chan_def)
  then show ?thesis
    using assms d chan_inv_next [OF assms(1)]
    by (simp add: theater_inv_def on_stage_def idle_chan_def await_next_def)
qed

lemma resume_inv:
  assumes inv: "theater_inv env v0 t" and step: "resume env t = Some t'"
  shows "theater_inv env v0 t'"
proof -
  have pc: "t_pc t = Awaiting" and lt: "t_taken t < length (ch_delivered (t_chan t))"
    using step by (auto simp: resume_def split: if_splits)
  then have c: "chan_inv (t_chan t)" "\<not> t_terminated t" "\<not> ch_waiting (t_chan t)"
    "length (ch_delivered (t_chan t)) = t_taken t + 1"
    and n: "narrate env (t_seen t) v0 = Inr (Listening, t_view t)"
    using inv by (auto simp: theater_inv_def on_stage_def split: if_splits)
  define e where "e = ch_delivered (t_chan t) ! t_taken t"
  define t1 where "t1 = t\<lparr>t_taken := t_taken t + 1\<rparr>"
  have seen: "t_seen t1 = t_seen t @ [e]"
    using lt by (simp add: t_seen_def t1_def e_def take_Suc_conv_app_nth)
  have idle: "idle_chan t1" using c by (simp add: idle_chan_def t1_def)
  have t': "t' = settle_reaction (event_wreck env e (t_view t)) (on_event env e (t_view t)) t1"
    using step pc lt c(2) by (simp add: resume_def e_def t1_def Let_def)
  have n1: "narrate env (t_seen t @ [e]) v0 = narrate env [e] (t_view t)" by (rule narrate_snoc [OF n])
  have frame: "t_seen (t1\<lparr>t_view := v, t_pc := p, t_terminated := b, t_closed := b'\<rparr>) = t_seen t1"
    "idle_chan (t1\<lparr>t_view := v, t_pc := p, t_terminated := b, t_closed := b'\<rparr>)"
    "t_seen (t1\<lparr>t_view := v, t_pc := p\<rparr>) = t_seen t1" "idle_chan (t1\<lparr>t_view := v, t_pc := p\<rparr>)"
    "t_seen (t1\<lparr>t_pc := p\<rparr>) = t_seen t1" "idle_chan (t1\<lparr>t_pc := p\<rparr>)"
    "t_seen (t1\<lparr>t_view := v\<rparr>) = t_seen t1" "idle_chan (t1\<lparr>t_view := v\<rparr>)" for v p b b'
    using idle by (simp_all add: t_seen_def idle_chan_def)
  have ch: "chan_inv (t_chan t1)" "t_taken t1 \<le> length (ch_delivered (t_chan t1))" "\<not> t_terminated t1"
    using c by (simp_all add: t1_def)
  show ?thesis
  proof (cases "on_event env e (t_view t)")
    case (Inl x)
    then show ?thesis using t' ch n1
      by (simp add: settle_reaction_def theater_inv_def on_stage_def frame seen narrated_def)
  next
    case (Inr p)
    obtain r v where p: "p = (r, v)" by (cases p)
    show ?thesis
    proof (cases r)
      case Ignore
      then have "t' = await_next (t1\<lparr>t_view := v\<rparr>)" using Inr p t' by (simp add: settle_reaction_def)
      moreover have "theater_inv env v0 (await_next (t1\<lparr>t_view := v\<rparr>))"
        by (rule theater_inv_await) (use ch frame n1 seen Inr p Ignore in simp_all)
      ultimately show ?thesis by simp
    next
      case (Pace st)
      then show ?thesis using Inr p t' ch n by (auto simp: settle_reaction_def theater_inv_def on_stage_def frame seen)
    next
      case Ended
      then show ?thesis using Inr p t' ch n1
        by (simp add: settle_reaction_def theater_inv_def on_stage_def frame seen narrated_def)
    next
      case (ToSeal rid)
      then show ?thesis using Inr p t' ch n1
        by (simp add: settle_reaction_def theater_inv_def on_stage_def frame seen)
    qed
  qed
qed

lemma timer_inv:
  assumes inv: "theater_inv env v0 t" and step: "timer env t = Some t'"
  shows "theater_inv env v0 t'"
proof -
  have frame: "t_seen (t\<lparr>t_view := v, t_pc := p\<rparr>) = t_seen t" "idle_chan (t\<lparr>t_view := v, t_pc := p\<rparr>) = idle_chan t"
    "t_seen (t\<lparr>t_pc := p\<rparr>) = t_seen t" "idle_chan (t\<lparr>t_pc := p\<rparr>) = idle_chan t" for v p
    by (simp_all add: t_seen_def idle_chan_def)
  have ch: "chan_inv (t_chan t)" "t_taken t \<le> length (ch_delivered (t_chan t))"
    using inv by (simp_all add: theater_inv_def)
  show ?thesis
  proof (cases "t_pc t")
    case (Pacing st)
    then obtain es e v where es: "t_seen t = es @ [e]" "narrate env es v0 = Inr (Listening, v)"
      "on_event env e v = Inr (Pace st, t_view t)" and i: "\<not> t_terminated t" "idle_chan t"
      using inv by (auto simp: theater_inv_def on_stage_def)
    show ?thesis
      using Pacing step ch i es
      by (auto simp: timer_def theater_inv_def on_stage_def frame narrate_append narrated_def split: sum.splits)
  next
    case Pausing
    then have "t' = await_next t" "idle_chan t" "\<not> t_terminated t" "narrate env (t_seen t) v0 = Inr (Listening, t_view t)"
      using inv step by (simp_all add: timer_def theater_inv_def on_stage_def)
    then show ?thesis using ch by (simp add: theater_inv_await)
  next
    case (Sealing rid)
    then show ?thesis using inv step
      by (auto simp: timer_def theater_inv_def on_stage_def frame narrated_def split: sum.splits)
  qed (use step in \<open>simp_all add: timer_def\<close>)
qed

lemma theater_step_inv: "theater_step env t t' \<Longrightarrow> theater_inv env v0 t \<Longrightarrow> theater_inv env v0 t'"
proof (induction rule: theater_step.induct)
  case (tick a t t')
  then show ?case
    by (cases a) (auto intro: theater_inv_push resume_inv timer_inv split: sum.splits if_splits)
qed

interpretation theater: invariant_system "{start_theater v}" "theater_step env" "theater_inv env v" for env v
  by unfold_locales (auto intro: start_theater_inv theater_step_inv)

section \<open>What a settled run shows\<close>

text \<open>
  A run is settled when nothing is left for the loop to do until the next frame: it has
  returned, it has thrown, or it waits on an empty queue.
\<close>

definition settled :: "theater \<Rightarrow> bool" where
  "settled t \<longleftrightarrow> (case t_pc t of
     Finished \<Rightarrow> True | Crashed \<Rightarrow> True | Awaiting \<Rightarrow> ch_waiting (t_chan t) | _ \<Rightarrow> False)"

definition shown :: "theater \<Rightarrow> (ending \<times> view) res \<Rightarrow> bool" where
  "shown t r = (case r of
     Inl _ \<Rightarrow> t_pc t = Crashed
   | Inr (Listening, v) \<Rightarrow> t_pc t = Awaiting \<and> t_view t = v
   | Inr (_, v) \<Rightarrow> t_pc t = Finished \<and> t_view t = v)"

lemma narrated_append:
  assumes "\<And>v1. narrated env es v \<noteq> Inr (Listening, v1)"
  shows "narrated env (es @ xs) v = narrated env es v"
proof (cases "narrate env es v")
  case (Inr p)
  obtain r v1 where "p = (r, v1)" by (cases p)
  moreover from this Inr assms [of v1] have "r \<noteq> Listening" by (auto simp: narrated_def)
  ultimately show ?thesis using Inr by (cases r) (simp_all add: narrated_def narrate_append)
qed (simp add: narrated_def narrate_append)

lemma narrated_prefix:
  "narrated env es v = Inr (r, v1) \<Longrightarrow> r \<noteq> Listening \<Longrightarrow> narrated env (es @ xs) v = Inr (r, v1)"
  using narrated_append [of env es v xs] by simp

lemma narrated_throws: "narrated env es v = Inl x \<Longrightarrow> narrated env (es @ xs) v = Inl x"
  using narrated_append [of env es v xs] by simp

lemma stream_split:
  assumes "theater_inv env v0 t"
  shows "\<exists>xs. t_stream t = t_seen t @ xs"
  by (metis append.assoc append_take_drop_id t_seen_def t_stream_def)

lemma settled_shown:
  assumes inv: "theater_inv env v0 t" and s: "settled t"
  shows "shown t (narrated env (t_stream t) v0)"
proof (cases "t_pc t")
  case Awaiting
  with inv s have "ch_waiting (t_chan t)" "chan_inv (t_chan t)" "length (ch_delivered (t_chan t)) = t_taken t"
    and n: "narrate env (t_seen t) v0 = Inr (Listening, t_view t)"
    by (auto simp: settled_def theater_inv_def on_stage_def)
  then have "t_stream t = t_seen t"
    by (auto simp: t_stream_def t_seen_def chan_inv_def ch_waiting_def)
  with Awaiting n show ?thesis by (simp add: shown_def narrated_def)
next
  case Finished
  with inv obtain r where "r \<noteq> Listening" "narrated env (t_seen t) v0 = Inr (r, t_view t)"
    by (auto simp: theater_inv_def on_stage_def)
  with Finished stream_split [OF inv] show ?thesis
    by (cases r) (auto simp: shown_def narrated_prefix)
next
  case Crashed
  with inv obtain x where "narrated env (t_seen t) v0 = Inl x"
    by (auto simp: theater_inv_def on_stage_def)
  with Crashed stream_split [OF inv] show ?thesis by (auto simp: shown_def narrated_throws)
qed (use s in \<open>simp_all add: settled_def\<close>)

text \<open>C2: Whatever the interleaving of frames, stream errors, timers and promise resumptions, a
settled Run Theater shows what a sequential reading of the received events prescribes.\<close>

theorem theater_shows_narration:
  assumes "reach {start_theater v} (theater_step env) t" and "settled t"
  shows "shown t (narrated env (t_stream t) v)"
  by (rule settled_shown [OF theater.inv_reach [OF assms(1)] assms(2)])

section \<open>The loop gets there\<close>

abbreviation theater_run :: "run_env \<Rightarrow> tick list \<Rightarrow> theater \<Rightarrow> theater option" where
  "theater_run env \<equiv> run_acts (theater_do env)"

lemma theater_run_reach:
  "theater_run env as t = Some t' \<Longrightarrow> reach I (theater_step env) t \<Longrightarrow> reach I (theater_step env) t'"
  by (rule run_acts_reach) (rule theater_step.intros)

definition work :: "theater \<Rightarrow> nat" where
  "work t = 3 * (length (t_stream t) - t_taken t) +
     (case t_pc t of Pacing _ \<Rightarrow> 2 | Pausing \<Rightarrow> 1 | Sealing _ \<Rightarrow> 1 | _ \<Rightarrow> 0)"

text \<open>The loop's own callbacks: what the browser runs without the server's help.\<close>

definition own_tick :: "tick \<Rightarrow> bool" where
  "own_tick a \<longleftrightarrow> a = Resume \<or> a = Timer"

lemma stream_next: "chan_inv c \<Longrightarrow> \<not> ch_waiting c \<Longrightarrow>
    ch_delivered (ch_next c) @ c_buf (ch_next c) = ch_delivered c @ c_buf c"
  by (rule chan.next_contents)

lemma stream_next_length: "chan_inv c \<Longrightarrow> \<not> ch_waiting c \<Longrightarrow>
    length (ch_delivered (ch_next c)) + length (c_buf (ch_next c)) = length (ch_delivered c) + length (c_buf c)"
  using stream_next [of c] by (metis length_append)

lemma own_tick_enabled:
  assumes "theater_inv env v0 t" and "\<not> settled t"
  shows "\<exists>a t'. own_tick a \<and> theater_do env a t = Some t'"
proof (cases "t_pc t")
  case Awaiting
  with assms have "t_taken t < length (ch_delivered (t_chan t))"
    by (auto simp: settled_def theater_inv_def on_stage_def split: if_splits)
  with Awaiting have "theater_do env Resume t \<noteq> None" by (simp add: resume_def Let_def)
  then show ?thesis by (auto simp: own_tick_def)
next
  case (Pacing st)
  then have "theater_do env Timer t \<noteq> None" by (simp add: timer_def)
  then show ?thesis by (auto simp: own_tick_def)
next
  case Pausing
  then have "theater_do env Timer t \<noteq> None" by (simp add: timer_def)
  then show ?thesis by (auto simp: own_tick_def)
next
  case (Sealing rid)
  then have "theater_do env Timer t \<noteq> None" by (simp add: timer_def)
  then show ?thesis by (auto simp: own_tick_def)
qed (use assms in \<open>simp_all add: settled_def\<close>)

lemma own_tick_stream:
  assumes inv: "theater_inv env v0 t" and a: "own_tick a" and step: "theater_do env a t = Some t'"
  shows "t_stream t' = t_stream t \<and> work t' < work t"
proof -
  have c: "chan_inv (t_chan t)" using inv by (simp add: theater_inv_def)
  from a consider "a = Resume" | "a = Timer" by (auto simp: own_tick_def)
  then show ?thesis
  proof cases
    case 1
    with step have s: "resume env t = Some t'" by simp
    then have pc: "t_pc t = Awaiting" and lt: "t_taken t < length (ch_delivered (t_chan t))"
      by (auto simp: resume_def split: if_splits)
    then have nt: "\<not> t_terminated t" and nw: "\<not> ch_waiting (t_chan t)"
      using inv by (auto simp: theater_inv_def on_stage_def split: if_splits)
    have len: "t_taken t < length (t_stream t)" using lt by (simp add: t_stream_def)
    show ?thesis
      using s pc lt nt len stream_next [OF c nw] stream_next_length [OF c nw]
      by (auto simp: resume_def Let_def settle_reaction_def await_next_def t_stream_def work_def
          split: sum.splits prod.splits reaction.splits)
  next
    case 2
    with step have s: "timer env t = Some t'" by simp
    have nw: "t_pc t = Pausing \<Longrightarrow> \<not> ch_waiting (t_chan t)"
      using inv by (simp add: theater_inv_def on_stage_def idle_chan_def)
    show ?thesis
      using s stream_next [OF c nw] stream_next_length [OF c nw]
      by (auto simp: timer_def await_next_def t_stream_def work_def split: pc.splits sum.splits if_splits)
  qed
qed

interpretation settling: settling_system "{start_theater v}" "theater_step env" "theater_inv env v"
    "theater_do env" own_tick work settled t_stream for env v
proof (unfold_locales, goal_cases)
  case (1 a s t) then show ?case by (rule theater_step.intros)
next
  case (2 s a t) then show ?case using own_tick_stream by blast
next
  case (3 s) then show ?case by (rule own_tick_enabled)
qed

text \<open>C13: From any reachable state of a run the browser callbacks alone, without another frame, bring
the loop in boundedly many ticks to a state where every received event has been dealt with.\<close>

theorem theater_settles:
  assumes "reach {start_theater v} (theater_step env) t"
  shows "\<exists>as t'. length as \<le> work t \<and> list_all own_tick as \<and> theater_run env as t = Some t' \<and>
                 settled t' \<and> t_stream t' = t_stream t"
  using settling.settles [OF assms] by blast

text \<open>C40: Every schedule of the own callbacks of a run is finite: each uses up a unit of the
remaining work, and as long as the run is not settled one of them is enabled.\<close>

theorem theater_terminates:
  assumes "reach {start_theater v} (theater_step env) t" and "list_all own_tick as"
    and "theater_run env as t = Some t'"
  shows "length as + work t' \<le> work t \<and>
         (settled t' \<or> (\<exists>a t''. own_tick a \<and> theater_do env a t' = Some t'' \<and> work t'' < work t'))"
  by (rule settling.terminates [OF assms])

text \<open>Every stream of JSON data can be met: a settled state has received exactly it.\<close>

lemma stream_push: "chan_inv (t_chan t) \<Longrightarrow> t_stream (t\<lparr>t_chan := ch_push e (t_chan t)\<rparr>) = t_stream t @ [e]"
  using chan.push_contents [of "t_chan t" e] by (simp add: t_stream_def)

lemma reach_push:
  assumes "reach I (theater_step env) t" and "json_data e"
  shows "reach I (theater_step env) (t\<lparr>t_chan := ch_push e (t_chan t)\<rparr>)"
proof (rule reach_step [OF assms(1)])
  have "theater_do env (Frame (json_text e)) t = Some (t\<lparr>t_chan := ch_push e (t_chan t)\<rparr>)"
    using json_parse_text [OF assms(2)] by simp
  then show "theater_step env t (t\<lparr>t_chan := ch_push e (t_chan t)\<rparr>)" by (rule theater_step.intros)
qed

lemma stream_reached:
  "list_all json_data es \<Longrightarrow> \<exists>t. reach {start_theater v} (theater_step env) t \<and> t_stream t = es"
proof (induction es rule: rev_induct)
  case Nil
  have "t_stream (start_theater v) = []"
    by (simp add: t_stream_def start_theater_def await_next_def chan_defs)
  then show ?case by (intro exI [of _ "start_theater v"]) (simp add: reach_init)
next
  case (snoc e es)
  then obtain t where t: "reach {start_theater v} (theater_step env) t" "t_stream t = es" by auto
  have "chan_inv (t_chan t)" using theater.inv_reach [OF t(1)] by (simp add: theater_inv_def)
  with t snoc.prems show ?case
    using reach_push [OF t(1), of e] stream_push [of t e] by auto
qed

lemma stream_settled:
  assumes "list_all json_data es"
  shows "\<exists>t. reach {start_theater v} (theater_step env) t \<and> settled t \<and> t_stream t = es"
proof -
  obtain t where t: "reach {start_theater v} (theater_step env) t" "t_stream t = es"
    using stream_reached [OF assms] by blast
  from settling.settles [OF t(1)] obtain as t'
    where "theater_run env as t = Some t'" "settled t'" "t_stream t' = t_stream t" by blast
  with t show ?thesis by (blast intro: theater_run_reach)
qed

section \<open>The frames of a run\<close>

text \<open>
  The events the node streams (\<open>api/runs.go\<close>, \<open>Event\<close>; \<open>worker/worker.go\<close>,
  \<open>Step\<close>) as it encodes them: a change of the run's state, a step - without a \<open>hash\<close>
  property when it has no hash -, and the two events a run ends with.
\<close>

datatype node_event = StateEvent string | StepEvent string string string string

definition step_record :: "string \<Rightarrow> string \<Rightarrow> string \<Rightarrow> string \<Rightarrow> jsval" where
  "step_record k l status h = JObj ([(''key'', JStr k), (''label'', JStr l), (''status'', JStr status)] @
     (if h = '''' then [] else [(''hash'', JStr h)]))"

fun node_frame :: "node_event \<Rightarrow> jsval" where
  "node_frame (StateEvent st) = JObj [(''type'', JStr ''state''), (''state'', JStr st)]"
| "node_frame (StepEvent k l status h) = JObj [(''type'', JStr ''step''), (''step'', step_record k l status h)]"

definition done_frame :: "string \<Rightarrow> jsval" where
  "done_frame rid = JObj [(''type'', JStr ''done''), (''state'', JStr ''complete''), (''receiptId'', JStr rid)]"

definition error_frame :: "string \<Rightarrow> jsval" where
  "error_frame msg = JObj [(''type'', JStr ''error''), (''state'', JStr ''failed''), (''error'', JStr msg)]"

definition string_labels :: "run_env \<Rightarrow> bool" where
  "string_labels env \<longleftrightarrow> (\<forall>(k, l) \<in> set (e_labels env). is_str l)"

text \<open>A key \<open>set\<close> accepts: a mounted one, or one no object inherits.\<close>

definition safe_key :: "spine \<Rightarrow> string \<Rightarrow> bool" where
  "safe_key sp k \<longleftrightarrow> map_of (sp_index sp) k \<noteq> None \<or> \<not> truthy (proto_member k)"

definition same_but_stage :: "view \<Rightarrow> view \<Rightarrow> bool" where
  "same_but_stage v w \<longleftrightarrow> v_location w = v_location v \<and> v_emits w = v_emits v \<and>
     sp_index (v_spine w) = sp_index (v_spine v) \<and> spine_inv (v_spine w)"

lemma label_text: "string_labels env \<Longrightarrow> \<exists>s. to_str (obj_get (e_labels env) k) = Inr s"
proof (cases "map_of (e_labels env) k")
  case (Some a)
  assume "string_labels env"
  with map_of_SomeD [OF Some] have "is_str a" by (auto simp: string_labels_def)
  with Some show ?thesis by (auto simp: obj_get_def is_str_iff)
qed (simp add: obj_get_def proto_member_def)

lemma step_record_props:
  "get_prop (step_record k l status h) ''key'' = Inr (JStr k)"
  "get_prop (step_record k l status h) ''label'' = Inr (JStr l)"
  "get_prop (step_record k l status h) ''status'' = Inr (JStr status)"
  "get_prop (step_record k l status h) ''hash'' = Inr (if h = '''' then JUndef else JStr h)"
  "truthy (step_record k l status h)"
  by (simp_all add: step_record_def obj_get_simps proto_member_def proto_methods_def)

lemma swap_card_ok:
  assumes "string_labels env"
  shows "\<exists>v'. swap_card env (step_record k l s h) b v = Inr v' \<and>
           v_spine v' = v_spine v \<and> v_location v' = v_location v \<and> v_emits v' = v_emits v"
  using label_text [OF assms, of k]
  by (auto simp: swap_card_def step_record_props js_or_def to_text_def Let_def)

lemma set_node_ok:
  assumes "spine_inv (v_spine v)" and "safe_key (v_spine v) k" and "h = JUndef \<or> is_str h"
  shows "\<exists>v'. set_node (JStr k) st h v = Inr v' \<and> same_but_stage v v' \<and>
     (\<forall>k'. spine_node_at (v_spine v') k' = (if k' = k
        then map_option (\<lambda>n. n\<lparr>n_state := st, n_hash := hash_after h (n_hash n)\<rparr>) (spine_node_at (v_spine v) k)
        else spine_node_at (v_spine v) k'))"
proof -
  obtain sp where sp: "spine_set (v_spine v) (JStr k) (JStr st) h = Inr sp"
    using spine_set_ok [of "v_spine v" k h st] assms(2,3) unfolding safe_key_def by blast
  show ?thesis
    using sp spine_set_at [OF assms(1) sp] spine_set_inv [OF assms(1) sp]
    by (simp add: set_node_def same_but_stage_def)
qed

lemma safe_key_same: "same_but_stage v w \<Longrightarrow> safe_key (v_spine w) k = safe_key (v_spine v) k"
  by (simp add: same_but_stage_def safe_key_def)

lemma same_trans: "same_but_stage u v \<Longrightarrow> same_but_stage v w \<Longrightarrow> same_but_stage u w"
  by (simp add: same_but_stage_def)

text \<open>What an event makes of the node with key \<open>k\<close>.\<close>

fun after_event :: "node_event \<Rightarrow> string \<Rightarrow> spine_node \<Rightarrow> spine_node" where
  "after_event (StateEvent _) k n = n"
| "after_event (StepEvent k' _ _ h) k n =
     (if k' = k then n\<lparr>n_state := ''complete'', n_hash := (if h = '''' then n_hash n else h)\<rparr> else n)"

definition after_events :: "node_event list \<Rightarrow> string \<Rightarrow> spine_node \<Rightarrow> spine_node" where
  "after_events es k n = fold (\<lambda>e. after_event e k) es n"

lemma after_event_fun:
  "after_event (StateEvent st) k = id"
  "k' \<noteq> k \<Longrightarrow> after_event (StepEvent k l s h) k' = id"
  "after_event (StepEvent k l s h) k = (\<lambda>n. n\<lparr>n_state := ''complete'', n_hash := (if h = '''' then n_hash n else h)\<rparr>)"
  by (rule ext, simp)+

lemma after_events_fun:
  "after_events [] k = id" "after_events (e # evs) k = after_events evs k \<circ> after_event e k"
  by (rule ext, simp add: after_events_def)+

text \<open>An event of a run that goes on: any state, any step that did not fail.\<close>

fun going_on :: "spine \<Rightarrow> node_event \<Rightarrow> bool" where
  "going_on sp (StateEvent _) = True"
| "going_on sp (StepEvent k _ status _) = (safe_key sp k \<and> status \<noteq> ''failed'')"

lemma going_on_same: "same_but_stage v w \<Longrightarrow> going_on (v_spine w) e = going_on (v_spine v) e"
  by (cases e) (simp_all add: safe_key_same)

lemma step_event_narrated:
  assumes "string_labels env" and "spine_inv (v_spine v)" and "safe_key (v_spine v) k" and "s \<noteq> ''failed''"
  shows "\<exists>v'. (\<forall>es. narrate env (node_frame (StepEvent k l s h) # es) v = narrate env es v') \<and> same_but_stage v v' \<and>
     (\<forall>k'. spine_node_at (v_spine v') k' = map_option (after_event (StepEvent k l s h) k') (spine_node_at (v_spine v) k'))"
proof -
  let ?st = "step_record k l s h" and ?h = "if h = '''' then JUndef else JStr h"
  obtain v1 where v1: "set_node (JStr k) ''running'' JUndef v = Inr v1" "same_but_stage v v1"
    "\<And>k'. spine_node_at (v_spine v1) k' = (if k' = k
        then map_option (\<lambda>n. n\<lparr>n_state := ''running'', n_hash := n_hash n\<rparr>) (spine_node_at (v_spine v) k)
        else spine_node_at (v_spine v) k')"
    using set_node_ok [OF assms(2,3), of JUndef "''running''"] by auto
  obtain v2 where v2: "swap_card env ?st False v1 = Inr v2" "v_spine v2 = v_spine v1"
    "v_location v2 = v_location v1" "v_emits v2 = v_emits v1"
    using swap_card_ok [OF assms(1)] by blast
  have s2: "same_but_stage v v2" using v1(2) v2 by (simp add: same_but_stage_def)
  obtain v3 where v3: "set_node (JStr k) ''complete'' ?h v2 = Inr v3" "same_but_stage v2 v3"
    "\<And>k'. spine_node_at (v_spine v3) k' = (if k' = k
        then map_option (\<lambda>n. n\<lparr>n_state := ''complete'', n_hash := (if h = '''' then n_hash n else h)\<rparr>) (spine_node_at (v_spine v2) k)
        else spine_node_at (v_spine v2) k')"
    using set_node_ok [of v2 k ?h "''complete''"] s2 assms(3) safe_key_same [OF s2]
    by (cases "h = ''''") (auto simp: same_but_stage_def)
  obtain v4 where v4: "swap_card env ?st True v3 = Inr v4" "v_spine v4 = v_spine v3"
    "v_location v4 = v_location v3" "v_emits v4 = v_emits v3"
    using swap_card_ok [OF assms(1)] by blast
  have "same_but_stage v v4" using same_trans [OF s2 v3(2)] v4 by (simp add: same_but_stage_def)
  moreover have "on_event env (node_frame (StepEvent k l s h)) v = Inr (Pace ?st, v2)"
    using v1(1) v2(1) assms(4)
    by (simp add: on_event_def obj_get_simps proto_member_def proto_methods_def step_record_props)
  moreover have "complete_step env ?st v2 = Inr v4"
    using v3(1) v4(1) by (simp add: complete_step_def step_record_props)
  ultimately show ?thesis
    using v1(3) v2(2) v3(3) v4(2) by (intro exI [of _ v4]) (cases "spine_node_at (v_spine v) k"; simp add: after_event_fun option.map_id)
qed

lemma event_narrated:
  assumes "string_labels env" and "spine_inv (v_spine v)" and "going_on (v_spine v) e"
  shows "\<exists>v'. (\<forall>es. narrate env (node_frame e # es) v = narrate env es v') \<and> same_but_stage v v' \<and>
     (\<forall>k. spine_node_at (v_spine v') k = map_option (after_event e k) (spine_node_at (v_spine v) k))"
proof (cases e)
  case (StateEvent st)
  then have "on_event env (node_frame e) v = Inr (Ignore, v)"
    by (simp add: on_event_def obj_get_simps proto_member_def proto_methods_def)
  then show ?thesis using assms(2) StateEvent
    by (intro exI [of _ v]) (simp add: same_but_stage_def after_event_fun option.map_id)
next
  case (StepEvent k l s h)
  with step_event_narrated [OF assms(1,2)] assms(3) show ?thesis by simp
qed

lemma events_narrated:
  assumes "string_labels env" and "spine_inv (v_spine v)" and "list_all (going_on (v_spine v)) evs"
  shows "\<exists>v'. (\<forall>es. narrate env (map node_frame evs @ es) v = narrate env es v') \<and> same_but_stage v v' \<and>
     (\<forall>k. spine_node_at (v_spine v') k = map_option (after_events evs k) (spine_node_at (v_spine v) k))"
  using assms(2,3)
proof (induction evs arbitrary: v)
  case Nil
  then show ?case by (intro exI [of _ v]) (simp add: after_events_fun same_but_stage_def id_def option.map_ident)
next
  case (Cons e evs)
  from event_narrated [OF assms(1) Cons.prems(1), of e] Cons.prems(2)
  obtain v1 where v1: "\<And>es. narrate env (node_frame e # es) v = narrate env es v1" "same_but_stage v v1"
    "\<And>k. spine_node_at (v_spine v1) k = map_option (after_event e k) (spine_node_at (v_spine v) k)" by auto
  have "spine_inv (v_spine v1)" "list_all (going_on (v_spine v1)) evs"
    using v1(2) Cons.prems(2) going_on_same [OF v1(2)] by (simp_all add: same_but_stage_def list_all_iff)
  from Cons.IH [OF this] obtain v2 where v2: "\<And>es. narrate env (map node_frame evs @ es) v1 = narrate env es v2"
    "same_but_stage v1 v2"
    "\<And>k. spine_node_at (v_spine v2) k = map_option (after_events evs k) (spine_node_at (v_spine v1) k)" by blast
  have "spine_node_at (v_spine v2) k = map_option (after_events (e # evs) k) (spine_node_at (v_spine v) k)" for k
    by (simp add: v2(3) v1(3) after_events_fun option.map_comp)
  moreover have "same_but_stage v v2" by (rule same_trans [OF v1(2) v2(2)])
  moreover have "narrate env (map node_frame (e # evs) @ es) v = narrate env es v2" for es
    using v1(1) v2(1) by simp
  ultimately show ?case by blast
qed

lemma after_event_stays: "n_state n = ''complete'' \<Longrightarrow> n_state (after_event e k n) = ''complete''"
  by (cases e) auto

lemma after_events_complete: "StepEvent k l s h \<in> set evs \<Longrightarrow> n_state (after_events evs k n) = ''complete''"
proof (induction evs arbitrary: n rule: rev_induct)
  case (snoc e evs)
  then show ?case by (auto simp: after_events_def intro: after_event_stays)
qed simp

section \<open>Complete, failed and interrupted runs\<close>

lemma seal_nodes: "spine_node_at (spine_seal_timer (snd (spine_seal sp))) k = spine_node_at sp k"
  by (simp add: spine_seal_timer_def spine_seal_def spine_node_at_def)

lemma done_narrated:
  assumes "rid \<noteq> ''''"
  shows "\<exists>v'. narrated env (done_frame rid # rest) v = Inr (Sealed (JStr rid), v') \<and>
     v_location v' = Some (''#/r/'' @ rid) \<and> v_card v' = StageCard ''Proof sealed'' '''' t_opening \<and>
     v_emits v' = v_emits v @ [Emit ''demo.completed'' (if e_kermit env then ''kermit'' else ''local'') ''success''] \<and>
     (\<forall>k. spine_node_at (v_spine v') k = spine_node_at (v_spine v) k)"
  using assms seal_nodes [of "v_spine v"]
  by (auto simp: narrated_def done_frame_def on_event_def on_done_def obj_get_simps proto_member_def
      proto_methods_def emit_def open_receipt_def Let_def split: prod.splits)

lemma start_run_view:
  assumes "start_run css theme kermit reduce anim started cache = Inr (env, t0, cache')"
  shows "t0 = start_theater (t_view t0) \<and> spine_inv (v_spine (t_view t0)) \<and> v_emits (t_view t0) = [] \<and>
         v_location (t_view t0) = None \<and> e_kermit env = kermit"
  using assms mount_spine_inv
  by (auto simp: start_run_def rbind_eq_Inr start_theater_def await_next_def split: prod.splits)

text \<open>C4: A run whose stream is any sequence of state changes and steps that did not fail, with or
without a hash, followed by done, ends sealed: every reported node is complete and has the last
hash reported for it, one success event was emitted, and the location is the receipt, whatever
arrives later.\<close>

theorem complete_run_opens_receipt:
  assumes "start_run css theme kermit reduce anim started cache = Inr (env, t0, cache')"
    and "reach {t0} (theater_step env) t" and "settled t" and "string_labels env"
    and "list_all (going_on (v_spine (t_view t0))) evs" and "rid \<noteq> ''''"
    and "t_stream t = map node_frame evs @ done_frame rid # rest"
  shows "t_pc t = Finished \<and> v_location (t_view t) = Some (''#/r/'' @ rid) \<and>
         v_card (t_view t) = StageCard ''Proof sealed'' '''' t_opening \<and>
         v_emits (t_view t) = [Emit ''demo.completed'' (if kermit then ''kermit'' else ''local'') ''success''] \<and>
         (\<forall>k. spine_node_at (v_spine (t_view t)) k =
              map_option (after_events evs k) (spine_node_at (v_spine (t_view t0)) k)) \<and>
         (\<forall>k l st h n. StepEvent k l st h \<in> set evs \<longrightarrow> spine_node_at (v_spine (t_view t)) k = Some n \<longrightarrow>
              n_state n = ''complete'')"
proof -
  let ?v = "t_view t0"
  note st = start_run_view [OF assms(1)]
  have reach: "reach {start_theater ?v} (theater_step env) t" using assms(2) st by simp
  obtain v1 where v1: "\<And>es. narrate env (map node_frame evs @ es) ?v = narrate env es v1" "same_but_stage ?v v1"
    "\<And>k. spine_node_at (v_spine v1) k = map_option (after_events evs k) (spine_node_at (v_spine ?v) k)"
    using events_narrated [OF assms(4) _ assms(5)] st by blast
  obtain v2 where v2: "narrated env (done_frame rid # rest) v1 = Inr (Sealed (JStr rid), v2)"
    "v_location v2 = Some (''#/r/'' @ rid)" "v_card v2 = StageCard ''Proof sealed'' '''' t_opening"
    "v_emits v2 = v_emits v1 @ [Emit ''demo.completed'' (if e_kermit env then ''kermit'' else ''local'') ''success'']"
    "\<And>k. spine_node_at (v_spine v2) k = spine_node_at (v_spine v1) k"
    using done_narrated [OF assms(6)] by blast
  have "narrated env (t_stream t) ?v = Inr (Sealed (JStr rid), v2)"
    using v1(1) v2(1) by (simp add: narrated_def assms(7))
  then have "t_pc t = Finished" "t_view t = v2"
    using settled_shown [OF theater.inv_reach [OF reach] assms(3)] by (simp_all add: shown_def)
  then show ?thesis using v2 v1(2,3) st by (auto simp: same_but_stage_def dest: after_events_complete)
qed

theorem error_frame_shows_message:
  assumes "start_run css theme kermit reduce anim started cache = Inr (env, t0, cache')"
    and "reach {t0} (theater_step env) t" and "settled t" and "string_labels env"
    and "list_all (going_on (v_spine (t_view t0))) evs" and "msg \<noteq> ''''"
    and "t_stream t = map node_frame evs @ error_frame msg # rest"
  shows "t_pc t = Finished \<and> v_card (t_view t) = FailNote msg \<and> v_location (t_view t) = None \<and>
         v_emits (t_view t) = [Emit ''error.step'' (if kermit then ''kermit'' else ''local'') ''failure'']"
proof -
  let ?v = "t_view t0"
  note st = start_run_view [OF assms(1)]
  have reach: "reach {start_theater ?v} (theater_step env) t" using assms(2) st by simp
  obtain v1 where v1: "\<And>es. narrate env (map node_frame evs @ es) ?v = narrate env es v1" "same_but_stage ?v v1"
    using events_narrated [OF assms(4) _ assms(5)] st by blast
  have "narrated env (t_stream t) ?v = Inr (Failed, (emit env ''error.step'' ''failure'' v1)\<lparr>v_card := FailNote msg\<rparr>)"
    using v1(1) assms(6) by (simp add: narrated_def assms(7) error_frame_def on_event_def obj_get_simps
        proto_member_def proto_methods_def fail_run_def)
  then show ?thesis
    using settled_shown [OF theater.inv_reach [OF reach] assms(3)] v1(2) st
    by (simp add: shown_def emit_def same_but_stage_def)
qed

text \<open>The name a failure note gives a stage: its label in the steps of the run, or its key.\<close>

definition stage_name :: "run_env \<Rightarrow> string \<Rightarrow> string" where
  "stage_name env k = (case map_of (e_labels env) k of Some (JStr l) \<Rightarrow> if l = '''' then k else l | _ \<Rightarrow> k)"

lemma stage_name_text:
  assumes "string_labels env" and "map_of (e_labels env) k = None \<Longrightarrow> \<not> truthy (proto_member k)"
  shows "to_str (js_or (obj_get (e_labels env) k) (JStr k)) = Inr (stage_name env k)"
proof (cases "map_of (e_labels env) k")
  case None
  then show ?thesis using assms(2) by (simp add: stage_name_def obj_get_None)
next
  case (Some a)
  with assms(1) map_of_SomeD [OF Some] obtain l where "a = JStr l" by (auto simp: string_labels_def is_str_iff)
  with Some show ?thesis by (simp add: stage_name_def obj_get_Some js_or_def)
qed

text \<open>C33: When a step of a run fails, whatever follows it in the stream - the error event with the
reason included, as the node sends it after the change of state -, the card shows only that this
stage failed, the message is never shown and no failure event is emitted.\<close>

theorem failed_step_hides_error:
  assumes "start_run css theme kermit reduce anim started cache = Inr (env, t0, cache')"
    and "reach {t0} (theater_step env) t" and "settled t" and "string_labels env"
    and "list_all (going_on (v_spine (t_view t0))) evs" and "safe_key (v_spine (t_view t0)) k"
    and "map_of (e_labels env) k = None \<Longrightarrow> \<not> truthy (proto_member k)"
    and "t_stream t = map node_frame evs @ node_frame (StepEvent k l ''failed'' h) # rest"
  shows "t_pc t = Finished \<and> v_emits (t_view t) = [] \<and> v_location (t_view t) = None \<and>
         v_card (t_view t) = FailNote (''Stage '' @ u_lquo @ stage_name env k @ u_rquo @ '' failed.'')"
proof -
  let ?v = "t_view t0" and ?note = "''Stage '' @ u_lquo @ stage_name env k @ u_rquo @ '' failed.''"
  note st = start_run_view [OF assms(1)]
  have reach: "reach {start_theater ?v} (theater_step env) t" using assms(2) st by simp
  obtain v1 where v1: "\<And>es. narrate env (map node_frame evs @ es) ?v = narrate env es v1" "same_but_stage ?v v1"
    using events_narrated [OF assms(4) _ assms(5)] st by blast
  have "spine_inv (v_spine v1)" "safe_key (v_spine v1) k"
    using v1(2) assms(6) safe_key_same by (auto simp: same_but_stage_def)
  from set_node_ok [OF this, of JUndef "''failed''"]
  obtain v2 where v2: "set_node (JStr k) ''failed'' JUndef v1 = Inr v2" "same_but_stage v1 v2" by auto
  have "on_failed_step env (JStr k) v1 = Inr (Ended, v2\<lparr>v_card := FailNote ?note\<rparr>)"
    using v2(1) stage_name_text [OF assms(4,7)] by (simp add: on_failed_step_def fail_run_def)
  then have "on_event env (node_frame (StepEvent k l ''failed'' h)) v1 = Inr (Ended, v2\<lparr>v_card := FailNote ?note\<rparr>)"
    by (simp add: on_event_def obj_get_simps proto_member_def proto_methods_def step_record_props)
  then have "narrated env (t_stream t) ?v = Inr (Failed, v2\<lparr>v_card := FailNote ?note\<rparr>)"
    using v1(1) by (simp add: narrated_def assms(8))
  then show ?thesis
    using settled_shown [OF theater.inv_reach [OF reach] assms(3)] v1(2) v2(2) st
    by (simp add: shown_def same_but_stage_def)
qed

text \<open>
  Once the run is sealed nothing that still arrives can change what it shows: the error event
  of the stream the server closes, frames that were already on their way, or ticks in any order.
\<close>

definition sealed_as :: "jsval \<Rightarrow> view \<Rightarrow> theater \<Rightarrow> bool" where
  "sealed_as rid w t \<longleftrightarrow> t_terminated t \<and> t_closed t \<and>
     (t_pc t = Sealing rid \<and> t_view t = w \<or>
      t_pc t = Finished \<and> open_receipt rid w = Inr (t_view t) \<or>
      t_pc t = Crashed \<and> (\<exists>x. to_str rid = Inl x) \<and> v_card (t_view t) = v_card w \<and> v_emits (t_view t) = v_emits w)"

lemma open_receipt_throws: "open_receipt rid w = Inl x \<longleftrightarrow> to_str rid = Inl x"
  by (cases "to_str rid") (simp_all add: open_receipt_def)

lemma sealed_as_step: "theater_step env t t' \<Longrightarrow> sealed_as rid w t \<Longrightarrow> sealed_as rid w t'"
proof (induction rule: theater_step.induct)
  case (tick a t t')
  then show ?case
    by (cases a) (auto simp: sealed_as_def resume_def timer_def open_receipt_throws split: sum.splits if_splits)
qed

lemma open_receipt_view:
  "open_receipt rid w = Inr v \<Longrightarrow> v_card v = v_card w \<and> v_emits v = v_emits w \<and>
     (\<exists>r. to_str rid = Inr r \<and> v_location v = Some (''#/r/'' @ r))"
  by (auto simp: open_receipt_def rbind_eq_Inr)

lemma closed_tick:
  "theater_do env a s = Some u \<Longrightarrow> (t_pc s = Sealing rid \<longrightarrow> t_terminated s \<and> t_closed s) \<Longrightarrow>
     t_pc u = Sealing rid \<Longrightarrow> t_terminated u \<and> t_closed u"
  by (cases a)
    (auto simp: resume_def timer_def settle_reaction_def await_next_def Let_def
      split: if_splits sum.splits prod.splits reaction.splits pc.splits)

lemma sealing_closed:
  "reach {start_theater v} (theater_step env) t \<Longrightarrow> t_pc t = Sealing rid \<longrightarrow> t_terminated t \<and> t_closed t"
proof (induction rule: reach.induct)
  case (reach_step s u)
  from reach_step(2) show ?case
    by (rule theater_step.cases) (use reach_step(3) closed_tick in \<open>blast\<close>)
qed (simp add: start_theater_def await_next_def)

text \<open>The beat ends at the receipt when its id has a text.\<close>

lemma seal_timer_opens:
  assumes "t_pc t = Sealing rid" and "to_str rid = Inr r"
  shows "\<exists>u. theater_do env Timer t = Some u \<and> t_pc u = Finished \<and> v_location (t_view u) = Some (''#/r/'' @ r)"
  using assms by (simp add: timer_def open_receipt_def)

text \<open>C14: Once a run is sealed nothing that still arrives, the error of the closed stream included,
changes its card or its telemetry. If its receipt id has a text, the run is over on that receipt
or its timer is still pending and opens it; only an id that cannot be converted to text makes it
crash instead.\<close>

theorem sealed_run_is_final:
  assumes "reach {start_theater v} (theater_step env) t" and "t_pc t = Sealing rid"
    and "(theater_step env)\<^sup>*\<^sup>* t t'"
  shows "v_card (t_view t') = v_card (t_view t) \<and> v_emits (t_view t') = v_emits (t_view t) \<and>
    (case to_str rid of
       Inr r \<Rightarrow> (t_pc t' = Finished \<and> v_location (t_view t') = Some (''#/r/'' @ r)) \<or>
         (t_pc t' = Sealing rid \<and> (\<exists>u. theater_do env Timer t' = Some u \<and> t_pc u = Finished \<and>
            v_location (t_view u) = Some (''#/r/'' @ r)))
     | Inl _ \<Rightarrow> t_pc t' = Sealing rid \<or> t_pc t' = Crashed)"
proof -
  have "sealed_as rid (t_view t) t" using assms(2) sealing_closed [OF assms(1)] by (simp add: sealed_as_def)
  with assms(3) have "sealed_as rid (t_view t) t'"
    by (induction rule: rtranclp_induct) (auto intro: sealed_as_step)
  then show ?thesis
    using seal_timer_opens [of t' rid _ env]
    by (cases "to_str rid") (auto simp: sealed_as_def dest!: open_receipt_view)
qed

text \<open>Telemetry of a run: nothing before it ends, and one event at most.\<close>

definition run_emits :: "run_env \<Rightarrow> ending \<Rightarrow> emission list set" where
  "run_emits env r = (let m = (if e_kermit env then ''kermit'' else ''local'') in case r of
     Listening \<Rightarrow> {[]}
   | Failed \<Rightarrow> {[], [Emit ''error.step'' m ''failure'']}
   | Sealed _ \<Rightarrow> {[Emit ''demo.completed'' m ''success'']})"

definition same_report :: "view \<Rightarrow> view \<Rightarrow> bool" where
  "same_report v w \<longleftrightarrow> v_emits w = v_emits v \<and> v_location w = v_location v"

lemma same_report_trans: "same_report u v \<Longrightarrow> same_report v w \<Longrightarrow> same_report u w"
  by (simp add: same_report_def)

lemma set_node_report: "set_node k st h v = Inr v' \<Longrightarrow> same_report v v'"
  by (auto simp: set_node_def rbind_eq_Inr same_report_def)

lemma swap_card_report: "swap_card env s b v = Inr v' \<Longrightarrow> same_report v v'"
  by (auto simp: swap_card_def rbind_eq_Inr Let_def same_report_def)

lemma fail_run_report: "fail_run m v = Inr v' \<Longrightarrow> same_report v v'"
  by (auto simp: fail_run_def rbind_eq_Inr same_report_def)

lemmas step_reports = set_node_report swap_card_report fail_run_report

lemma complete_step_report: "complete_step env s v = Inr v' \<Longrightarrow> same_report v v'"
  unfolding complete_step_def rbind_eq_Inr by (blast intro: same_report_trans step_reports)

lemma on_failed_step_report: "on_failed_step env k v = Inr (r, v') \<Longrightarrow> r = Ended \<and> same_report v v'"
  unfolding on_failed_step_def rbind_eq_Inr by (blast intro: same_report_trans step_reports)

lemma on_done_report:
  "on_done env rid v = Inr (r, v') \<Longrightarrow> r = ToSeal rid \<and> v_location v' = v_location v \<and>
     v_emits v' = v_emits v @ [Emit ''demo.completed'' (if e_kermit env then ''kermit'' else ''local'') ''success'']"
  by (auto simp: on_done_def emit_def Let_def split: prod.splits)

lemma on_event_cases:
  assumes "on_event env e v = Inr (r, v')"
  shows "(r = Ignore \<and> v' = v) \<or> (\<exists>k. on_failed_step env k v = Inr (r, v')) \<or>
    (\<exists>st k v1. r = Pace st \<and> set_node k ''running'' JUndef v = Inr v1 \<and> swap_card env st False v1 = Inr v') \<or>
    (\<exists>rid. on_done env rid v = Inr (r, v')) \<or>
    (\<exists>m. r = Ended \<and> fail_run m (emit env ''error.step'' ''failure'' v) = Inr v') \<or>
    (\<exists>m. r = Ended \<and> fail_run m v = Inr v')"
proof (cases "truthy e")
  case True
  with assms obtain ty st rid err where *:
    "(if ty = JStr ''step'' \<and> truthy st then
        rbind (get_prop st ''status'') (\<lambda>status. rbind (get_prop st ''key'') (\<lambda>k.
        if status = JStr ''failed'' then on_failed_step env k v
        else rbind (set_node k ''running'' JUndef v) (\<lambda>v1.
             rbind (swap_card env st False v1) (\<lambda>v2. Inr (Pace st, v2)))))
      else if ty = JStr ''done'' \<and> truthy rid then on_done env rid v
      else if ty = JStr ''error'' then
        rbind (fail_run err (emit env ''error.step'' ''failure'' v)) (\<lambda>v1. Inr (Ended, v1))
      else if ty = JStr ''__sse_error'' then
        rbind (fail_run (JStr t_lost) v) (\<lambda>v1. Inr (Ended, v1))
      else Inr (Ignore, v)) = Inr (r, v')"
    unfolding on_event_def rbind_eq_Inr by (auto simp only: if_not_P rbind_eq_Inr simp_thms if_False)
  show ?thesis
  proof (cases "ty = JStr ''step'' \<and> truthy st")
    case True
    with * obtain status k where
      "(if status = JStr ''failed'' then on_failed_step env k v
        else rbind (set_node k ''running'' JUndef v) (\<lambda>v1.
             rbind (swap_card env st False v1) (\<lambda>v2. Inr (Pace st, v2)))) = Inr (r, v')"
      by (auto simp only: if_P rbind_eq_Inr simp_thms if_True)
    then show ?thesis by (cases "status = JStr ''failed''") (auto simp: rbind_eq_Inr)
  next
    case no_step: False
    note ** = * [unfolded if_not_P [OF no_step]]
    show ?thesis
    proof (cases "ty = JStr ''done'' \<and> truthy rid")
      case True
      with ** have "on_done env rid v = Inr (r, v')" by simp
      then show ?thesis by blast
    next
      case False
      note *** = ** [unfolded if_not_P [OF False]]
      then show ?thesis
        by (cases "ty = JStr ''error''"; cases "ty = JStr ''__sse_error''") (auto simp: rbind_eq_Inr)
    qed
  qed
qed (use assms in \<open>simp add: on_event_def\<close>)

lemma on_event_emits:
  assumes "on_event env e v = Inr (r, v')" and "v_emits v = []"
  shows "v_location v' = v_location v \<and>
     (case r of Ignore \<Rightarrow> v_emits v' = [] | Pace _ \<Rightarrow> v_emits v' = []
      | Ended \<Rightarrow> v_emits v' \<in> run_emits env Failed | ToSeal rid \<Rightarrow> v_emits v' \<in> run_emits env (Sealed rid))"
  using on_event_cases [OF assms(1)]
proof (elim disjE exE conjE)
  fix st k v1 assume "r = Pace st" "set_node k ''running'' JUndef v = Inr v1" "swap_card env st False v1 = Inr v'"
  then show ?thesis
    using same_report_trans [OF set_node_report swap_card_report] assms(2) by (simp add: same_report_def)
qed (use assms(2) in \<open>auto dest!: on_failed_step_report on_done_report fail_run_report
     simp: same_report_def run_emits_def emit_def\<close>)

lemma swap_card_wreck_report: "same_report v (swap_card_wreck env st v)"
  by (simp add: swap_card_wreck_def same_report_def Let_def split: sum.split card.split)

lemma event_wreck_report:
  assumes "v_emits v = []"
  shows "v_emits (snd (event_wreck env e v)) \<in> run_emits env Listening \<union> run_emits env Failed \<and>
         v_location (snd (event_wreck env e v)) = v_location v"
proof -
  have s: "same_report v (case set_node k st JUndef v of Inl _ \<Rightarrow> v | Inr v1 \<Rightarrow> v1)"
    "same_report v (case set_node k st JUndef v of Inl _ \<Rightarrow> v | Inr v1 \<Rightarrow> swap_card_wreck env x v1)" for k st x
    using set_node_report [of k st JUndef v] same_report_trans [OF _ swap_card_wreck_report]
    by (auto simp: same_report_def split: sum.splits)
  have l: "v_emits w \<in> run_emits env Listening \<and> v_location w = v_location v" if "same_report v w" for w
    using that assms by (simp add: same_report_def run_emits_def)
  have f: "v_emits (emit env ''error.step'' ''failure'' v) \<in> run_emits env Failed"
    "v_location (emit env ''error.step'' ''failure'' v) = v_location v" "same_report v v"
    using assms by (simp_all add: run_emits_def emit_def same_report_def)
  show ?thesis
    unfolding event_wreck_def Let_def
    using l [OF s(1)] l [OF s(2)] l [OF f(3)] f(1,2) by (simp split: if_split)
qed

definition report_inv :: "run_env \<Rightarrow> theater \<Rightarrow> bool" where
  "report_inv env t \<longleftrightarrow> (case t_pc t of
     Sealing rid \<Rightarrow> v_emits (t_view t) \<in> run_emits env (Sealed rid)
   | Finished \<Rightarrow> (\<exists>r. v_emits (t_view t) \<in> run_emits env r) \<and>
       (v_location (t_view t) \<noteq> None \<longrightarrow> (\<exists>rid. v_emits (t_view t) \<in> run_emits env (Sealed rid)))
   | Crashed \<Rightarrow> (\<exists>r. v_emits (t_view t) \<in> run_emits env r)
   | _ \<Rightarrow> v_emits (t_view t) = []) \<and>
   (t_pc t \<noteq> Finished \<longrightarrow> v_location (t_view t) = None)"

lemma run_emits_Listening [simp]: "[] \<in> run_emits env Listening"
  by (simp add: run_emits_def)

lemma report_inv_frame:
  "report_inv env t \<Longrightarrow> report_inv env (t\<lparr>t_chan := c\<rparr>)"
  by (cases "t_pc t") (simp_all add: report_inv_def)

lemma report_inv_resume:
  assumes "report_inv env t" and "resume env t = Some t'"
  shows "report_inv env t'"
proof -
  have pc: "t_pc t = Awaiting" and nil: "v_emits (t_view t) = []" "v_location (t_view t) = None"
    using assms by (auto simp: resume_def report_inv_def split: if_splits)
  have none: "\<exists>r. [] \<in> run_emits env r" by (rule exI [of _ Listening]) simp
  let ?e = "ch_delivered (t_chan t) ! t_taken t" and ?t = "t\<lparr>t_taken := t_taken t + 1\<rparr>"
  show ?thesis
  proof (cases "t_terminated t")
    case True
    then show ?thesis using assms(2) pc nil none by (auto simp: resume_def report_inv_def Let_def split: if_splits)
  next
    case False
    then have t': "t' = settle_reaction (event_wreck env ?e (t_view t)) (on_event env ?e (t_view t)) ?t"
      using assms(2) by (auto simp: resume_def Let_def split: if_splits)
    show ?thesis
    proof (cases "on_event env ?e (t_view t)")
      case (Inl x)
      then show ?thesis using nil event_wreck_report [OF nil(1), of env ?e]
        by (auto simp add: t' settle_reaction_def report_inv_def)
    next
      case (Inr p)
      obtain r v where p: "p = (r, v)" by (cases p)
      from on_event_emits [OF Inr [unfolded p] nil(1)] nil(2) Inr p show ?thesis
        by (cases r) (auto simp: t' settle_reaction_def report_inv_def await_next_def)
    qed
  qed
qed

lemma report_inv_timer:
  assumes "report_inv env t" and "timer env t = Some t'"
  shows "report_inv env t'"
proof (cases "t_pc t")
  case (Pacing st)
  have none: "\<exists>r. [] \<in> run_emits env r" by (rule exI [of _ Listening]) simp
  have nil: "v_emits (t_view t) = []" "v_location (t_view t) = None"
    using assms(1) Pacing by (simp_all add: report_inv_def)
  show ?thesis
  proof (cases "complete_step env st (t_view t)")
    case (Inr v)
    with complete_step_report [OF Inr] show ?thesis
      using assms(2) Pacing nil none by (auto simp: timer_def report_inv_def same_report_def split: if_splits)
  qed (use assms(2) Pacing nil none in \<open>auto simp: timer_def report_inv_def split: if_splits\<close>)
next
  case Pausing
  then show ?thesis using assms by (auto simp: timer_def report_inv_def await_next_def)
next
  case (Sealing rid)
  show ?thesis
  proof (cases "open_receipt rid (t_view t)")
    case (Inr v)
    with open_receipt_view [OF Inr] show ?thesis
      using assms Sealing by (auto simp: timer_def report_inv_def)
  qed (use assms Sealing in \<open>auto simp: timer_def report_inv_def\<close>)
qed (use assms(2) in \<open>simp_all add: timer_def\<close>)

lemma report_inv_step: "theater_step env t t' \<Longrightarrow> report_inv env t \<Longrightarrow> report_inv env t'"
proof (induction rule: theater_step.induct)
  case (tick a t t')
  then show ?case
    by (cases a) (auto intro: report_inv_frame report_inv_resume report_inv_timer split: sum.splits if_splits)
qed

interpretation report: invariant_system
  "{start_theater v |v. v_emits v = [] \<and> v_location v = None}" "theater_step env" "report_inv env" for env
proof (unfold_locales, goal_cases)
  case (1 s) then show ?case by (auto simp: report_inv_def start_theater_def await_next_def)
next
  case (2 s t) then show ?case by (rule report_inv_step)
qed

text \<open>C20: In every reachable state a run has reported at most one telemetry event, and a run that
opened a receipt reported its success.\<close>

theorem one_telemetry_event:
  assumes "reach {start_theater v} (theater_step env) t" and "v_emits v = []" and "v_location v = None"
  shows "(\<exists>r. v_emits (t_view t) \<in> run_emits env r) \<and> length (v_emits (t_view t)) \<le> 1 \<and>
         (v_location (t_view t) \<noteq> None \<longrightarrow> (\<exists>rid. v_emits (t_view t) \<in> run_emits env (Sealed rid)))"
proof -
  have "reach {start_theater v |v. v_emits v = [] \<and> v_location v = None} (theater_step env) t"
    by (rule reach_mono [OF assms(1)]) (use assms(2,3) in auto)
  then have r: "report_inv env t" by (rule report.inv_reach)
  have none: "[] \<in> run_emits env Listening" by simp
  have len: "es \<in> run_emits env r \<Longrightarrow> length es \<le> 1" for es r
    by (auto simp: run_emits_def Let_def split: ending.splits)
  show ?thesis
    using r none by (cases "t_pc t") (auto simp: report_inv_def dest: len intro: exI [of _ Listening])
qed

text \<open>What one callback of a run adds to its report: one of the two events with their literal words.\<close>

definition run_words :: "emission set" where
  "run_words = {e. \<exists>m \<in> {''kermit'', ''local''}. e = Emit ''demo.completed'' m ''success'' \<or> e = Emit ''error.step'' m ''failure''}"

definition tells :: "view \<Rightarrow> view \<Rightarrow> bool" where
  "tells v w \<longleftrightarrow> (\<exists>es. v_emits w = v_emits v @ es \<and> set es \<subseteq> run_words)"

lemma same_report_tells: "same_report v w \<Longrightarrow> tells v w"
  by (simp add: same_report_def tells_def)

lemma tells_trans: "tells u v \<Longrightarrow> tells v w \<Longrightarrow> tells u w"
  unfolding tells_def by (metis append.assoc set_append Un_least)

lemma emit_tells:
  "tells v (emit env ''error.step'' ''failure'' v)"
  "v_emits w = v_emits v @ [Emit ''demo.completed'' (if e_kermit env then ''kermit'' else ''local'') ''success''] \<Longrightarrow> tells v w"
  by (auto simp: tells_def run_words_def emit_def)

lemma on_event_tells:
  assumes "on_event env e v = Inr (r, v')" shows "tells v v'"
  using on_event_cases [OF assms]
proof (elim disjE exE conjE)
  fix m assume "fail_run m (emit env ''error.step'' ''failure'' v) = Inr v'"
  then show ?thesis using tells_trans [OF emit_tells(1) same_report_tells [OF fail_run_report]] by blast
next
  fix st k v1 assume "set_node k ''running'' JUndef v = Inr v1" "swap_card env st False v1 = Inr v'"
  then show ?thesis using same_report_tells [OF same_report_trans [OF set_node_report swap_card_report]] by blast
next
  fix rid assume "on_done env rid v = Inr (r, v')"
  then show ?thesis using on_done_report emit_tells(2) by blast
next
  assume "v' = v" then show ?thesis by (simp add: same_report_tells same_report_def)
qed (use on_failed_step_report fail_run_report same_report_tells in blast)+

lemma event_wreck_tells: "tells v (snd (event_wreck env e v))"
proof -
  have s: "same_report v (case set_node k st JUndef v of Inl _ \<Rightarrow> v | Inr v1 \<Rightarrow> v1)"
    "same_report v (case set_node k st JUndef v of Inl _ \<Rightarrow> v | Inr v1 \<Rightarrow> swap_card_wreck env x v1)" "same_report v v" for k st x
    using set_node_report [of k st JUndef v] same_report_trans [OF _ swap_card_wreck_report]
    by (auto simp: same_report_def split: sum.splits)
  show ?thesis
    unfolding event_wreck_def Let_def
    using same_report_tells [OF s(1)] same_report_tells [OF s(2)] same_report_tells [OF s(3)] emit_tells(1) [of v env]
    by (simp split: if_split)
qed

lemma resume_tells: "resume env t = Some t' \<Longrightarrow> tells (t_view t) (t_view t')"
  using same_report_tells [of "t_view t" "t_view t"] event_wreck_tells on_event_tells
  by (auto simp: resume_def settle_reaction_def await_next_def Let_def same_report_def
      split: if_splits sum.splits prod.splits reaction.splits)

lemma timer_tells: "timer env t = Some t' \<Longrightarrow> tells (t_view t) (t_view t')"
  using same_report_tells [of "t_view t" "t_view t"]
  by (auto simp: timer_def await_next_def same_report_def tells_def split: pc.splits if_splits sum.splits
      dest!: open_receipt_view complete_step_report)

lemma theater_tells: "theater_do env a t = Some t' \<Longrightarrow> tells (t_view t) (t_view t')"
  using same_report_tells [of "t_view t" "t_view t"]
  by (cases a) (auto simp: same_report_def intro: resume_tells timer_tells split: sum.splits if_splits)

text \<open>Only the end of the seal beat assigns a location.\<close>

lemma on_event_location:
  assumes "on_event env e v = Inr (r, v')" shows "v_location v' = v_location v"
  using on_event_cases [OF assms]
proof (elim disjE exE conjE)
  fix st k v1 assume "set_node k ''running'' JUndef v = Inr v1" "swap_card env st False v1 = Inr v'"
  then show ?thesis using same_report_trans [OF set_node_report swap_card_report] by (simp add: same_report_def)
qed (auto dest!: on_failed_step_report on_done_report fail_run_report simp: same_report_def emit_def)

lemma event_wreck_location: "v_location (snd (event_wreck env e v)) = v_location v"
  using set_node_report [of _ _ JUndef v] swap_card_wreck_report [of _ env]
  by (auto simp: event_wreck_def Let_def same_report_def emit_def split: sum.split)

lemma theater_location:
  assumes "theater_do env a t = Some t'" and "a = Timer \<longrightarrow> (\<forall>rid. t_pc t \<noteq> Sealing rid)"
  shows "v_location (t_view t') = v_location (t_view t)"
  using assms
  by (cases a)
    (auto simp: resume_def settle_reaction_def await_next_def timer_def same_report_def Let_def event_wreck_location
      dest!: on_event_location complete_step_report
      split: if_splits sum.splits prod.splits reaction.splits pc.splits)

section \<open>A run of one stage\<close>

definition sample_started :: jsval where
  "sample_started = JObj [(''id'', JStr ''r1''), (''steps'', JArr [skeleton_step ''plan'' ''Compile the plan''])]"

lemma sample_run:
  "\<exists>env t0 c. start_run css theme False True False sample_started [] = Inr (env, t0, c) \<and> string_labels env \<and>
     map_of (e_labels env) ''run'' = None \<and>
     spine_node_at (v_spine (t_view t0)) ''plan'' \<noteq> None \<and> map_of (sp_index (v_spine (t_view t0))) ''plan'' \<noteq> None"
  by (cases "stage_color css theme ''plan'' []")
    (simp add: start_run_def sample_started_def skeleton_step_def run_steps_def obj_get_simps js_or_def
      to_text_def mount_spine_def mount_node_def index_nodes_def string_labels_def start_theater_def await_next_def
      RUN_SHORT_LABEL_def spine_node_at_def proto_member_def proto_methods_def)

lemma settled_run:
  assumes "start_run css theme kermit reduce anim started cache = Inr (env, t0, cache')"
    and "list_all json_data es"
  shows "\<exists>t. reach {t0} (theater_step env) t \<and> settled t \<and> t_stream t = es"
  using stream_settled [OF assms(2), of "t_view t0" env] start_run_view [OF assms(1)] by simp

text \<open>What the node sends for a run of that stage, from the first event to the last but one.\<close>

definition plan_events :: "node_event list" where
  "plan_events = [StateEvent ''running'', StepEvent ''plan'' ''Compile the plan'' ''complete'' ''a1b2'',
     StepEvent ''verify'' ''Verified independently (no node trust)'' ''complete'' '''', StateEvent ''complete'']"

lemma plan_events_go_on:
  "map_of (sp_index sp) ''plan'' \<noteq> None \<Longrightarrow> list_all (going_on sp) plan_events"
  by (simp add: plan_events_def safe_key_def proto_member_def proto_methods_def)

lemma frames_data:
  "list_all json_data (map node_frame plan_events @ [done_frame ''r1'', error_frame ''late''])"
  "list_all json_data (map node_frame plan_events @ [error_frame ''no funds'', error_frame ''late''])"
  "list_all json_data (map node_frame [StateEvent ''running''] @ node_frame (StepEvent ''run'' ''Run failed'' ''failed'' '''') #
     [node_frame (StateEvent ''failed''), error_frame ''no funds''])"
  by (simp_all add: plan_events_def step_record_def done_frame_def error_frame_def)

theorem complete_run_opens_receipt_witness:
  "\<exists>env t0 t n. reach {t0} (theater_step env) t \<and> v_location (t_view t) = Some ''#/r/r1'' \<and>
     spine_node_at (v_spine (t_view t)) ''plan'' = Some n \<and> n_state n = ''complete'' \<and> n_hash n = ''a1b2''"
proof -
  obtain env t0 c where r: "start_run sample_css None False True False sample_started [] = Inr (env, t0, c)"
    "string_labels env" and p: "spine_node_at (v_spine (t_view t0)) ''plan'' \<noteq> None"
    "map_of (sp_index (v_spine (t_view t0))) ''plan'' \<noteq> None"
    using sample_run by blast
  obtain t where t: "reach {t0} (theater_step env) t" "settled t"
    "t_stream t = map node_frame plan_events @ [done_frame ''r1'', error_frame ''late'']"
    using settled_run [OF r(1) frames_data(1)] by blast
  from complete_run_opens_receipt [OF r(1) t(1,2) r(2) plan_events_go_on [OF p(2)], of "''r1''"] t(3) p(1) show ?thesis
    by (intro exI [of _ env] exI [of _ t0] exI [of _ t]) (auto simp: t(1) plan_events_def after_events_def)
qed

theorem error_frame_shows_message_witness:
  "\<exists>env t0 t. reach {t0} (theater_step env) t \<and> v_card (t_view t) = FailNote ''no funds''"
proof -
  obtain env t0 c where r: "start_run sample_css None False True False sample_started [] = Inr (env, t0, c)"
    "string_labels env" and p: "map_of (sp_index (v_spine (t_view t0))) ''plan'' \<noteq> None"
    using sample_run by blast
  obtain t where t: "reach {t0} (theater_step env) t" "settled t"
    "t_stream t = map node_frame plan_events @ [error_frame ''no funds'', error_frame ''late'']"
    using settled_run [OF r(1) frames_data(2)] by blast
  from error_frame_shows_message [OF r(1) t(1,2) r(2) plan_events_go_on [OF p], of "''no funds''"] t(1,3) show ?thesis by auto
qed

theorem failed_step_hides_error_witness:
  "\<exists>env t0 t. reach {t0} (theater_step env) t \<and>
     t_stream t = [node_frame (StateEvent ''running''), node_frame (StepEvent ''run'' ''Run failed'' ''failed'' ''''),
       node_frame (StateEvent ''failed''), error_frame ''no funds''] \<and>
     v_card (t_view t) = FailNote (''Stage '' @ u_lquo @ ''run'' @ u_rquo @ '' failed.'')"
proof -
  obtain env t0 c where r: "start_run sample_css None False True False sample_started [] = Inr (env, t0, c)"
    "string_labels env" and n: "map_of (e_labels env) ''run'' = None"
    using sample_run by blast
  obtain t where t: "reach {t0} (theater_step env) t" "settled t"
    "t_stream t = map node_frame [StateEvent ''running''] @ node_frame (StepEvent ''run'' ''Run failed'' ''failed'' '''') #
     [node_frame (StateEvent ''failed''), error_frame ''no funds'']"
    using settled_run [OF r(1) frames_data(3)] by blast
  have p: "\<not> truthy (proto_member ''run'')" by (simp add: proto_member_def proto_methods_def)
  then have k: "safe_key (v_spine (t_view t0)) ''run''" by (simp add: safe_key_def)
  from failed_step_hides_error [OF r(1) t(1,2) r(2) _ k p t(3)] t(1,3) n
  show ?thesis by (intro exI [of _ env] exI [of _ t0] exI [of _ t]) (simp add: stage_name_def)
qed

definition sample_env :: run_env where
  "sample_env = \<lparr>e_kermit = False, e_labels = [], e_reduce = False, e_can_animate = True\<rparr>"

definition sample_view :: view where
  "sample_view = \<lparr>v_spine = \<lparr>sp_nodes = [], sp_index = [], sp_reduce = False, sp_can_animate = True,
       sp_animations = [], sp_sealing = False, sp_sealed = False\<rparr>,
     v_card = StageCard t_starting '''' t_asking, v_card_anims = 0, v_location = None, v_emits = []\<rparr>"

lemma sample_settled:
  "\<exists>t. reach {start_theater sample_view} (theater_step sample_env) t \<and> settled t \<and> t_stream t = [done_frame ''r1'']"
  by (rule stream_settled) (simp add: done_frame_def)

theorem theater_shows_narration_witness:
  "\<exists>t. shown t (narrated sample_env [done_frame ''r1''] sample_view)"
proof -
  obtain t where "reach {start_theater sample_view} (theater_step sample_env) t" "settled t"
    "t_stream t = [done_frame ''r1'']" using sample_settled by blast
  with theater_shows_narration [of sample_view sample_env t] show ?thesis by auto
qed

theorem theater_settles_witness:
  "\<exists>as t'. length as \<le> work (start_theater sample_view) \<and> theater_run sample_env as (start_theater sample_view) = Some t' \<and> settled t'"
  using theater_settles [of sample_view sample_env "start_theater sample_view"] by (blast intro: reach_init)

lemma sample_sealing:
  "\<exists>t. theater_run sample_env [Frame (json_text (done_frame ''r1'')), Resume] (start_theater sample_view) = Some t \<and>
       t_pc t = Sealing (JStr ''r1'') \<and> v_card (t_view t) = StageCard ''Proof sealed'' '''' t_opening"
proof -
  have "json_parse (json_text (done_frame ''r1'')) = Inr (done_frame ''r1'')"
    by (rule json_parse_text) (simp add: done_frame_def)
  then show ?thesis
    by (simp add: start_theater_def await_next_def chan_defs resume_def settle_reaction_def on_event_def
        on_done_def done_frame_def obj_get_simps spine_seal_def sample_view_def proto_member_def proto_methods_def emit_def)
qed

theorem sealed_run_is_final_witness:
  "\<exists>t. theater_run sample_env [Frame (json_text (done_frame ''r1'')), Resume, SourceError, Timer] (start_theater sample_view) = Some t \<and>
       v_card (t_view t) = StageCard ''Proof sealed'' '''' t_opening"
proof -
  obtain t where t: "theater_run sample_env [Frame (json_text (done_frame ''r1'')), Resume] (start_theater sample_view) = Some t"
    "t_pc t = Sealing (JStr ''r1'')" "v_card (t_view t) = StageCard ''Proof sealed'' '''' t_opening"
    using sample_sealing by blast
  have r: "reach {start_theater sample_view} (theater_step sample_env) t"
    by (rule theater_run_reach [OF t(1)]) (simp add: reach_init)
  obtain t' where t': "theater_do sample_env SourceError t = Some t" "theater_do sample_env Timer t = Some t'"
    using t(2) sealing_closed [OF r] by (auto simp: timer_def)
  have "(theater_step sample_env)\<^sup>*\<^sup>* t t'" using t' by (blast intro: theater_step.intros)
  from sealed_run_is_final [OF r t(2) this] t have "v_card (t_view t') = v_card (t_view t)" by simp
  then show ?thesis using t t' by (auto simp: bind_eq_Some_conv)
qed

theorem one_telemetry_event_witness:
  "\<exists>t. reach {start_theater sample_view} (theater_step sample_env) t \<and> t_stream t = [done_frame ''r1''] \<and>
     length (v_emits (t_view t)) \<le> 1"
proof -
  obtain t where "reach {start_theater sample_view} (theater_step sample_env) t" 
    "t_stream t = [done_frame ''r1'']" using sample_settled by blast
  with one_telemetry_event [of sample_view sample_env t] show ?thesis by (auto simp: sample_view_def)
qed

theorem theater_terminates_witness:
  "\<exists>t t'. theater_run sample_env [Frame (json_text (done_frame ''r1''))] (start_theater sample_view) = Some t \<and>
     theater_run sample_env [Resume] t = Some t' \<and> \<not> settled t' \<and> 1 + work t' \<le> work t \<and>
     (\<exists>t''. theater_do sample_env Timer t' = Some t'' \<and> settled t'')"
proof -
  obtain t' where t': "theater_run sample_env [Frame (json_text (done_frame ''r1'')), Resume] (start_theater sample_view) = Some t'"
    "t_pc t' = Sealing (JStr ''r1'')"
    using sample_sealing by blast
  then obtain t where t: "theater_run sample_env [Frame (json_text (done_frame ''r1''))] (start_theater sample_view) = Some t"
    "theater_run sample_env [Resume] t = Some t'"
    by (auto simp: bind_eq_Some_conv)
  have r: "reach {start_theater sample_view} (theater_step sample_env) t"
    by (rule theater_run_reach [OF t(1)]) (simp add: reach_init)
  have "list_all own_tick [Resume]" by (simp add: own_tick_def)
  from theater_terminates [OF r this t(2)] have "1 + work t' \<le> work t" by simp
  moreover have "\<not> settled t'" using t'(2) by (simp add: settled_def)
  moreover have "\<exists>t''. theater_do sample_env Timer t' = Some t'' \<and> settled t''"
    using t'(2) by (simp add: timer_def settled_def split: sum.split)
  ultimately show ?thesis using t by blast
qed

end
