(* ===== verification/App.thy ===== *)
theory App
  imports Flows Theme Route RunTheater
begin

text \<open>
  The shell of \<open>web/playground.js\<close>: requests to the node (\<open>api\<close>) and the error box
  (\<open>showError\<close>), the configuration with the mode and flow the visitor selected, the
  landing page (\<open>renderHome\<close>, \<open>modeButton\<close>, \<open>flowButton\<close>), its ambient spine, and
  \<open>boot\<close> with the footer claim. The card of a user error comes from a shared module: it
  is the argument \<open>ue\<close>, the content made from a \<open>userError\<close> value. The message of an
  engine error is the argument \<open>emsg\<close>.
\<close>

section \<open>Requests\<close>

record response =
  rs_ok :: bool
  rs_status :: nat
  rs_json :: "jsval option"
  rs_text :: string

datatype fetched = NetFail string | Got response

datatype failure = JsFail jserr | NetFailure string | ApiFailure string jsval nat

definition js :: "'a res \<Rightarrow> failure + 'a" where
  "js r = (case r of Inl e \<Rightarrow> Inl (JsFail e) | Inr x \<Rightarrow> Inr x)"

definition body_error :: "jsval \<Rightarrow> jsval res" where
  "body_error body = (if truthy body then get_prop body ''error'' else Inr body)"

definition error_message :: "string \<Rightarrow> nat \<Rightarrow> jsval \<Rightarrow> jsval res" where
  "error_message path status err =
     (if truthy err then rbind (get_prop err ''message'') (\<lambda>m. Inr (js_or m (JStr (path @ '': '' @ nat_str status))))
      else Inr (JStr (path @ '': '' @ nat_str status)))"

definition api :: "string \<Rightarrow> fetched \<Rightarrow> failure + jsval" where
  "api path f = (case f of
     NetFail m \<Rightarrow> Inl (NetFailure m)
   | Got r \<Rightarrow>
      (let body = (case rs_json r of Some v \<Rightarrow> v | None \<Rightarrow> JNull) in
       if rs_ok r then Inr body
       else rbind (js (body_error body)) (\<lambda>err.
            rbind (js (rbind (error_message path (rs_status r) err) to_str)) (\<lambda>m.
            Inl (ApiFailure m (if truthy err then err else JUndef) (rs_status r))))))"

text \<open>The value a handler passes to \<open>showError\<close>: its \<open>userError\<close>, \<open>message\<close> and text.\<close>

record shown_error =
  er_user :: jsval
  er_message :: jsval
  er_text :: string

definition plain_error :: "string \<Rightarrow> shown_error" where
  "plain_error m = \<lparr>er_user = JUndef, er_message = JStr m, er_text = ''[object Object]''\<rparr>"

text \<open>\<open>String(e)\<close> of an error object.\<close>

definition error_text :: "string \<Rightarrow> string \<Rightarrow> string" where
  "error_text name m = (if m = '''' then name else name @ '': '' @ m)"

fun error_name :: "jserr \<Rightarrow> string" where
  "error_name TypeErr = ''TypeError''"
| "error_name SyntaxErr = ''SyntaxError''"
| "error_name URIErr = ''URIError''"
| "error_name (Thrown m) = ''Error''"

fun failure_error :: "(jserr \<Rightarrow> string) \<Rightarrow> failure \<Rightarrow> shown_error" where
  "failure_error emsg (JsFail e) = \<lparr>er_user = JUndef, er_message = JStr (emsg e), er_text = error_text (error_name e) (emsg e)\<rparr>"
| "failure_error emsg (NetFailure m) = \<lparr>er_user = JUndef, er_message = JStr m, er_text = error_text ''TypeError'' m\<rparr>"
| "failure_error emsg (ApiFailure m u s) = \<lparr>er_user = u, er_message = JStr m, er_text = error_text ''Error'' m\<rparr>"

definition show_error :: "(jsval \<Rightarrow> 'h dom list) \<Rightarrow> shown_error \<Rightarrow> 'h dom res" where
  "show_error ue e =
     (if truthy (er_user e) then Inr (append_kids (elt ''div'' ''pg-error'' '''') (ue (er_user e)))
      else rbind (el ''div'' ''pg-note'' (js_or (er_message e) (JStr (er_text e)))) (\<lambda>n.
           Inr (append_kids (elt ''div'' ''pg-error'' '''')
             [elt ''div'' ''pg-action-title'' ''Something went wrong'', n])))"

section \<open>The landing page\<close>

record app =
  ap_config :: jsval
  ap_mode :: string
  ap_flow :: string
  ap_tele :: tele

definition default_config :: jsval where
  "default_config = JObj [(''kermitEnabled'', JBool False), (''allowedFlows'', JArr [JStr ''golden-escrow'']),
     (''modes'', JArr [JStr ''anonymous''])]"

definition badge_text :: "string \<Rightarrow> string" where
  "badge_text mode = (if mode = ''kermit'' then ''Kermit Sandbox (live testnet)'' else ''Anonymous Demo (fixture-backed)'')"

definition mode_button :: "app \<Rightarrow> string \<Rightarrow> string \<Rightarrow> bool \<Rightarrow> action dom" where
  "mode_button a mode lab enabled =
     (let b = on_click (ChooseMode mode)
                (put_attr ''aria-pressed'' (if ap_mode a = mode then ''true'' else ''false'')
                (put_attr ''type'' ''button'' (elt ''button'' ''pg-mode-btn'' lab)))
      in if enabled then b else put_attr ''title'' ''Disabled on this instance'' (put_attr ''disabled'' '''' b))"

definition flow_button :: "app \<Rightarrow> string \<Rightarrow> action dom res" where
  "flow_button a fid = rbind (flow_field fid ''label'') (\<lambda>lab.
     rbind (el ''button'' ''pg-mode-btn'' lab) (\<lambda>b.
     Inr (on_click (ChooseFlow fid)
       (put_attr ''aria-pressed'' (if ap_flow a = fid then ''true'' else ''false'') (put_attr ''type'' ''button'' b)))))"

definition link :: "string \<Rightarrow> string \<Rightarrow> string \<Rightarrow> action dom" where
  "link cls txt href = put_attr ''href'' href (elt ''a'' cls txt)"

definition button :: "string \<Rightarrow> string \<Rightarrow> action \<Rightarrow> action dom" where
  "button cls txt h = on_click h (put_attr ''type'' ''button'' (elt ''button'' cls txt))"

definition outside_link :: "string \<Rightarrow> string \<Rightarrow> action dom" where
  "outside_link txt href = put_attr ''rel'' ''noopener'' (put_attr ''target'' ''_blank'' (link ''pg-home-foot-link'' txt href))"

definition mode_note :: "bool \<Rightarrow> string" where
  "mode_note kermit = (if kermit
     then ''Anonymous is fixture-backed and caps at L3 (no live-L0 claim). Kermit runs live against the testnet and can reach L4.''
     else ''Anonymous is fixture-backed and caps at L3 (no live-L0 claim). Kermit Sandbox is disabled on this instance.'')"

definition home_cta :: "app \<Rightarrow> action dom res" where
  "home_cta a = rbind (flow_field (ap_flow a) ''cta'') (\<lambda>t.
     rbind (el ''button'' ''pg-btn pg-btn-primary pg-cta'' t) (\<lambda>run.
     Inr (append_kids (elt ''div'' ''pg-home-cta'' '''') [
       on_click (StartRun (ap_mode a) (ap_flow a)) (put_attr ''type'' ''button'' run),
       link ''pg-home-door'' (''Already have a proof? Verify it '' @ u_arrow) ''#/verify'',
       link ''pg-home-door'' (''or break one in the Tamper Lab '' @ u_arrow) ''#/lab''])))"

definition home_flows :: "app \<Rightarrow> action dom res" where
  "home_flows a = rbind (allowed_flow_ids (ap_config a)) (\<lambda>ids.
     rbind (rmapM (flow_button a) ids) (\<lambda>bs.
     Inr (append_kids (elt ''div'' ''pg-home-modes'' '''') (elt ''span'' ''pg-home-modes-label'' ''Flow'' # bs))))"

definition home_modes :: "app \<Rightarrow> bool \<Rightarrow> action dom" where
  "home_modes a kermit = append_kids (elt ''div'' ''pg-home-modes'' '''') [
     elt ''span'' ''pg-home-modes-label'' ''Mode'',
     mode_button a ''anonymous'' ''Anonymous demo'' True,
     mode_button a ''kermit'' ''Kermit sandbox'' kermit]"

definition home_footer :: "app \<Rightarrow> action dom" where
  "home_footer a =
     (let box = on_click OptInChanged (put_attr ''type'' ''checkbox'' (elt ''input'' '''' '''')) in
      append_kids (elt ''div'' ''pg-home-footer'' '''') [
        link ''pg-home-foot-link'' (''MetaMask signing '' @ u_arrow) ''#/metamask'',
        link ''pg-home-foot-link'' (''What it can do '' @ u_arrow) ''#/status'',
        outside_link (''Install the CLI '' @ u_arrow) ''https://github.com/opendlt/infrix-cli'',
        outside_link (''Build with the SDK '' @ u_arrow) ''https://github.com/opendlt/infrix-sdk-js'',
        outside_link (''GitHub '' @ u_arrow) ''https://github.com/opendlt'',
        append_kids (elt ''label'' ''pg-analytics-optin'' '''') [
          (if opted_in (ap_tele a) then put_attr ''checked'' '''' box else box),
          elt ''span'' '''' '' Share anonymous onboarding analytics (opt-in; no keys, no proof contents, never your data)'']])"

text \<open>The page below the ambient spine: the hero and the footer row.\<close>

definition render_home :: "app \<Rightarrow> action dom list res" where
  "render_home a =
     rbind (home_cta a) (\<lambda>cta. rbind (home_flows a) (\<lambda>flows.
     rbind (flow_field (ap_flow a) ''blurb'') (\<lambda>bl. rbind (el ''div'' ''pg-mode-note'' bl) (\<lambda>blurb.
     rbind (get_prop (ap_config a) ''kermitEnabled'') (\<lambda>k.
     Inr [append_kids (elt ''section'' ''pg-hero pg-home-hero'' '''') [
            elt ''div'' ''pg-home-spine'' '''',
            elt ''h1'' '''' ''See a governed deal prove itself.'',
            elt ''p'' '''' ''Run it, then verify every cryptographic link in your own browser. No install, no wallet, no trust in us.'',
            elt ''p'' ''pg-home-why'' (''Infrix is governed, verifiable execution on Accumulate. Most chains say '' @ [CHR 0x22] @
              ''valid because our node says so.'' @ [CHR 0x22] @ '' Infrix hands you a proof you re-verify yourself '' @ u_dash @
              '' against a server you don'' @ u_apos @ ''t have to trust.''),
            cta, flows, blurb, home_modes a (truthy k), elt ''div'' ''pg-mode-note'' (mode_note (truthy k))],
          home_footer a])))))"

text \<open>
  The actions a visitor can trigger: those of elements that are not disabled. Choosing a mode
  or a flow re-renders the page from the new selection; the consent box writes the state
  \<open>on\<close> the browser has just given it.
\<close>

definition live_actions :: "action dom list \<Rightarrow> action list" where
  "live_actions ds = concat (map (\<lambda>e. case d_on e of Some h \<Rightarrow> if attr e ''disabled'' = None then [h] else [] | None \<Rightarrow> [])
     (concat (map nodes ds)))"

fun home_do :: "bool \<Rightarrow> action \<Rightarrow> app \<Rightarrow> app" where
  "home_do on (ChooseMode m) a = a\<lparr>ap_mode := m\<rparr>"
| "home_do on (ChooseFlow f) a = a\<lparr>ap_flow := f\<rparr>"
| "home_do on OptInChanged a = a\<lparr>ap_tele := set_opt_in on (ap_tele a)\<rparr>"
| "home_do on _ a = a"

section \<open>Boot\<close>

definition footer_claim :: "bool \<Rightarrow> string" where
  "footer_claim kermit = (if kermit
     then ''Runs on the live Accumulate Kermit testnet '' @ u_dash @
       '' real anchors (reaches L4), no install, no wallet, no real funds.''
     else ''Runs a governed flow you verify yourself '' @ u_dash @
       '' no install, no wallet, no real funds. (Fixture-backed on this instance; caps at L3 '' @ u_dash @ '' no live-L0 claim.)'')"

text \<open>\<open>has_claim\<close>: the shell has the footer element. The result is its new text.\<close>

definition update_footer_claim :: "jsval \<Rightarrow> bool \<Rightarrow> string option res" where
  "update_footer_claim config has_claim =
     (if has_claim then rbind (get_prop config ''kermitEnabled'') (\<lambda>k. Inr (Some (footer_claim (truthy k))))
      else Inr None)"

text \<open>The configuration request: an exception after the assignment leaves the assigned value.\<close>

definition load_config :: "fetched \<Rightarrow> app \<Rightarrow> app" where
  "load_config f a = (case api ''/api/config'' f of
     Inl _ \<Rightarrow> a
   | Inr c \<Rightarrow> (case get_prop c ''kermitEnabled'' of
       Inl _ \<Rightarrow> a\<lparr>ap_config := c\<rparr>
     | Inr k \<Rightarrow> a\<lparr>ap_config := c, ap_mode := (if \<not> truthy k \<and> ap_mode a = ''kermit'' then ''anonymous'' else ap_mode a)\<rparr>))"

definition first_app :: "tele \<Rightarrow> app" where
  "first_app t = \<lparr>ap_config = default_config, ap_mode = ''anonymous'', ap_flow = ''golden-escrow'', ap_tele = t\<rparr>"

definition boot :: "string \<Rightarrow> string \<Rightarrow> bool \<Rightarrow> string \<Rightarrow> fetched \<Rightarrow> tele \<Rightarrow> (app \<times> string option \<times> page) res" where
  "boot time rnd has_claim location_hash f t =
     (let a = load_config f (first_app t) in
      rbind (update_footer_claim (ap_config a) has_claim) (\<lambda>claim.
      let a1 = a\<lparr>ap_tele := tele_emit time rnd ''page.loaded'' [] (ap_tele a)\<rparr> in
      rbind (route location_hash) (\<lambda>pg. Inr (a1, claim, pg))))"

section \<open>The ambient spine\<close>

record ambient =
  am_i :: nat
  am_spine :: spine
  am_pending :: bool

definition set_all :: "string list \<Rightarrow> string \<Rightarrow> spine \<Rightarrow> spine res" where
  "set_all keys st sp = foldl (\<lambda>r k. rbind r (\<lambda>s. spine_set s (JStr k) (JStr st) JUndef)) (Inr sp) keys"

text \<open>One tick; \<open>am_pending\<close> says whether a timer for the next one is set.\<close>

definition ambient_tick :: "string list \<Rightarrow> bool \<Rightarrow> ambient \<Rightarrow> ambient res" where
  "ambient_tick keys present m =
     (if \<not> present then Inr (m\<lparr>am_pending := False\<rparr>)
      else rbind (if am_i m = 0 then set_all keys ''pending'' (am_spine m) else Inr (am_spine m)) (\<lambda>sp.
           if am_i m < length keys
           then rbind (spine_set sp (JStr (keys ! am_i m)) (JStr ''complete'') JUndef) (\<lambda>sp1.
                Inr \<lparr>am_i = am_i m + 1, am_spine = sp1, am_pending = True\<rparr>)
           else Inr \<lparr>am_i = 0, am_spine = sp, am_pending = True\<rparr>))"

definition run_ambient :: "spine \<Rightarrow> string list \<Rightarrow> bool \<Rightarrow> bool \<Rightarrow> ambient res" where
  "run_ambient sp keys reduce present =
     (if reduce then rbind (set_all keys ''complete'' sp) (\<lambda>sp1. Inr \<lparr>am_i = 0, am_spine = sp1, am_pending = False\<rparr>)
      else ambient_tick keys present \<lparr>am_i = 0, am_spine = sp, am_pending = False\<rparr>)"

section \<open>What the landing page offers\<close>

definition live :: "action dom \<Rightarrow> action list" where
  "live e = concat (map (\<lambda>n. case d_on n of Some h \<Rightarrow> if attr n ''disabled'' = None then [h] else [] | None \<Rightarrow> []) (nodes e))"

lemma live_unfold:
  "live e = (case d_on e of Some h \<Rightarrow> if attr e ''disabled'' = None then [h] else [] | None \<Rightarrow> []) @ concat (map live (d_kids e))"
proof -
  have "concat (map f (concat (map g xs))) = concat (map (\<lambda>x. concat (map f (g x))) xs)"
    for f :: "action dom \<Rightarrow> action list" and g :: "action dom \<Rightarrow> action dom list" and xs
    by (induction xs) simp_all
  then show ?thesis
    unfolding live_def [abs_def] by (subst nodes_unfold) (simp del: map_concat)
qed

lemma live_actions_live: "live_actions ds = concat (map live ds)"
  unfolding live_actions_def live_def [abs_def] by (induction ds) simp_all

lemma live_leaf: "d_kids e = [] \<Longrightarrow> live e = (case d_on e of Some h \<Rightarrow> if attr e ''disabled'' = None then [h] else [] | None \<Rightarrow> [])"
  by (subst live_unfold) simp

lemma live_box: "d_on e = None \<Longrightarrow> d_kids e = [] \<Longrightarrow> live (append_kids e ks) = concat (map live ks)"
  by (subst live_unfold) simp

lemma live_elt [simp]: "live (elt t c x) = []"
  by (simp add: live_leaf)

lemma live_put_elt [simp]: "live (put_attr a v (elt t c x)) = []"
  by (simp add: live_leaf)

lemma live_link [simp]: "live (link c x h) = []" "live (outside_link x h) = []"
  by (simp_all add: link_def outside_link_def live_leaf)

lemma button_live [simp]: "live (button c t h) = [h]"
  by (simp add: button_def live_leaf)

lemma flow_button_live: "flow_button a f = Inr b \<Longrightarrow> live b = [ChooseFlow f]"
  by (auto simp: flow_button_def rbind_eq_Inr live_leaf dest!: el_Inr)
    (auto simp: attr_def put_attr_def on_click_def split: dom.splits)

lemma flow_buttons_live: "rmapM (flow_button a) ids = Inr bs \<Longrightarrow> concat (map live bs) = map ChooseFlow ids"
  by (induction ids arbitrary: bs) (auto simp: rbind_eq_Inr flow_button_live)

lemma mode_button_live: "live (mode_button a m l en) = (if en then [ChooseMode m] else [])"
  by (simp add: mode_button_def Let_def live_leaf)

lemma home_cta_live: "home_cta a = Inr e \<Longrightarrow> live e = [StartRun (ap_mode a) (ap_flow a)]"
proof -
  assume "home_cta a = Inr e"
  then obtain t run where r: "el ''button'' ''pg-btn pg-btn-primary pg-cta'' t = Inr run"
    "e = append_kids (elt ''div'' ''pg-home-cta'' '''') [
       on_click (StartRun (ap_mode a) (ap_flow a)) (put_attr ''type'' ''button'' run),
       link ''pg-home-door'' (''Already have a proof? Verify it '' @ u_arrow) ''#/verify'',
       link ''pg-home-door'' (''or break one in the Tamper Lab '' @ u_arrow) ''#/lab'']"
    unfolding home_cta_def rbind_eq_Inr by blast
  have "live (on_click (StartRun (ap_mode a) (ap_flow a)) (put_attr ''type'' ''button'' run)) = [StartRun (ap_mode a) (ap_flow a)]"
    using el_Inr [OF r(1)] by (simp add: live_leaf) (simp add: attr_def)
  then show ?thesis by (simp add: r(2) live_box)
qed

lemma home_footer_live: "live (home_footer a) = [OptInChanged]"
  by (simp add: home_footer_def Let_def live_box live_leaf)

lemma home_live:
  assumes "render_home a = Inr ds"
  shows "\<exists>ids k. allowed_flow_ids (ap_config a) = Inr ids \<and> get_prop (ap_config a) ''kermitEnabled'' = Inr k \<and>
    live_actions ds = StartRun (ap_mode a) (ap_flow a) # map ChooseFlow ids @
      ChooseMode ''anonymous'' # (if truthy k then [ChooseMode ''kermit''] else []) @ [OptInChanged]"
proof -
  obtain cta flows bl blurb k where r: "home_cta a = Inr cta" "home_flows a = Inr flows"
    "el ''div'' ''pg-mode-note'' bl = Inr blurb" "get_prop (ap_config a) ''kermitEnabled'' = Inr k"
    "ds = [append_kids (elt ''section'' ''pg-hero pg-home-hero'' '''') [
            elt ''div'' ''pg-home-spine'' '''',
            elt ''h1'' '''' ''See a governed deal prove itself.'',
            elt ''p'' '''' ''Run it, then verify every cryptographic link in your own browser. No install, no wallet, no trust in us.'',
            elt ''p'' ''pg-home-why'' (''Infrix is governed, verifiable execution on Accumulate. Most chains say '' @ [CHR 0x22] @
              ''valid because our node says so.'' @ [CHR 0x22] @ '' Infrix hands you a proof you re-verify yourself '' @ u_dash @
              '' against a server you don'' @ u_apos @ ''t have to trust.''),
            cta, flows, blurb, home_modes a (truthy k), elt ''div'' ''pg-mode-note'' (mode_note (truthy k))],
          home_footer a]"
    using assms unfolding render_home_def rbind_eq_Inr sum.inject by blast
  obtain ids bs where f: "allowed_flow_ids (ap_config a) = Inr ids" "rmapM (flow_button a) ids = Inr bs"
    "flows = append_kids (elt ''div'' ''pg-home-modes'' '''') (elt ''span'' ''pg-home-modes-label'' ''Flow'' # bs)"
    using r(2) unfolding home_flows_def rbind_eq_Inr sum.inject by blast
  have "live blurb = []" using el_Inr [OF r(3)] by (simp add: live_leaf)
  moreover have "live flows = map ChooseFlow ids" by (simp add: f(3) live_box flow_buttons_live [OF f(2)])
  moreover have "live (home_modes a (truthy k)) = ChooseMode ''anonymous'' # (if truthy k then [ChooseMode ''kermit''] else [])"
    by (simp add: home_modes_def live_box mode_button_live)
  ultimately show ?thesis
    using f(1) r(4) by (simp add: live_actions_live r(5) live_box home_cta_live [OF r(1)] home_footer_live)
qed

section \<open>Modes and flows\<close>

definition kermit_enabled :: "app \<Rightarrow> bool" where
  "kermit_enabled a \<longleftrightarrow> (\<exists>k. get_prop (ap_config a) ''kermitEnabled'' = Inr k \<and> truthy k)"

inductive home_step :: "app \<Rightarrow> app \<Rightarrow> bool" where
  click: "render_home a = Inr ds \<Longrightarrow> h \<in> set (live_actions ds) \<Longrightarrow> home_step a (home_do on h a)"

definition booted :: "app set" where
  "booted = {a. \<exists>time rnd has_claim h f t claim pg. boot time rnd has_claim h f t = Inr (a, claim, pg)}"

definition mode_inv :: "app \<Rightarrow> bool" where
  "mode_inv a \<longleftrightarrow> ap_mode a \<in> {''anonymous'', ''kermit''} \<and> (ap_mode a = ''kermit'' \<longrightarrow> kermit_enabled a)"

lemma load_config_mode: "ap_mode (load_config f (first_app t)) = ''anonymous''"
  by (auto simp: load_config_def first_app_def split: sum.splits)

lemma booted_mode_inv: "a \<in> booted \<Longrightarrow> mode_inv a"
  by (auto simp: booted_def boot_def Let_def rbind_eq_Inr mode_inv_def load_config_mode)

lemma home_step_mode_inv: "home_step a b \<Longrightarrow> mode_inv a \<Longrightarrow> mode_inv b"
proof (induction rule: home_step.induct)
  case (click a ds h)
  then show ?case using home_live [OF click(1)]
    by (auto simp: mode_inv_def kermit_enabled_def)
qed

interpretation home: invariant_system booted home_step mode_inv
  by unfold_locales (auto intro: booted_mode_inv home_step_mode_inv)

text \<open>C24: On every landing page a visit can reach, a run on the testnet can only be started when the
node enabled it.\<close>

theorem kermit_runs_only_when_enabled:
  assumes "reach booted home_step a" and "render_home a = Inr ds"
    and "StartRun m f \<in> set (live_actions ds)"
  shows "m \<in> {''anonymous'', ''kermit''} \<and> (m = ''kermit'' \<longrightarrow> kermit_enabled a)"
  using home_live [OF assms(2)] assms(3) home.inv_reach [OF assms(1)] by (auto simp: mode_inv_def)

text \<open>
  The call to action runs the selected flow, which is the escrow from the start, whether or not
  the node advertises it.
\<close>

theorem cta_runs_unadvertised_flow:
  assumes "render_home a = Inr ds" and "ap_flow a = ''golden-escrow''"
    and "get_prop (ap_config a) ''allowedFlows'' = Inr (JArr adv)"
    and "JStr ''golden-escrow'' \<notin> set adv" and "JStr ''create-did'' \<in> set adv"
  shows "StartRun (ap_mode a) ''golden-escrow'' \<in> set (live_actions ds) \<and>
         ChooseFlow ''golden-escrow'' \<notin> set (live_actions ds)"
proof -
  have "adv \<noteq> []" using assms(5) by auto
  then have "allowed_flow_ids (ap_config a) = Inr (filter (\<lambda>f. JStr f \<in> set adv) registered)"
    using assms(3,5) by (cases adv) (auto simp: allowed_flow_ids_def advertised_flows_def registered_FLOWS Let_def
        registered_def)
  then show ?thesis using home_live [OF assms(1)] assms(2,4) by auto
qed

section \<open>Boot\<close>

theorem footer_claims_live_only_when_enabled:
  assumes "boot time rnd has_claim h f t = Inr (a, Some claim, pg)"
  shows "claim = footer_claim (kermit_enabled a) \<and> (\<forall>e. api ''/api/config'' f = Inl e \<longrightarrow> \<not> kermit_enabled a)"
proof -
  let ?a = "load_config f (first_app t)"
  have c: "ap_config a = ap_config ?a" and
    u: "update_footer_claim (ap_config ?a) has_claim = Inr (Some claim)"
    using assms by (auto simp: boot_def Let_def rbind_eq_Inr)
  from u obtain k where k: "get_prop (ap_config ?a) ''kermitEnabled'' = Inr k" "claim = footer_claim (truthy k)"
    by (auto simp: update_footer_claim_def rbind_eq_Inr split: if_splits)
  have "\<not> kermit_enabled a" if "api ''/api/config'' f = Inl e" for e
    using that by (simp add: kermit_enabled_def c load_config_def first_app_def default_config_def obj_get_simps)
  with k c show ?thesis by (auto simp: kermit_enabled_def)
qed

theorem failed_config_keeps_defaults:
  assumes "api ''/api/config'' f = Inl e" and "route h = Inr pg"
  shows "\<exists>a. boot time rnd True h f t = Inr (a, Some (footer_claim False), pg) \<and> ap_config a = default_config \<and>
    ap_mode a = ''anonymous'' \<and> ap_flow a = ''golden-escrow''"
  using assms by (simp add: boot_def Let_def load_config_def first_app_def update_footer_claim_def default_config_def obj_get_simps)

theorem empty_config_breaks_boot:
  assumes "rs_ok r" and "rs_json r = None \<or> rs_json r = Some JNull"
  shows "boot time rnd True h (Got r) t = Inl TypeErr"
  using assms by (auto simp: boot_def Let_def load_config_def api_def update_footer_claim_def first_app_def)

theorem node_error_reaches_visitor:
  assumes "\<not> rs_ok r" and "rs_json r = Some (JObj [(''error'', JObj ((''message'', JStr m) # kvs))])" and "m \<noteq> ''''"
  shows "\<exists>u. api path (Got r) = Inl (ApiFailure m u (rs_status r)) \<and> truthy u \<and>
    show_error ue (failure_error emsg (ApiFailure m u (rs_status r))) = Inr (append_kids (elt ''div'' ''pg-error'' '''') (ue u))"
  using assms by (simp add: api_def Let_def body_error_def error_message_def js_def obj_get_simps show_error_def)

section \<open>The ambient spine\<close>

definition safe_keys :: "string list \<Rightarrow> spine \<Rightarrow> bool" where
  "safe_keys keys sp \<longleftrightarrow> spine_inv sp \<and> list_all (safe_key sp) keys"

definition state_at :: "spine \<Rightarrow> string \<Rightarrow> string option" where
  "state_at sp k = map_option n_state (spine_node_at sp k)"

lemma set_state:
  assumes "spine_inv sp" and "safe_key sp k"
  shows "\<exists>sp'. spine_set sp (JStr k) (JStr st) JUndef = Inr sp' \<and> spine_inv sp' \<and> sp_index sp' = sp_index sp \<and>
    (\<forall>k'. state_at sp' k' = (if k' = k then map_option (\<lambda>_. st) (state_at sp k) else state_at sp k'))"
proof -
  obtain sp' where sp': "spine_set sp (JStr k) (JStr st) JUndef = Inr sp'"
    using spine_set_ok [of sp k JUndef st] assms(2) by (auto simp: safe_key_def)
  show ?thesis
    using sp' spine_set_at [OF assms(1) sp'] spine_set_inv [OF assms(1) sp']
    by (auto simp: state_at_def option.map_comp comp_def)
qed

lemma set_all_Cons: "set_all (k # ks) st sp = rbind (spine_set sp (JStr k) (JStr st) JUndef) (set_all ks st)"
proof -
  have e: "foldl (\<lambda>r k. rbind r (\<lambda>s. spine_set s (JStr k) (JStr st) JUndef)) (Inl x) ks = Inl x" for x
    by (induction ks) simp_all
  show ?thesis
    by (cases "spine_set sp (JStr k) (JStr st) JUndef") (simp_all add: set_all_def e)
qed

lemma set_all_state:
  assumes "safe_keys keys sp"
  shows "\<exists>sp'. set_all keys st sp = Inr sp' \<and> spine_inv sp' \<and> sp_index sp' = sp_index sp \<and>
    (\<forall>k. state_at sp' k = (if k \<in> set keys then map_option (\<lambda>_. st) (state_at sp k) else state_at sp k))"
  using assms
proof (induction keys arbitrary: sp)
  case Nil
  then show ?case by (simp add: set_all_def safe_keys_def)
next
  case (Cons k ks)
  then obtain s1 where s1: "spine_set sp (JStr k) (JStr st) JUndef = Inr s1" "spine_inv s1" "sp_index s1 = sp_index sp"
    "\<And>k'. state_at s1 k' = (if k' = k then map_option (\<lambda>_. st) (state_at sp k) else state_at sp k')"
    using set_state [of sp k st] by (auto simp: safe_keys_def)
  have "safe_keys ks s1" using Cons.prems s1(2,3) by (auto simp: safe_keys_def safe_key_def list_all_iff)
  from Cons.IH [OF this] obtain s2 where "set_all ks st s1 = Inr s2" "spine_inv s2" "sp_index s2 = sp_index s1"
    "\<And>k. state_at s2 k = (if k \<in> set ks then map_option (\<lambda>_. st) (state_at s1 k) else state_at s1 k)" by blast
  with s1 show ?case by (auto simp: set_all_Cons option.map_comp comp_def)
qed

text \<open>The first \<open>p\<close> stages are complete and the others pending.\<close>

definition filled :: "string list \<Rightarrow> nat \<Rightarrow> spine \<Rightarrow> bool" where
  "filled keys p sp \<longleftrightarrow> safe_keys keys sp \<and> p \<le> length keys \<and>
     (\<forall>j < length keys. state_at sp (keys ! j) = Some (if j < p then ''complete'' else ''pending''))"

definition ambient_inv :: "string list \<Rightarrow> ambient \<Rightarrow> bool" where
  "ambient_inv keys m \<longleftrightarrow> am_i m \<le> length keys \<and> (am_i m \<noteq> 0 \<longrightarrow> filled keys (am_i m) (am_spine m)) \<and>
     (am_i m = 0 \<longrightarrow> filled keys 0 (am_spine m) \<or> filled keys (length keys) (am_spine m))"

inductive ambient_step :: "string list \<Rightarrow> ambient \<Rightarrow> ambient \<Rightarrow> bool" for keys :: "string list" where
  tick: "am_pending m \<Longrightarrow> ambient_tick keys present m = Inr m' \<Longrightarrow> ambient_step keys m m'"

lemma filled_reset:
  assumes "filled keys p sp"
  shows "\<exists>sp'. set_all keys ''pending'' sp = Inr sp' \<and> filled keys 0 sp'"
proof -
  obtain sp' where sp': "set_all keys ''pending'' sp = Inr sp'" "spine_inv sp'" "sp_index sp' = sp_index sp"
    "\<And>k. state_at sp' k = (if k \<in> set keys then map_option (\<lambda>_. ''pending'') (state_at sp k) else state_at sp k)"
    using set_all_state [of keys sp "''pending''"] assms by (auto simp: filled_def)
  have "safe_keys keys sp'" using assms sp'(2,3) by (auto simp: filled_def safe_keys_def safe_key_def list_all_iff)
  with assms sp'(1,4) show ?thesis by (auto simp: filled_def)
qed

lemma filled_next:
  assumes "filled keys i sp" and "i < length keys" and "distinct keys"
  shows "\<exists>sp'. spine_set sp (JStr (keys ! i)) (JStr ''complete'') JUndef = Inr sp' \<and> filled keys (Suc i) sp'"
proof -
  have "spine_inv sp" "safe_key sp (keys ! i)" using assms(1,2) by (auto simp: filled_def safe_keys_def list_all_length)
  from set_state [OF this, of "''complete''"] obtain sp' where
    sp': "spine_set sp (JStr (keys ! i)) (JStr ''complete'') JUndef = Inr sp'" "spine_inv sp'" "sp_index sp' = sp_index sp"
    "\<And>k'. state_at sp' k' = (if k' = keys ! i then map_option (\<lambda>_. ''complete'') (state_at sp (keys ! i)) else state_at sp k')"
    by blast
  have "safe_keys keys sp'" using assms(1) sp'(2,3) by (auto simp: filled_def safe_keys_def safe_key_def list_all_iff)
  moreover have "state_at sp' (keys ! j) = Some (if j < Suc i then ''complete'' else ''pending'')" if "j < length keys" for j
    using assms that by (cases "j = i") (auto simp: sp'(4) filled_def nth_eq_iff_index_eq less_Suc_eq)
  ultimately show ?thesis using sp'(1) assms(2) by (auto simp: filled_def)
qed

lemma ambient_tick_inv:
  assumes "ambient_inv keys m" and "distinct keys"
  shows "\<exists>m'. ambient_tick keys present m = Inr m' \<and> ambient_inv keys m' \<and> am_pending m' = present"
proof (cases present)
  case False
  then show ?thesis using assms(1) by (simp add: ambient_tick_def ambient_inv_def)
next
  case True
  show ?thesis
  proof (cases "am_i m = 0")
    case zero: True
    then obtain p where "filled keys p (am_spine m)" using assms(1) by (auto simp: ambient_inv_def)
    from filled_reset [OF this] obtain sp where sp: "set_all keys ''pending'' (am_spine m) = Inr sp" "filled keys 0 sp"
      by blast
    show ?thesis
    proof (cases "0 < length keys")
      case 0: True
      from filled_next [OF sp(2) 0 assms(2)] obtain sp' where
        "spine_set sp (JStr (keys ! 0)) (JStr ''complete'') JUndef = Inr sp'" "filled keys (Suc 0) sp'" by blast
      with True zero sp 0 show ?thesis by (auto simp: ambient_tick_def ambient_inv_def Suc_leI)
    next
      case no: False
      with True zero sp show ?thesis by (simp add: ambient_tick_def ambient_inv_def)
    qed
  next
    case pos: False
    then have f: "filled keys (am_i m) (am_spine m)" "am_i m \<le> length keys" using assms(1) by (auto simp: ambient_inv_def)
    show ?thesis
    proof (cases "am_i m < length keys")
      case lt: True
      from filled_next [OF f(1) lt assms(2)] obtain sp' where
        "spine_set (am_spine m) (JStr (keys ! am_i m)) (JStr ''complete'') JUndef = Inr sp'" "filled keys (Suc (am_i m)) sp'"
        by blast
      with True pos lt show ?thesis by (simp add: ambient_tick_def ambient_inv_def)
    next
      case no: False
      with f have "am_i m = length keys" by simp
      with True pos f show ?thesis by (simp add: ambient_tick_def ambient_inv_def)
    qed
  qed
qed

lemma mounted_filled:
  assumes "mount_spine ss reduce anim = Inr sp"
  shows "filled (map n_key (sp_nodes sp)) 0 sp"
proof -
  have inv: "spine_inv sp" by (rule mount_spine_inv [OF assms])
  obtain ns where ns: "rmapM mount_node ss = Inr ns" "sp_nodes sp = ns" "sp_index sp = index_nodes ns"
    using assms by (auto simp: mount_spine_def rbind_eq_Inr)
  have pend: "n_state n = ''pending''" if "n \<in> set ns" for n
  proof -
    from that obtain i where i: "i < length ns" "ns ! i = n" by (auto simp: in_set_conv_nth)
    then have "mount_node (ss ! i) = Inr n" using rmapM_Inr_nth [OF ns(1), of i] rmapM_Inr_length [OF ns(1)] by simp
    then show ?thesis using mount_node_pending by blast
  qed
  have at: "\<exists>i. map_of (sp_index sp) k = Some i \<and> i < length ns" if "k \<in> n_key ` set ns" for k
    using index_nodes_total [OF that] index_nodes_Some ns(3) by metis
  have "state_at sp k = Some ''pending''" if k: "k \<in> n_key ` set ns" for k
    using at [OF k] pend ns(2) by (auto simp: state_at_def spine_node_at_def)
  moreover have "safe_keys (map n_key ns) sp" using inv at by (auto simp: safe_keys_def safe_key_def list_all_iff)
  ultimately show ?thesis by (simp add: filled_def ns(2))
qed

interpretation ambient: invariant_system
  "{m. distinct keys \<and> ambient_inv keys m}" "ambient_step keys" "\<lambda>m. distinct keys \<and> ambient_inv keys m" for keys
proof (unfold_locales, goal_cases)
  case (2 s t)
  from 2(1) obtain present where "ambient_tick keys present s = Inr t" by cases
  with ambient_tick_inv [of keys s present] 2(2) show ?case by auto
qed simp

theorem ambient_fills_left_to_right:
  assumes "mount_spine ss False anim = Inr sp" and "keys = map n_key (sp_nodes sp)" and "distinct keys"
    and "run_ambient sp keys False True = Inr m0" and "reach {m0} (ambient_step keys) m"
  shows "(\<exists>p. filled keys p (am_spine m) \<and> (am_i m \<noteq> 0 \<longrightarrow> p = am_i m)) \<and>
         (\<exists>m'. ambient_tick keys True m = Inr m' \<and> am_pending m') \<and>
         (\<exists>m'. ambient_tick keys False m = Inr m' \<and> \<not> am_pending m' \<and> am_spine m' = am_spine m)"
proof -
  have "ambient_inv keys \<lparr>am_i = 0, am_spine = sp, am_pending = False\<rparr>"
    using mounted_filled [OF assms(1)] assms(2) by (simp add: ambient_inv_def)
  from ambient_tick_inv [OF this assms(3), of True] assms(4) have m0: "ambient_inv keys m0"
    by (simp add: run_ambient_def)
  have "reach {m. distinct keys \<and> ambient_inv keys m} (ambient_step keys) m"
    by (rule reach_mono [OF assms(5)]) (use m0 assms(3) in simp)
  then have inv: "ambient_inv keys m" using ambient.inv_reach by blast
  then have "\<exists>p. filled keys p (am_spine m) \<and> (am_i m \<noteq> 0 \<longrightarrow> p = am_i m)" by (auto simp: ambient_inv_def)
  with ambient_tick_inv [OF inv assms(3), of True] show ?thesis by (auto simp: ambient_tick_def)
qed

section \<open>A visit\<close>

definition kermit_config :: jsval where
  "kermit_config = JObj [(''kermitEnabled'', JBool True), (''allowedFlows'', JArr [JStr ''create-did''])]"

definition config_reply :: "jsval option \<Rightarrow> fetched" where
  "config_reply v = Got \<lparr>rs_ok = True, rs_status = 200, rs_json = v, rs_text = ''''\<rparr>"

definition kermit_app :: app where
  "kermit_app = load_config (config_reply (Some kermit_config)) (first_app sample_tele)"

lemma kermit_app: "ap_config kermit_app = kermit_config" "ap_mode kermit_app = ''anonymous''"
  "ap_flow kermit_app = ''golden-escrow''" "ap_tele kermit_app = sample_tele"
  by (simp_all add: kermit_app_def config_reply_def load_config_def api_def kermit_config_def obj_get_simps first_app_def)

lemma kermit_config_get: "get_prop kermit_config ''kermitEnabled'' = Inr (JBool True)"
  by (simp add: kermit_config_def obj_get_simps)

lemma kermit_booted: "\<exists>a claim. boot ''t'' ''r'' True ''#/'' (config_reply (Some kermit_config)) sample_tele = Inr (a, Some claim, Home) \<and>
    a = kermit_app\<lparr>ap_tele := tele_emit ''t'' ''r'' ''page.loaded'' [] sample_tele\<rparr>"
  by (simp add: boot_def Let_def kermit_app_def [symmetric] kermit_app update_footer_claim_def kermit_config_get
      route_def strip_hash_def starts_with_def)

lemma kermit_home: "\<exists>ds. render_home (kermit_app\<lparr>ap_tele := t\<rparr>) = Inr ds"
  "\<exists>ds. render_home (kermit_app\<lparr>ap_tele := t, ap_mode := m\<rparr>) = Inr ds"
  by (simp_all add: render_home_def home_cta_def home_flows_def flow_field_def flow_meta_def FLOWS_def flow_entry_def
      obj_get_simps js_or_def kermit_app kermit_config_def allowed_flow_ids_def advertised_flows_def flow_button_def)

theorem kermit_runs_only_when_enabled_witness:
  "\<exists>a ds. render_home a = Inr ds \<and> StartRun ''kermit'' ''golden-escrow'' \<in> set (live_actions ds) \<and> kermit_enabled a"
proof -
  let ?t = "tele_emit ''t'' ''r'' ''page.loaded'' [] sample_tele"
  let ?a = "kermit_app\<lparr>ap_tele := ?t\<rparr>" and ?b = "kermit_app\<lparr>ap_tele := ?t, ap_mode := ''kermit''\<rparr>"
  have a: "?a \<in> booted" using kermit_booted unfolding booted_def by blast
  obtain ds where ds: "render_home ?a = Inr ds" using kermit_home(1) by blast
  have "ChooseMode ''kermit'' \<in> set (live_actions ds)"
    using home_live [OF ds] by (auto simp: kermit_app kermit_config_def obj_get_simps)
  from home_step.click [OF ds this, of False] have s: "home_step ?a ?b" by simp
  have r: "reach booted home_step ?b" by (rule reach_step [of booted home_step ?a ?b, OF reach_init [OF a] s])
  obtain es where es: "render_home ?b = Inr es"
    using kermit_home(2) by blast
  have st: "StartRun ''kermit'' ''golden-escrow'' \<in> set (live_actions es)"
    using home_live [OF es] by (auto simp: kermit_app)
  from kermit_runs_only_when_enabled [OF r es st] es st show ?thesis by blast
qed

theorem cta_runs_unadvertised_flow_witness:
  "\<exists>ds. render_home (kermit_app\<lparr>ap_tele := sample_tele\<rparr>) = Inr ds \<and>
     StartRun ''anonymous'' ''golden-escrow'' \<in> set (live_actions ds) \<and>
     ChooseFlow ''golden-escrow'' \<notin> set (live_actions ds)"
proof -
  obtain ds where ds: "render_home (kermit_app\<lparr>ap_tele := sample_tele\<rparr>) = Inr ds" using kermit_home(1) by blast
  from cta_runs_unadvertised_flow [OF ds, of "[JStr ''create-did'']"] ds show ?thesis
    by (simp add: kermit_app kermit_config_def obj_get_simps)
qed

theorem footer_claims_live_only_when_enabled_witness:
  "\<exists>a. boot ''t'' ''r'' True ''#/'' (config_reply (Some kermit_config)) sample_tele = Inr (a, Some (footer_claim True), Home)"
proof -
  obtain a claim where b: "boot ''t'' ''r'' True ''#/'' (config_reply (Some kermit_config)) sample_tele = Inr (a, Some claim, Home)"
    and a: "a = kermit_app\<lparr>ap_tele := tele_emit ''t'' ''r'' ''page.loaded'' [] sample_tele\<rparr>"
    using kermit_booted by blast
  have "kermit_enabled a" by (simp add: kermit_enabled_def a kermit_app kermit_config_def obj_get_simps)
  with footer_claims_live_only_when_enabled [OF b] b show ?thesis by simp
qed

theorem failed_config_keeps_defaults_witness:
  "\<exists>a. boot ''t'' ''r'' True ''#/lab'' (NetFail ''offline'') sample_tele = Inr (a, Some (footer_claim False), Lab)"
  using failed_config_keeps_defaults [of "NetFail ''offline''" "NetFailure ''offline''" "''#/lab''" Lab "''t''" "''r''" sample_tele]
  by (auto simp: api_def route_def strip_hash_def starts_with_def)

theorem empty_config_breaks_boot_witness:
  "boot ''t'' ''r'' True ''#/'' (config_reply None) sample_tele = Inl TypeErr"
  unfolding config_reply_def by (rule empty_config_breaks_boot) simp_all

theorem node_error_reaches_visitor_witness:
  "\<exists>u. api ''/api/runs'' (Got \<lparr>rs_ok = False, rs_status = 429,
      rs_json = Some (JObj [(''error'', JObj [(''message'', JStr ''Slow down'')])]), rs_text = ''''\<rparr>) =
    Inl (ApiFailure ''Slow down'' u 429)"
  using node_error_reaches_visitor [of "\<lparr>rs_ok = False, rs_status = 429,
      rs_json = Some (JObj [(''error'', JObj [(''message'', JStr ''Slow down'')])]), rs_text = ''''\<rparr>" "''Slow down''" "[]"
      "''/api/runs''" "\<lambda>_. []"] by auto

theorem ambient_fills_left_to_right_witness:
  "\<exists>sp m0 m1. mount_spine [\<lparr>s_key = JStr ''intent'', s_label = JStr ''Intent'', s_color = JUndef\<rparr>] False False = Inr sp \<and>
     run_ambient sp [''intent''] False True = Inr m0 \<and> ambient_tick [''intent''] True m0 = Inr m1 \<and> am_pending m1"
proof -
  obtain sp where sp: "mount_spine [\<lparr>s_key = JStr ''intent'', s_label = JStr ''Intent'', s_color = JUndef\<rparr>] False False = Inr sp"
    by (simp add: mount_spine_def mount_node_def to_text_def)
  then have keys: "map n_key (sp_nodes sp) = [''intent'']" by (auto simp: mount_spine_def mount_node_def to_text_def)
  have f: "ambient_inv [''intent''] \<lparr>am_i = 0, am_spine = sp, am_pending = False\<rparr>"
    using mounted_filled [OF sp] keys by (simp add: ambient_inv_def)
  obtain m0 where m0: "run_ambient sp [''intent''] False True = Inr m0"
    using ambient_tick_inv [OF f, of True] by (auto simp: run_ambient_def)
  from ambient_fills_left_to_right [OF sp keys [symmetric] _ m0 reach_init] obtain m1 where
    "ambient_tick [''intent''] True m0 = Inr m1" "am_pending m1" by auto
  with sp m0 show ?thesis by blast
qed

end
