(* ===== verification/Lab.thy ===== *)
theory Lab
  imports Tamper CheckMatrix App
begin

text \<open>
  The Tamper Lab page of \<open>web/playground.js\<close> (\<open>renderLab\<close>, \<open>buildBundleReadout\<close>,
  \<open>shortHex\<close>, \<open>setBusy\<close>). The click handlers are asynchronous: a click starts a task, and
  a task that awaits the forgery or the verifier is finished by a later callback, in any order.
  The verifier and the canonical hasher are arguments, as they are imported from outside the
  repository.
\<close>

section \<open>The readout of the clean proof\<close>

definition hex_byte :: "jsval \<Rightarrow> string res" where
  "hex_byte b = rbind (to_number b) (\<lambda>n. Inr (hex2 (unat (to_int32 n AND 0xff))))"

definition short_hex :: "jsval \<Rightarrow> string res" where
  "short_hex v = (case v of
     JArr bs \<Rightarrow> rbind (rmapM hex_byte (take 6 bs)) (\<lambda>hs. Inr (concat hs @ u_ellipsis))
   | _ \<Rightarrow> Inr '''')"

text \<open>\<open>(v.k || v.K || [])[0] || {}\<close>\<close>

definition first_of :: "jsval \<Rightarrow> string list \<Rightarrow> jsval res" where
  "first_of v ks =
     rbind (rmapM (get_prop v) ks) (\<lambda>xs.
     rbind (index0 (foldr js_or xs (JArr []))) (\<lambda>x. Inr (js_or x (JObj []))))"

definition readout_bundle :: "jsval \<Rightarrow> jsval" where
  "readout_bundle bd0 = js_or (case bd0 of
     JStr s \<Rightarrow> (case json_parse s of Inr v \<Rightarrow> v | Inl _ \<Rightarrow> JObj []) | _ \<Rightarrow> bd0) (JObj [])"

definition readout_row :: "string \<Rightarrow> jsval \<Rightarrow> 'h dom list res" where
  "readout_row k v = (if nullish v \<or> v = JStr '''' then Inr []
     else rbind (el ''dd'' '''' v) (\<lambda>d. Inr [elt ''dt'' '''' k, d]))"

definition policy_text :: "jsval \<Rightarrow> jsval res" where
  "policy_text policy =
     rbind (get_prop policy ''decision'') (\<lambda>d.
     if truthy d then
       rbind (get_prop policy ''ruleId'') (\<lambda>r. rbind (get_prop policy ''policyType'') (\<lambda>t.
       rbind (to_str d) (\<lambda>ds. rbind (to_str (js_or (js_or r t) (JStr ''rule''))) (\<lambda>rs.
       Inr (JStr (ds @ '' ('' @ rs @ '')''))))))
     else Inr (JStr ''''))"

definition plugin_text :: "jsval \<Rightarrow> jsval res" where
  "plugin_text plugin =
     rbind (get_prop plugin ''pluginId'') (\<lambda>p.
     if truthy p then
       rbind (get_prop plugin ''version'') (\<lambda>v.
       rbind (to_str p) (\<lambda>ps. rbind (to_str (js_or v (JStr ''?''))) (\<lambda>vs. Inr (JStr (ps @ ''@'' @ vs)))))
     else Inr (JStr ''''))"

definition build_bundle_readout :: "jsval \<Rightarrow> 'h dom res" where
  "build_bundle_readout pkg =
     rbind (get_prop pkg ''bundleData'') (\<lambda>bd0.
     let bd = readout_bundle bd0 in
     rbind (first_of bd [''approvalEvidence'', ''ApprovalEvidence'']) (\<lambda>approval.
     rbind (first_of bd [''policyDecisions'', ''PolicyDecisions'']) (\<lambda>policy.
     rbind (first_of pkg [''pluginVersions'']) (\<lambda>plugin.
     rbind (rbind (get_prop approval ''identity'') (readout_row ''Approver'')) (\<lambda>r1.
     rbind (rbind (get_prop pkg ''planHash'') (\<lambda>h. rbind (short_hex h) (\<lambda>s. readout_row ''Plan hash'' (JStr s)))) (\<lambda>r2.
     rbind (rbind (get_prop pkg ''outcomeDigest'') (\<lambda>h. rbind (short_hex h) (\<lambda>s. readout_row ''Outcome digest'' (JStr s)))) (\<lambda>r3.
     rbind (rbind (policy_text policy) (readout_row ''Policy'')) (\<lambda>r4.
     rbind (rbind (plugin_text plugin) (readout_row ''Plugin'')) (\<lambda>r5.
     rbind (rbind (get_prop pkg ''inclusionProofs'') (\<lambda>ip. readout_row ''Inclusion proofs''
             (case ip of JArr xs \<Rightarrow> JStr (nat_str (length xs)) | _ \<Rightarrow> JStr ''''))) (\<lambda>r6.
     Inr (append_kids (elt ''dl'' ''pg-kv'' '''') (r1 @ r2 @ r3 @ r4 @ r5 @ r6))))))))))))"

section \<open>The state of the lab\<close>

record lab_env =
  le_verifier :: "jsval \<Rightarrow> failure + jsval"
  le_canon :: canon
  le_reduce :: bool
  le_emsg :: "jserr \<Rightarrow> string"

datatype shown_item = LoadingLine string | MatrixShown "action matrix" | ErrorShown shown_error

text \<open>What a host element shows, as elements.\<close>

definition shown_dom :: "(jsval \<Rightarrow> action dom list) \<Rightarrow> shown_item \<Rightarrow> action dom res" where
  "shown_dom ue it = (case it of
     LoadingLine s \<Rightarrow> Inr (elt ''div'' ''pg-loading'' s)
   | MatrixShown m \<Rightarrow> Inr (matrix_dom m)
   | ErrorShown e \<Rightarrow> show_error ue e)"

datatype lab_task = Forging forgery | Judging forgery jsval | Restoring | Baseline

record lab =
  lb_clean :: jsval
  lb_attempts :: nat
  lb_caught :: nat
  lb_score :: string
  lb_busy :: bool
  lb_reset_off :: bool
  lb_host :: "shown_item list"
  lb_tasks :: "lab_task list"
  lb_emits :: "string list"

definition verifying :: shown_item where
  "verifying = LoadingLine (''Verifying in your browser'' @ u_ellipsis)"

definition matrix_opts :: "bool \<Rightarrow> int \<Rightarrow> jsval" where
  "matrix_opts reduce ms = JObj [(''stagger'', jint (if reduce then 0 else ms))]"

definition outcome_word :: "bool \<Rightarrow> string" where
  "outcome_word passed = (if passed then ''success'' else ''failure'')"

text \<open>The continuation of \<open>verify\<close> once the verifier has answered.\<close>

definition verify_finish :: "lab_env \<Rightarrow> jsval \<Rightarrow> lab \<Rightarrow> lab \<times> (failure + jsval)" where
  "verify_finish env pkg lb = (case le_verifier env pkg of
     Inl e \<Rightarrow> (lb, Inl e)
   | Inr result \<Rightarrow>
      (case mount_check_matrix result (matrix_opts (le_reduce env) 60) of
         Inl e \<Rightarrow> (lb, Inl (JsFail e))
       | Inr m \<Rightarrow>
          (let lb1 = lb\<lparr>lb_host := [MatrixShown m]\<rparr> in
           case get_prop result ''passed'' of
             Inl e \<Rightarrow> (lb1, Inl (JsFail e))
           | Inr p \<Rightarrow> (lb1\<lparr>lb_emits := lb_emits lb1 @ [outcome_word (truthy p)]\<rparr>, Inr result))))"

definition result_passed :: "jsval \<Rightarrow> bool" where
  "result_passed result = (case get_prop result ''passed'' of Inr p \<Rightarrow> truthy p | Inl _ \<Rightarrow> False)"

definition score_text :: "bool \<Rightarrow> nat \<Rightarrow> nat \<Rightarrow> string \<Rightarrow> string" where
  "score_text passed caught attempts blurb = (if passed
     then ''The proof was EVADED ('' @ nat_str caught @ '' / '' @ nat_str attempts @
       '' caught). That should not happen '' @ u_dash @ '' please report it.''
     else ''Caught '' @ nat_str caught @ '' / '' @ nat_str attempts @ ''. '' @ blurb)"

definition t_restored :: string where
  "t_restored = ''Clean proof restored. Pick a tamper to attack it.''"

text \<open>The \<open>finally\<close> block of an attack, and its \<open>catch\<close> block before it.\<close>

definition attack_end :: "lab \<Rightarrow> lab" where
  "attack_end lb = lb\<lparr>lb_busy := False, lb_reset_off := False\<rparr>"

definition attack_fails :: "lab_env \<Rightarrow> failure \<Rightarrow> lab \<Rightarrow> lab" where
  "attack_fails env e lb = attack_end (lb\<lparr>lb_host := lb_host lb @ [ErrorShown (failure_error (le_emsg env) e)]\<rparr>)"

definition finish_forging :: "lab_env \<Rightarrow> forgery \<Rightarrow> lab \<Rightarrow> lab" where
  "finish_forging env f lb =
     (case apply_forgery (lb_clean lb) (f_id f) (Some (make_reseal (le_canon env))) of
        Inl e \<Rightarrow> attack_fails env (JsFail e) lb
      | Inr (p, _) \<Rightarrow> lb\<lparr>lb_host := [verifying], lb_tasks := lb_tasks lb @ [Judging f p]\<rparr>)"

definition finish_judging :: "lab_env \<Rightarrow> forgery \<Rightarrow> jsval \<Rightarrow> lab \<Rightarrow> lab" where
  "finish_judging env f p lb = (case verify_finish env p lb of
     (lb1, Inl e) \<Rightarrow> attack_fails env e lb1
   | (lb1, Inr result) \<Rightarrow>
      (let passed = result_passed result; n = lb_attempts lb1 + 1;
           c = (if passed then lb_caught lb1 else lb_caught lb1 + 1)
       in attack_end (lb1\<lparr>lb_attempts := n, lb_caught := c, lb_score := score_text passed c n (f_blurb f)\<rparr>)))"

definition finish_restoring :: "lab_env \<Rightarrow> lab \<Rightarrow> lab" where
  "finish_restoring env lb = (case verify_finish env (lb_clean lb) lb of
     (lb1, Inl e) \<Rightarrow> lb1
   | (lb1, Inr result) \<Rightarrow> lb1\<lparr>lb_score := t_restored\<rparr>)"

definition finish_task :: "lab_env \<Rightarrow> lab_task \<Rightarrow> lab \<Rightarrow> lab" where
  "finish_task env k lb = (case k of
     Forging f \<Rightarrow> finish_forging env f lb
   | Judging f p \<Rightarrow> finish_judging env f p lb
   | Restoring \<Rightarrow> finish_restoring env lb
   | Baseline \<Rightarrow> fst (verify_finish env (lb_clean lb) lb))"

datatype lab_event = ClickForge nat | ClickReset | Finish nat

fun lab_do :: "lab_env \<Rightarrow> lab_event \<Rightarrow> lab \<Rightarrow> lab option" where
  "lab_do env (ClickForge i) lb =
     (if \<not> lb_busy lb \<and> i < length FORGERIES
      then Some (lb\<lparr>lb_busy := True, lb_reset_off := True, lb_tasks := lb_tasks lb @ [Forging (FORGERIES ! i)]\<rparr>)
      else None)"
| "lab_do env ClickReset lb =
     (if \<not> lb_reset_off lb then Some (lb\<lparr>lb_host := [verifying], lb_tasks := lb_tasks lb @ [Restoring]\<rparr>) else None)"
| "lab_do env (Finish j) lb =
     (if j < length (lb_tasks lb)
      then Some (finish_task env (lb_tasks lb ! j)
             (lb\<lparr>lb_tasks := take j (lb_tasks lb) @ drop (Suc j) (lb_tasks lb)\<rparr>))
      else None)"

inductive lab_step :: "lab_env \<Rightarrow> lab \<Rightarrow> lab \<Rightarrow> bool" for env :: lab_env where
  lab_event: "lab_do env ev lb = Some lb' \<Longrightarrow> lab_step env lb lb'"

definition open_lab :: "jsval \<Rightarrow> lab" where
  "open_lab clean = \<lparr>lb_clean = clean, lb_attempts = 0, lb_caught = 0,
     lb_score = ''Pick a tamper below to attack the proof.'', lb_busy = False, lb_reset_off = False,
     lb_host = [verifying], lb_tasks = [Baseline], lb_emits = []\<rparr>"

text \<open>
  The page: without a sample it shows an error in place of the readout; otherwise the readout
  (whose exceptions end the page) and the lab.
\<close>

datatype lab_page = NoSample shown_error | LabPage "action dom" lab

definition load_sample :: "fetched \<Rightarrow> failure + jsval" where
  "load_sample f = (case f of
     NetFail m \<Rightarrow> Inl (NetFailure m)
   | Got r \<Rightarrow> if \<not> rs_ok r then Inl (JsFail (Thrown ''sample bundle unavailable''))
       else (case rs_json r of None \<Rightarrow> Inl (JsFail SyntaxErr) | Some v \<Rightarrow> Inr v))"

definition render_lab :: "(jserr \<Rightarrow> string) \<Rightarrow> fetched \<Rightarrow> lab_page res" where
  "render_lab emsg f = (case load_sample f of
     Inl e \<Rightarrow> Inr (NoSample (failure_error emsg e))
   | Inr clean \<Rightarrow> rbind (build_bundle_readout clean) (\<lambda>dl. Inr (LabPage dl (open_lab clean))))"

section \<open>The elements of the lab\<close>

definition disable :: "bool \<Rightarrow> 'h dom \<Rightarrow> 'h dom" where
  "disable off e = (if off then put_attr ''disabled'' '''' e else e)"

text \<open>The row of forgeries with \<open>setBusy\<close> applied to it.\<close>

definition forgery_row :: "bool \<Rightarrow> action dom" where
  "forgery_row busy = append_kids (elt ''div'' ''pg-lab-forgeries'' '''')
     (map (\<lambda>f. disable busy (put_attr ''title'' (f_blurb f) (button ''pg-btn'' (f_label f) (Forge (f_id f))))) FORGERIES)"

definition lab_dom :: "(jsval \<Rightarrow> action dom list) \<Rightarrow> lab_page \<Rightarrow> action dom list res" where
  "lab_dom ue pg =
     rbind (case pg of
       NoSample e \<Rightarrow> rbind (show_error ue e) (\<lambda>b. Inr ([b], []))
     | LabPage dl lb \<Rightarrow> rbind (rmapM (shown_dom ue) (lb_host lb)) (\<lambda>host. Inr (
         [elt ''h2'' '''' ''The proof'', dl,
          elt ''div'' ''pg-lab-prompt'' ''Try to defeat it:'',
          forgery_row (lb_busy lb),
          elt ''div'' ''pg-lab-score'' (lb_score lb),
          disable (lb_reset_off lb) (button ''pg-btn pg-btn-primary'' ''Reset to a clean proof'' ResetProof)],
         [elt ''h2'' '''' ''Live verdict'', append_kids (elt ''div'' ''pg-matrix-host'' '''') host])))
     (\<lambda>(left, right). Inr [
       append_kids (elt ''section'' ''pg-hero'' '''') [
         elt ''p'' ''pg-eyebrow'' (''TAMPER LAB '' @ u_mid @ '' TRY TO BEAT THE MATHS''),
         elt ''h1'' '''' ''Forge a proof'',
         elt ''p'' '''' (''Pick a tamper. Each one re-verifies the bundle in your browser '' @ u_dash @
           '' the same checks the CLI runs '' @ u_dash @ '' and the proof catches it. Nothing is uploaded; nothing is trusted.'')],
       append_kids (elt ''div'' ''pg-lab-split'' '''') [
         append_kids (elt ''div'' ''pg-panel'' '''') left,
         append_kids (elt ''div'' ''pg-panel'' '''') right]])"

text \<open>The guards of \<open>lab_do\<close> are what the elements offer.\<close>

lemma live_disable: "d_kids e = [] \<Longrightarrow> live (disable off e) = (if off then [] else live e)"
  by (simp add: disable_def live_leaf split: option.splits)

lemma button_titled_live: "live (disable b (put_attr ''title'' x (button c t h))) = (if b then [] else [h])"
  by (subst live_disable) (simp_all add: button_def live_leaf)

lemma forgery_row_live: "live (forgery_row busy) = (if busy then [] else map (Forge \<circ> f_id) FORGERIES)"
proof -
  have "concat (map (\<lambda>f. if busy then [] else [Forge (f_id f)]) fs) = (if busy then [] else map (Forge \<circ> f_id) fs)" for fs :: "forgery list"
    by (induction fs) auto
  then show ?thesis by (simp add: forgery_row_def live_box comp_def button_titled_live)
qed

lemma forge_enabled: "lab_do env (ClickForge i) lb \<noteq> None \<longleftrightarrow>
    i < length FORGERIES \<and> Forge (f_id (FORGERIES ! i)) \<in> set (live (forgery_row (lb_busy lb)))"
  by (auto simp: forgery_row_live)

lemma reset_enabled: "lab_do env ClickReset lb \<noteq> None \<longleftrightarrow>
    ResetProof \<in> set (live (disable (lb_reset_off lb) (button c t ResetProof)))"
  by (subst live_disable) (simp_all add: button_def live_leaf)

section \<open>The invariant of the lab\<close>

lemma verify_finish_keeps:
  "verify_finish env p lb = (lb1, r) \<Longrightarrow>
     lb_clean lb1 = lb_clean lb \<and> lb_attempts lb1 = lb_attempts lb \<and> lb_caught lb1 = lb_caught lb \<and>
     lb_score lb1 = lb_score lb \<and> lb_busy lb1 = lb_busy lb \<and> lb_reset_off lb1 = lb_reset_off lb \<and>
     lb_tasks lb1 = lb_tasks lb \<and> (\<forall>x. r = Inr x \<longrightarrow> le_verifier env p = Inr x)"
  by (auto simp: verify_finish_def Let_def split: sum.splits)

fun is_attack :: "lab_task \<Rightarrow> bool" where
  "is_attack (Forging f) = True"
| "is_attack (Judging f p) = True"
| "is_attack _ = False"

definition forged :: "lab_env \<Rightarrow> jsval \<Rightarrow> forgery \<Rightarrow> jsval \<Rightarrow> bool" where
  "forged env clean f p \<longleftrightarrow> f \<in> set FORGERIES \<and>
     (\<exists>g. apply_forgery clean (f_id f) (Some (make_reseal (le_canon env))) = Inr (p, g))"

fun task_ok :: "lab_env \<Rightarrow> jsval \<Rightarrow> lab_task \<Rightarrow> bool" where
  "task_ok env clean (Forging f) = (f \<in> set FORGERIES)"
| "task_ok env clean (Judging f p) = forged env clean f p"
| "task_ok env clean _ = True"

definition lab_inv :: "lab_env \<Rightarrow> jsval \<Rightarrow> lab \<Rightarrow> bool" where
  "lab_inv env clean lb \<longleftrightarrow> lb_clean lb = clean \<and> lb_caught lb \<le> lb_attempts lb \<and>
     length (filter is_attack (lb_tasks lb)) = (if lb_busy lb then 1 else 0) \<and>
     lb_reset_off lb = lb_busy lb \<and> list_all (task_ok env clean) (lb_tasks lb)"

lemma remove_task:
  assumes "j < length ts"
  shows "length (filter P ts) = length (filter P (take j ts @ drop (Suc j) ts)) + of_bool (P (ts ! j))"
    and "list_all Q ts \<Longrightarrow> list_all Q (take j ts @ drop (Suc j) ts) \<and> Q (ts ! j)"
proof -
  have ts: "ts = take j ts @ ts ! j # drop (Suc j) ts" by (rule id_take_nth_drop [OF assms])
  have "filter P ts = filter P (take j ts) @ filter P (ts ! j # drop (Suc j) ts)" using ts by (metis filter_append)
  then show "length (filter P ts) = length (filter P (take j ts @ drop (Suc j) ts)) + of_bool (P (ts ! j))" by simp
  assume "list_all Q ts"
  then have "list_all Q (take j ts @ ts ! j # drop (Suc j) ts)" by (rule ts [THEN subst])
  then show "list_all Q (take j ts @ drop (Suc j) ts) \<and> Q (ts ! j)" by simp
qed

text \<open>The effect of a finished task: what it does to the counts, the buttons and the tasks.\<close>

lemma finish_task_counts:
  assumes "lb_caught lb \<le> lb_attempts lb" and "list_all (task_ok env (lb_clean lb)) (lb_tasks lb)"
    and "length (filter is_attack (lb_tasks lb)) + of_bool (is_attack k) = (if lb_busy lb then 1 else 0)"
    and "lb_reset_off lb = lb_busy lb" and "task_ok env (lb_clean lb) k"
  shows "lab_inv env (lb_clean lb) (finish_task env k lb)"
proof (cases k)
  case (Forging f)
  show ?thesis
  proof (cases "apply_forgery (lb_clean lb) (f_id f) (Some (make_reseal (le_canon env)))")
    case (Inl e)
    then show ?thesis using assms Forging
      by (simp add: finish_task_def finish_forging_def attack_fails_def attack_end_def lab_inv_def split: if_splits)
  next
    case (Inr q)
    obtain p g where "q = (p, g)" by (cases q)
    then show ?thesis using assms Forging Inr
      by (auto simp: finish_task_def finish_forging_def lab_inv_def forged_def split: if_splits)
  qed
next
  case (Judging f p)
  obtain lb1 r where v: "verify_finish env p lb = (lb1, r)" by (cases "verify_finish env p lb")
  show ?thesis using assms Judging verify_finish_keeps [OF v]
    by (cases r) (simp_all add: finish_task_def finish_judging_def v attack_fails_def attack_end_def Let_def lab_inv_def split: if_splits)
next
  case Restoring
  obtain lb1 r where v: "verify_finish env (lb_clean lb) lb = (lb1, r)" by (cases "verify_finish env (lb_clean lb) lb")
  show ?thesis using assms Restoring verify_finish_keeps [OF v]
    by (cases r) (simp_all add: finish_task_def finish_restoring_def v lab_inv_def)
next
  case Baseline
  obtain lb1 r where v: "verify_finish env (lb_clean lb) lb = (lb1, r)" by (cases "verify_finish env (lb_clean lb) lb")
  show ?thesis using assms Baseline verify_finish_keeps [OF v]
    by (simp add: finish_task_def v lab_inv_def)
qed

lemma lab_do_inv:
  assumes "lab_inv env clean lb" and "lab_do env ev lb = Some lb'"
  shows "lab_inv env clean lb'"
proof (cases ev)
  case (Finish j)
  let ?lb = "lb\<lparr>lb_tasks := take j (lb_tasks lb) @ drop (Suc j) (lb_tasks lb)\<rparr>"
  have j: "j < length (lb_tasks lb)" and lb': "lb' = finish_task env (lb_tasks lb ! j) ?lb"
    using assms(2) Finish by (auto split: if_splits)
  have "lab_inv env (lb_clean ?lb) (finish_task env (lb_tasks lb ! j) ?lb)"
    by (rule finish_task_counts)
      (use assms(1) remove_task(1) [OF j, of is_attack] remove_task(2) [OF j, of "task_ok env clean"] in \<open>auto simp: lab_inv_def\<close>)
  then show ?thesis using assms(1) lb' by (simp add: lab_inv_def)
qed (use assms in \<open>auto simp: lab_inv_def split: if_splits\<close>)

inductive_simps lab_step_iff: "lab_step env lb lb'"

interpretation lab: invariant_system "{open_lab clean}" "lab_step env" "lab_inv env clean" for env clean
proof (unfold_locales, goal_cases)
  case (1 s) then show ?case by (simp add: lab_inv_def open_lab_def)
next
  case (2 s t)
  then show ?case by (auto simp: lab_step_iff intro: lab_do_inv)
qed

text \<open>What the counts say at any moment, for any verifier.\<close>

text \<open>C18: In every reachable state of the Tamper Lab at most one attack is in flight, exactly when
the buttons are busy, the reset is disabled meanwhile, and no more attacks are counted as caught
than were counted.\<close>

theorem lab_counts:
  assumes "reach {open_lab clean} (lab_step env) lb"
  shows "lb_clean lb = clean \<and> lb_caught lb \<le> lb_attempts lb \<and>
    length (filter is_attack (lb_tasks lb)) = (if lb_busy lb then 1 else 0) \<and> (lb_busy lb \<longrightarrow> lb_reset_off lb)"
  using lab.inv_reach [OF assms] by (simp add: lab_inv_def)


section \<open>A sound verifier\<close>

text \<open>The contract of the verifier the lab demonstrates: it passes no forged package.\<close>

definition rejects_forgeries :: "lab_env \<Rightarrow> jsval \<Rightarrow> bool" where
  "rejects_forgeries env clean \<longleftrightarrow>
     (\<forall>f p r. forged env clean f p \<longrightarrow> le_verifier env p = Inr r \<longrightarrow> \<not> result_passed r)"

definition honest_scores :: "string set" where
  "honest_scores = {''Pick a tamper below to attack the proof.'', t_restored} \<union> {score_text False n n b |n b. True}"

definition all_caught :: "lab \<Rightarrow> bool" where
  "all_caught lb \<longleftrightarrow> lb_caught lb = lb_attempts lb \<and> lb_score lb \<in> honest_scores"

lemma finish_task_caught:
  assumes "rejects_forgeries env (lb_clean lb)" and "all_caught lb" and "task_ok env (lb_clean lb) k"
  shows "all_caught (finish_task env k lb)"
proof (cases k)
  case (Forging f)
  then show ?thesis using assms(2)
    by (auto simp: finish_task_def finish_forging_def attack_fails_def attack_end_def all_caught_def split: sum.splits)
next
  case (Judging f p)
  obtain lb1 r where v: "verify_finish env p lb = (lb1, r)" by (cases "verify_finish env p lb")
  show ?thesis
  proof (cases r)
    case (Inl e)
    then show ?thesis using assms(2) Judging verify_finish_keeps [OF v]
      by (simp add: finish_task_def finish_judging_def v attack_fails_def attack_end_def all_caught_def)
  next
    case (Inr x)
    then have "\<not> result_passed x" using assms(1,3) Judging verify_finish_keeps [OF v] by (auto simp: rejects_forgeries_def)
    then show ?thesis using assms(2) Judging Inr verify_finish_keeps [OF v]
      by (auto simp: finish_task_def finish_judging_def v attack_end_def all_caught_def honest_scores_def Let_def)
  qed
next
  case Restoring
  obtain lb1 r where v: "verify_finish env (lb_clean lb) lb = (lb1, r)" by (cases "verify_finish env (lb_clean lb) lb")
  show ?thesis using assms(2) Restoring verify_finish_keeps [OF v]
    by (cases r) (simp_all add: finish_task_def finish_restoring_def v all_caught_def honest_scores_def)
next
  case Baseline
  obtain lb1 r where v: "verify_finish env (lb_clean lb) lb = (lb1, r)" by (cases "verify_finish env (lb_clean lb) lb")
  show ?thesis using assms(2) Baseline verify_finish_keeps [OF v] by (simp add: finish_task_def v all_caught_def)
qed

lemma lab_do_caught:
  assumes "rejects_forgeries env clean" and "lab_inv env clean lb" and "all_caught lb" and "lab_do env ev lb = Some lb'"
  shows "all_caught lb'"
proof (cases ev)
  case (Finish j)
  let ?lb = "lb\<lparr>lb_tasks := take j (lb_tasks lb) @ drop (Suc j) (lb_tasks lb)\<rparr>"
  have j: "j < length (lb_tasks lb)" and lb': "lb' = finish_task env (lb_tasks lb ! j) ?lb"
    using assms(4) Finish by (auto split: if_splits)
  show ?thesis unfolding lb'
    by (rule finish_task_caught) (use assms remove_task(2) [OF j, of "task_ok env clean"] in \<open>auto simp: lab_inv_def all_caught_def\<close>)
qed (use assms in \<open>auto simp: all_caught_def split: if_splits\<close>)

text \<open>C3: With a verifier that rejects every forged package, whatever the visitor clicks and in
whatever order the callbacks arrive, every finished attack of the Tamper Lab is counted as
caught and the page never says a proof was evaded.\<close>

theorem lab_catches_every_forgery:
  assumes "reach {open_lab clean} (lab_step env) lb" and "rejects_forgeries env clean"
  shows "lb_caught lb = lb_attempts lb \<and> lb_score lb \<in> honest_scores"
proof -
  from assms(1) have "lab_inv env clean lb \<and> all_caught lb"
  proof (induction rule: reach.induct)
    case (reach_step s t)
    then show ?case using lab_do_inv lab_do_caught [OF assms(2)] by (auto simp: lab_step_iff)
  qed (simp add: lab_inv_def all_caught_def honest_scores_def open_lab_def)
  then show ?thesis by (simp add: all_caught_def)
qed

section \<open>No click leaves the lab stuck\<close>

abbreviation lab_run :: "lab_env \<Rightarrow> lab_event list \<Rightarrow> lab \<Rightarrow> lab option" where
  "lab_run env \<equiv> run_acts (lab_do env)"

fun task_work :: "lab_task \<Rightarrow> nat" where
  "task_work (Forging f) = 2"
| "task_work _ = 1"

definition lab_work :: "lab \<Rightarrow> nat" where
  "lab_work lb = sum_list (map task_work (lb_tasks lb))"

lemma finish_task_work: "lab_work (finish_task env k lb) < lab_work lb + task_work k"
proof (cases k)
  case (Forging f)
  then show ?thesis
    by (auto simp: finish_task_def finish_forging_def attack_fails_def attack_end_def lab_work_def split: sum.splits)
next
  case (Judging f p)
  obtain lb1 r where v: "verify_finish env p lb = (lb1, r)" by (cases "verify_finish env p lb")
  show ?thesis using Judging verify_finish_keeps [OF v]
    by (cases r) (simp_all add: finish_task_def finish_judging_def v attack_fails_def attack_end_def lab_work_def Let_def)
next
  case Restoring
  obtain lb1 r where v: "verify_finish env (lb_clean lb) lb = (lb1, r)" by (cases "verify_finish env (lb_clean lb) lb")
  show ?thesis using Restoring verify_finish_keeps [OF v]
    by (cases r) (simp_all add: finish_task_def finish_restoring_def v lab_work_def)
next
  case Baseline
  obtain lb1 r where v: "verify_finish env (lb_clean lb) lb = (lb1, r)" by (cases "verify_finish env (lb_clean lb) lb")
  show ?thesis using Baseline verify_finish_keeps [OF v] by (simp add: finish_task_def v lab_work_def)
qed

text \<open>The callbacks of pending tasks, which need no visitor.\<close>

fun is_finish :: "lab_event \<Rightarrow> bool" where
  "is_finish (Finish j) = True"
| "is_finish _ = False"

lemma finish_work: "lab_do env (Finish j) lb = Some lb' \<Longrightarrow> lab_work lb' < lab_work lb"
proof -
  assume "lab_do env (Finish j) lb = Some lb'"
  then have j: "j < length (lb_tasks lb)" and lb': "lb' = finish_task env (lb_tasks lb ! j)
      (lb\<lparr>lb_tasks := take j (lb_tasks lb) @ drop (Suc j) (lb_tasks lb)\<rparr>)"
    by (auto split: if_splits)
  have "lb_tasks lb = take j (lb_tasks lb) @ lb_tasks lb ! j # drop (Suc j) (lb_tasks lb)"
    by (rule id_take_nth_drop [OF j])
  then have "lab_work lb = lab_work (lb\<lparr>lb_tasks := take j (lb_tasks lb) @ lb_tasks lb ! j # drop (Suc j) (lb_tasks lb)\<rparr>)"
    by (simp add: lab_work_def)
  then show ?thesis
    using finish_task_work [of env "lb_tasks lb ! j" "lb\<lparr>lb_tasks := take j (lb_tasks lb) @ drop (Suc j) (lb_tasks lb)\<rparr>"] lb'
    by (simp add: lab_work_def)
qed

lemma finish_enabled: "lb_tasks lb \<noteq> [] \<Longrightarrow> lab_do env (Finish 0) lb \<noteq> None"
  by simp

interpretation draining: settling_system "{open_lab clean}" "lab_step env" "lab_inv env clean"
    "lab_do env" is_finish lab_work "\<lambda>lb. lb_tasks lb = []" "\<lambda>_. ()" for env clean
proof (unfold_locales, goal_cases)
  case (1 a s t) then show ?case by (rule lab_step.intros)
next
  case (2 s a t) then show ?case using finish_work by (cases a) auto
next
  case (3 s) then show ?case using finish_enabled [of s env] by (metis is_finish.simps(1) not_Some_eq)
qed

text \<open>C17: From every reachable state of the Tamper Lab the pending callbacks run out: every schedule
of them is bounded by the remaining work, one of them drains them all, and whenever none is left
the buttons are enabled and the clean proof is intact.\<close>

theorem lab_never_stuck:
  assumes "reach {open_lab clean} (lab_step env) lb"
  shows "(\<exists>as lb'. length as \<le> lab_work lb \<and> list_all is_finish as \<and> lab_run env as lb = Some lb' \<and>
      lb_tasks lb' = []) \<and>
    (\<forall>as lb'. list_all is_finish as \<longrightarrow> lab_run env as lb = Some lb' \<longrightarrow> length as + lab_work lb' \<le> lab_work lb \<and>
      (lb_tasks lb' = [] \<longrightarrow> \<not> lb_busy lb' \<and> \<not> lb_reset_off lb' \<and> lb_clean lb' = clean))"
proof (intro conjI allI impI)
  show "\<exists>as lb'. length as \<le> lab_work lb \<and> list_all is_finish as \<and> lab_run env as lb = Some lb' \<and> lb_tasks lb' = []"
    using draining.settles [OF assms] by blast
next
  fix as lb' assume r: "list_all is_finish as" "lab_run env as lb = Some lb'"
  note b = draining.own_bounded [OF r lab.inv_reach [OF assms]]
  then show "length as + lab_work lb' \<le> lab_work lb" by simp
  assume "lb_tasks lb' = []"
  with b show "\<not> lb_busy lb'" "\<not> lb_reset_off lb'" "lb_clean lb' = clean"
    by (auto simp: lab_inv_def split: if_splits)
qed

text \<open>
  The buttons stay active while the baseline is being verified, so a visitor can attack at
  once; when the baseline's verdict arrives last, it replaces the verdict of the attack.
\<close>

text \<open>C35: An attack finished before the baseline verification leaves the lab saying Caught 1 / 1 next
to the passing matrix of the clean proof.\<close>

theorem stale_baseline_verdict:
  assumes "i < length FORGERIES"
    and "apply_forgery clean (f_id (FORGERIES ! i)) (Some (make_reseal (le_canon env))) = Inr (p, g)"
    and "le_verifier env p = Inr rp" and "mount_check_matrix rp (matrix_opts (le_reduce env) 60) = Inr (mp :: action matrix)"
    and "get_prop rp ''passed'' = Inr (JBool False)"
    and "le_verifier env clean = Inr rc" and "mount_check_matrix rc (matrix_opts (le_reduce env) 60) = Inr (mc :: action matrix)"
    and "get_prop rc ''passed'' = Inr (JBool True)"
  shows "\<exists>lb. lab_run env [ClickForge i, Finish 1, Finish 1, Finish 0] (open_lab clean) = Some lb \<and>
    lb_tasks lb = [] \<and> lb_host lb = [MatrixShown mc] \<and> lb_score lb = score_text False 1 1 (f_blurb (FORGERIES ! i))"
  using assms by (simp add: open_lab_def finish_task_def finish_forging_def finish_judging_def verify_finish_def
      attack_end_def result_passed_def Let_def)

section \<open>A lab with a one-field proof\<close>

definition toy_proof :: "string \<Rightarrow> jsval" where
  "toy_proof who = JObj [(''bundleData'', JObj [(''approvalEvidence'', JArr [JObj [(''identity'', JStr who)]])])]"

definition toy_clean :: jsval where
  "toy_clean = toy_proof ''acc://ops.acme''"

definition toy_verdict :: "bool \<Rightarrow> jsval" where
  "toy_verdict ok = JObj [(''passed'', JBool ok), (''checks'', JArr [])]"

definition toy_env :: lab_env where
  "toy_env = \<lparr>le_verifier = (\<lambda>p. Inr (toy_verdict (p = toy_clean))), le_canon = ident_canon,
     le_reduce = True, le_emsg = (\<lambda>_. ''error'')\<rparr>"

lemma toy_forged:
  "apply_forgery toy_clean (f_id (FORGERIES ! 0)) rs = Inr (toy_proof ''acc://attacker.evil/admin'', FORGERIES ! 0)"
proof -
  have "clone toy_clean = Inr toy_clean" by (rule clone_data) (simp add: toy_clean_def toy_proof_def)
  then show ?thesis
    by (simp add: apply_forgery_def FORGERIES_def mutate_approver_def with_bundle_def edit_approval_def
        approvals_key_def edit_first_def toy_clean_def toy_proof_def obj_get_simps Let_def)
qed

lemma toy_verdicts:
  "le_verifier toy_env toy_clean = Inr (toy_verdict True)"
  "le_verifier toy_env (toy_proof ''acc://attacker.evil/admin'') = Inr (toy_verdict False)"
  "get_prop (toy_verdict b) ''passed'' = Inr (JBool b)"
  by (simp_all add: toy_env_def toy_verdict_def toy_clean_def toy_proof_def obj_get_simps)

lemma toy_mount: "\<exists>m :: 'h matrix. mount_check_matrix (toy_verdict b) (matrix_opts r ms) = Inr m"
  by (simp add: mount_check_matrix_def toy_verdict_def matrix_opts_def obj_get_simps checks_of_def all_pass_def
      matrix_head_def opt_el_def)

theorem stale_baseline_verdict_witness:
  "\<exists>lb mc. lab_run toy_env [ClickForge 0, Finish 1, Finish 1, Finish 0] (open_lab toy_clean) = Some lb \<and>
     lb_host lb = [MatrixShown mc] \<and> lb_score lb = score_text False 1 1 (f_blurb (FORGERIES ! 0))"
proof -
  have n: "0 < length FORGERIES" by (simp add: FORGERIES_def)
  obtain mp mc :: "action matrix" where
    "mount_check_matrix (toy_verdict False) (matrix_opts (le_reduce toy_env) 60) = Inr mp"
    "mount_check_matrix (toy_verdict True) (matrix_opts (le_reduce toy_env) 60) = Inr mc"
    using toy_mount by blast
  from stale_baseline_verdict [OF n toy_forged toy_verdicts(2) this(1) toy_verdicts(3) toy_verdicts(1) this(2) toy_verdicts(3)]
  show ?thesis by blast
qed

theorem lab_counts_witness:
  "\<exists>lb. lab_do toy_env (ClickForge 0) (open_lab toy_clean) = Some lb \<and> lb_busy lb \<and>
     length (filter is_attack (lb_tasks lb)) = 1"
proof -
  obtain lb where lb: "lab_do toy_env (ClickForge 0) (open_lab toy_clean) = Some lb" "lb_busy lb"
    by (simp add: open_lab_def FORGERIES_def)
  have "reach {open_lab toy_clean} (lab_step toy_env) lb"
    by (rule reach_step [of "{open_lab toy_clean}" "lab_step toy_env" "open_lab toy_clean" lb, OF reach_init lab_step.intros [OF lb(1)]]) simp
  from lab_counts [OF this] lb show ?thesis by auto
qed

theorem lab_never_stuck_witness:
  "\<exists>as lb'. lab_run toy_env as (open_lab toy_clean) = Some lb' \<and> length as \<le> 1 \<and> lb_tasks lb' = [] \<and> \<not> lb_busy lb'"
proof -
  have "reach {open_lab toy_clean} (lab_step toy_env) (open_lab toy_clean)" by (rule reach_init) simp
  moreover have "lab_work (open_lab toy_clean) = 1" by (simp add: lab_work_def open_lab_def)
  ultimately show ?thesis using lab_never_stuck [of toy_clean toy_env "open_lab toy_clean"] by fastforce
qed

text \<open>A verifier that accepts the clean proof only rejects every forgery of a genuine package.\<close>

lemma exact_verifier_rejects:
  assumes "genuine kvs" and "canon_total (le_canon env)"
    and "\<And>p. le_verifier env p = Inr (toy_verdict (p = JObj kvs))"
  shows "rejects_forgeries env (JObj kvs)"
proof -
  have "p \<noteq> JObj kvs" if f: "forged env (JObj kvs) f p" for f p
  proof -
    from f obtain g where p: "f \<in> set FORGERIES"
      "apply_forgery (JObj kvs) (f_id f) (Some (make_reseal (le_canon env))) = Inr (p, g)" by (auto simp: forged_def)
    have "f_id f \<in> set forgery_ids" using p(1) by (auto simp: FORGERIES_def forgery_ids_def)
    from forgery_effect [OF assms(1,2) this] p(2) show ?thesis by auto
  qed
  then show ?thesis using assms(3) by (auto simp: rejects_forgeries_def result_passed_def toy_verdicts(3))
qed

definition fixture_env :: lab_env where
  "fixture_env = toy_env\<lparr>le_verifier := (\<lambda>p. Inr (toy_verdict (p = JObj (fixture_pkg []))))\<rparr>"

theorem lab_catches_every_forgery_witness:
  "\<exists>lb. lab_do fixture_env (ClickForge 3) (open_lab (JObj (fixture_pkg []))) = Some lb \<and> lb_caught lb = lb_attempts lb"
proof -
  let ?clean = "JObj (fixture_pkg [])"
  have r: "rejects_forgeries fixture_env ?clean"
    by (rule exact_verifier_rejects) (simp_all add: fixture_genuine fixture_env_def toy_env_def ident_canon_total)
  obtain lb where lb: "lab_do fixture_env (ClickForge 3) (open_lab ?clean) = Some lb"
    by (simp add: open_lab_def FORGERIES_def)
  have "reach {open_lab ?clean} (lab_step fixture_env) lb"
    by (rule reach_step [of "{open_lab ?clean}" "lab_step fixture_env" "open_lab ?clean" lb, OF reach_init lab_step.intros [OF lb]]) simp
  from lab_catches_every_forgery [OF this r] lb show ?thesis by blast
qed

end
