(* ===== verification/BundleScene.thy ===== *)
theory BundleScene
  imports JsValue
begin

text \<open>
  The Cinema scene of \<open>web/bundleScene.js\<close>: the flow's stages as nodes and edges with
  their layout, and the assurance, details and meta data \<open>bundleToCinemaProof\<close> takes from
  a receipt and a portable package of any shape.
\<close>

section \<open>The flow\<close>

record stage =
  st_id :: string
  st_label :: string
  st_kind :: string

definition FLOW :: "stage list" where
  "FLOW = [
     \<lparr>st_id = ''intent'', st_label = ''Intent'', st_kind = ''intent''\<rparr>,
     \<lparr>st_id = ''plan'', st_label = ''Plan'', st_kind = ''plan_step''\<rparr>,
     \<lparr>st_id = ''policy'', st_label = ''Policy: allow'', st_kind = ''policy''\<rparr>,
     \<lparr>st_id = ''approval'', st_label = ''Operator approval'', st_kind = ''approval''\<rparr>,
     \<lparr>st_id = ''credential'', st_label = ''Delivery credential'', st_kind = ''external_proof''\<rparr>,
     \<lparr>st_id = ''outcome'', st_label = ''Outcome: released'', st_kind = ''outcome''\<rparr>,
     \<lparr>st_id = ''anchor'', st_label = ''Anchored'', st_kind = ''anchor''\<rparr>]"

record rgba =
  c_r :: nat
  c_g :: nat
  c_b :: nat
  c_a :: nat

definition mk_rgba :: "nat \<Rightarrow> nat \<Rightarrow> nat \<Rightarrow> nat \<Rightarrow> rgba" where
  "mk_rgba r g b a = \<lparr>c_r = r, c_g = g, c_b = b, c_a = a\<rparr>"

definition COLORS :: "(string \<times> rgba) list" where
  "COLORS = [
     (''intent'', mk_rgba 100 181 246 220),
     (''plan_step'', mk_rgba 129 199 132 220),
     (''policy'', mk_rgba 255 213 79 220),
     (''approval'', mk_rgba 186 104 200 220),
     (''external_proof'', mk_rgba 77 208 225 220),
     (''outcome'', mk_rgba 129 199 132 240),
     (''anchor'', mk_rgba 240 98 146 220)]"

definition color_of :: "string \<Rightarrow> rgba" where
  "color_of k = (case map_of COLORS k of Some c \<Rightarrow> c | None \<Rightarrow> mk_rgba 129 199 132 220)"

section \<open>The proof object\<close>

record scene_node =
  sn_id :: string
  sn_kind :: string
  sn_label :: string
  sn_x :: nat
  sn_y :: nat
  sn_size :: nat
  sn_color :: rgba
  sn_shape :: string
  sn_event :: nat
  sn_updated :: nat

record scene_edge =
  se_from :: string
  se_to :: string
  se_kind :: string

record cinema_proof =
  cp_nodes :: "scene_node list"
  cp_edges :: "scene_edge list"
  cp_assurance :: string
  cp_label :: jsval
  cp_level :: jsval
  cp_l0 :: bool
  cp_trusted :: bool
  cp_details :: "(string \<times> jsval) list"
  cp_subject :: jsval
  cp_status :: jsval

definition mk_scene_node :: "nat \<Rightarrow> stage \<Rightarrow> scene_node" where
  "mk_scene_node i s = \<lparr>sn_id = st_id s, sn_kind = st_kind s, sn_label = st_label s,
     sn_x = i * 130, sn_y = (i mod 2) * 70, sn_size = 16, sn_color = color_of (st_kind s),
     sn_shape = (if st_kind s = ''anchor'' then ''diamond'' else ''rectangle''),
     sn_event = i, sn_updated = i\<rparr>"

definition scene_edges :: "stage list \<Rightarrow> scene_edge list" where
  "scene_edges steps = map (\<lambda>i. \<lparr>se_from = st_id (steps ! (i - 1)), se_to = st_id (steps ! i), se_kind = ''flow''\<rparr>)
     [1..<length steps]"

definition flow_steps :: "bool \<Rightarrow> stage list" where
  "flow_steps anchored = filter (\<lambda>s. st_id s \<noteq> ''anchor'' \<or> anchored) FLOW"

definition prop_or :: "jsval \<Rightarrow> string \<Rightarrow> jsval \<Rightarrow> jsval res" where
  "prop_or v k d = rbind (get_prop v k) (\<lambda>x. Inr (js_or x d))"

definition is_anchored :: "jsval \<Rightarrow> jsval \<Rightarrow> bool res" where
  "is_anchored art pkg =
     rbind (if truthy pkg then get_prop pkg ''anchorTxHash'' else Inr pkg) (\<lambda>h.
     rbind (get_prop art ''anchorTx'') (\<lambda>t. Inr (truthy h \<or> truthy t)))"

definition bundle_to_cinema_proof :: "jsval \<Rightarrow> jsval \<Rightarrow> cinema_proof res" where
  "bundle_to_cinema_proof receipt pkg =
     (let r = js_or receipt (JObj []) in
      rbind (prop_or r ''assurance'' (JObj [])) (\<lambda>a.
      rbind (prop_or r ''artifacts'' (JObj [])) (\<lambda>art.
      rbind (is_anchored art pkg) (\<lambda>anchored.
      let steps = flow_steps anchored; level = JStr (if anchored then ''L4'' else ''L3'') in
      rbind (get_prop a ''label'') (\<lambda>lab.
      rbind (prop_or a ''proofLevel'' level) (\<lambda>lvl.
      rbind (get_prop a ''l0Verified'') (\<lambda>l0.
      rbind (get_prop a ''nodeTrusted'') (\<lambda>nt.
      rbind (prop_or art ''intentId'' (JStr '''')) (\<lambda>intent.
      rbind (prop_or art ''planId'' (JStr '''')) (\<lambda>plan.
      rbind (prop_or art ''outcomeId'' (JStr '''')) (\<lambda>outcome.
      rbind (prop_or art ''evidenceId'' (JStr '''')) (\<lambda>evidence.
      rbind (prop_or art ''anchorTx'' (JStr '''')) (\<lambda>anchor.
      rbind (prop_or r ''subject'' (JObj [])) (\<lambda>subject.
      rbind (prop_or r ''status'' (JStr '''')) (\<lambda>status.
      Inr \<lparr>cp_nodes = map (\<lambda>i. mk_scene_node i (steps ! i)) [0..<length steps],
           cp_edges = scene_edges steps,
           cp_assurance = (if truthy l0 then ''l0_confirmed'' else ''offline''),
           cp_label = js_or lab lvl, cp_level = lvl, cp_l0 = truthy l0, cp_trusted = (nt = JBool True),
           cp_details = [(''intent'', intent), (''plan'', plan), (''outcome'', outcome),
                         (''evidence'', evidence), (''anchor'', anchor)],
           cp_subject = subject, cp_status = status\<rparr>)))))))))))))))"

definition sceneNodeCount :: "cinema_proof option \<Rightarrow> nat" where
  "sceneNodeCount p = (case p of Some q \<Rightarrow> length (cp_nodes q) | None \<Rightarrow> 0)"

section \<open>The scene of any input\<close>

lemma get_prop_total: "truthy v \<Longrightarrow> \<exists>x. get_prop v k = Inr x"
  by (cases v) simp_all

lemma prop_or_total: "truthy v \<Longrightarrow> \<exists>x. prop_or v k d = Inr x \<and> (truthy d \<longrightarrow> truthy x)"
  using get_prop_total [of v k] by (auto simp: prop_or_def)

lemma is_anchored_total: "truthy art \<Longrightarrow> \<exists>b. is_anchored art pkg = Inr b"
  using get_prop_total [of art "''anchorTx''"] get_prop_total [of pkg "''anchorTxHash''"]
  by (cases "truthy pkg") (auto simp: is_anchored_def)

definition receipt_part :: "jsval \<Rightarrow> string \<Rightarrow> jsval" where
  "receipt_part receipt k = (case prop_or (js_or receipt (JObj [])) k (JObj []) of Inr x \<Rightarrow> x | Inl _ \<Rightarrow> JUndef)"

lemma receipt_part: "prop_or (js_or receipt (JObj [])) k (JObj []) = Inr (receipt_part receipt k) \<and> truthy (receipt_part receipt k)"
  using prop_or_total [of "js_or receipt (JObj [])" k "JObj []"] by (auto simp: receipt_part_def)

lemma cinema_proofD:
  assumes "bundle_to_cinema_proof receipt pkg = Inr p"
  shows "\<exists>anchored lab lvl l0 nt. is_anchored (receipt_part receipt ''artifacts'') pkg = Inr anchored \<and>
    get_prop (receipt_part receipt ''assurance'') ''label'' = Inr lab \<and>
    prop_or (receipt_part receipt ''assurance'') ''proofLevel'' (JStr (if anchored then ''L4'' else ''L3'')) = Inr lvl \<and>
    get_prop (receipt_part receipt ''assurance'') ''l0Verified'' = Inr l0 \<and>
    get_prop (receipt_part receipt ''assurance'') ''nodeTrusted'' = Inr nt \<and>
    cp_nodes p = map (\<lambda>i. mk_scene_node i (flow_steps anchored ! i)) [0..<length (flow_steps anchored)] \<and>
    cp_edges p = scene_edges (flow_steps anchored) \<and>
    cp_assurance p = (if truthy l0 then ''l0_confirmed'' else ''offline'') \<and>
    cp_label p = js_or lab lvl \<and> cp_level p = lvl \<and> cp_l0 p = truthy l0 \<and> cp_trusted p = (nt = JBool True)"
proof -
  have a: "prop_or (js_or receipt (JObj [])) k (JObj []) = Inr (receipt_part receipt k)" for k
    by (rule conjunct1 [OF receipt_part])
  show ?thesis
    using assms unfolding bundle_to_cinema_proof_def Let_def a rbind_Inr rbind_eq_Inr sum.inject
    by (elim exE conjE) (intro exI conjI, assumption+, (erule subst, simp)+)
qed

lemma cinema_proof_total: "\<exists>p. bundle_to_cinema_proof receipt pkg = Inr p"
proof -
  have r: "truthy (js_or receipt (JObj []))" by simp
  have g: "\<exists>x. prop_or v k d = Inr x" if "truthy v" for v k d using prop_or_total [OF that] by blast
  have a: "prop_or (js_or receipt (JObj [])) k (JObj []) = Inr x \<Longrightarrow> truthy x" for k x
    using receipt_part [of receipt k] by simp
  show ?thesis
    unfolding bundle_to_cinema_proof_def Let_def
    by (rule rbind_total g get_prop_total is_anchored_total r | drule a | assumption | rule exI refl)+
qed

definition flow_ids :: "bool \<Rightarrow> string list" where
  "flow_ids anchored = [''intent'', ''plan'', ''policy'', ''approval'', ''credential'', ''outcome''] @
     (if anchored then [''anchor''] else [])"

lemma flow_steps_ids: "map st_id (flow_steps anchored) = flow_ids anchored"
  by (simp add: flow_steps_def FLOW_def flow_ids_def)

lemma upt_from_1: "[1..<length (x # xs)] = map Suc [0..<length xs]"
  by (simp add: map_Suc_upt)

lemma scene_edges_zip: "map (\<lambda>e. (se_from e, se_to e)) (scene_edges ss) = zip (map st_id ss) (tl (map st_id ss))"
proof (cases ss)
  case (Cons s rest)
  show ?thesis
    unfolding scene_edges_def Cons upt_from_1
    by (rule nth_equalityI) (auto simp: nth_Cons split: nat.splits)
qed (simp add: scene_edges_def)

text \<open>The condition of a proof being anchored, read off the two inputs.\<close>

definition anchor_named :: "jsval \<Rightarrow> jsval \<Rightarrow> bool" where
  "anchor_named receipt pkg \<longleftrightarrow>
     (truthy pkg \<and> (\<exists>h. get_prop pkg ''anchorTxHash'' = Inr h \<and> truthy h)) \<or>
     (truthy receipt \<and> (\<exists>a. get_prop receipt ''artifacts'' = Inr a \<and> truthy a \<and>
        (\<exists>t. get_prop a ''anchorTx'' = Inr t \<and> truthy t)))"

lemma is_anchored_named: "is_anchored (receipt_part receipt ''artifacts'') pkg = Inr (anchor_named receipt pkg)"
proof -
  have "\<exists>t. get_prop (receipt_part receipt ''artifacts'') ''anchorTx'' = Inr t \<and>
      (truthy t \<longleftrightarrow> (truthy receipt \<and> (\<exists>a. get_prop receipt ''artifacts'' = Inr a \<and> truthy a \<and>
        (\<exists>t. get_prop a ''anchorTx'' = Inr t \<and> truthy t))))"
  proof (cases "truthy receipt")
    case True
    then obtain a where a: "get_prop receipt ''artifacts'' = Inr a" using get_prop_total by blast
    show ?thesis
    proof (cases "truthy a")
      case ta: True
      then obtain t where "get_prop a ''anchorTx'' = Inr t" using get_prop_total by blast
      then show ?thesis using True a ta by (simp add: receipt_part_def prop_or_def)
    qed (use True a in \<open>simp add: receipt_part_def prop_or_def obj_get_simps proto_member_def proto_methods_def\<close>)
  qed (simp add: receipt_part_def prop_or_def obj_get_simps proto_member_def proto_methods_def)
  moreover have "\<exists>h. (if truthy pkg then get_prop pkg ''anchorTxHash'' else Inr pkg) = Inr h \<and>
      (truthy h \<longleftrightarrow> truthy pkg \<and> (\<exists>h. get_prop pkg ''anchorTxHash'' = Inr h \<and> truthy h))"
    using get_prop_total [of pkg "''anchorTxHash''"] by (cases "truthy pkg") auto
  ultimately show ?thesis by (auto simp: is_anchored_def anchor_named_def)
qed

text \<open>Two nodes side by side: the second begins right of where the first ends.\<close>

definition right_of :: "scene_node \<Rightarrow> scene_node \<Rightarrow> bool" where
  "right_of m n \<longleftrightarrow> sn_x m + sn_size m < sn_x n"

lemma scene_nodes_apart:
  "sorted_wrt right_of (map (\<lambda>i. mk_scene_node i (ss ! i)) [0..<length ss])"
  by (auto simp: sorted_wrt_iff_nth_less right_of_def mk_scene_node_def)

lemma scene_nodes_ids:
  "map sn_id (map (\<lambda>i. mk_scene_node i (ss ! i)) [0..<length ss]) = map st_id ss"
  "list_all (\<lambda>n. 0 < sn_size n) (map (\<lambda>i. mk_scene_node i (ss ! i)) [0..<length ss])"
  by (auto intro!: nth_equalityI simp: mk_scene_node_def list_all_iff)

text \<open>C22: For a receipt and a package of any shape the scene shows the six stages in order, and the
anchor exactly when the package has an anchor transaction hash or the receipt an anchor
artifact, linked one after another, every node to the right of the end of all nodes before it.\<close>

theorem scene_follows_flow:
  "\<exists>p ids. bundle_to_cinema_proof receipt pkg = Inr p \<and> ids = flow_ids (anchor_named receipt pkg) \<and>
     map sn_id (cp_nodes p) = ids \<and>
     map (\<lambda>e. (se_from e, se_to e)) (cp_edges p) = zip ids (tl ids) \<and>
     list_all (\<lambda>n. 0 < sn_size n) (cp_nodes p) \<and> sorted_wrt right_of (cp_nodes p) \<and>
     sceneNodeCount (Some p) = (if anchor_named receipt pkg then 7 else 6)"
proof -
  let ?a = "anchor_named receipt pkg"
  obtain p where p: "bundle_to_cinema_proof receipt pkg = Inr p" using cinema_proof_total by blast
  from cinema_proofD [OF p] have
    n: "cp_nodes p = map (\<lambda>i. mk_scene_node i (flow_steps ?a ! i)) [0..<length (flow_steps ?a)]"
    and e: "cp_edges p = scene_edges (flow_steps ?a)" by (auto simp: is_anchored_named)
  have "length (flow_steps ?a) = length (flow_ids ?a)"
    by (simp add: flow_steps_ids [symmetric])
  then have "sceneNodeCount (Some p) = (if ?a then 7 else 6)"
    by (simp add: sceneNodeCount_def n flow_ids_def)
  moreover have "map sn_id (cp_nodes p) = flow_ids ?a" "list_all (\<lambda>n. 0 < sn_size n) (cp_nodes p)"
    "sorted_wrt right_of (cp_nodes p)"
    unfolding n scene_nodes_ids(1) flow_steps_ids by (rule refl, rule scene_nodes_ids(2), rule scene_nodes_apart)
  ultimately show ?thesis using p e by (auto simp: scene_edges_zip flow_steps_ids)
qed

theorem assurance_honest:
  assumes "bundle_to_cinema_proof receipt pkg = Inr p"
  defines "a \<equiv> receipt_part receipt ''assurance''"
  shows "(cp_assurance p = ''l0_confirmed'' \<longleftrightarrow> cp_l0 p) \<and>
         (cp_l0 p \<longleftrightarrow> (\<exists>l. get_prop a ''l0Verified'' = Inr l \<and> truthy l)) \<and>
         (cp_trusted p \<longleftrightarrow> get_prop a ''nodeTrusted'' = Inr (JBool True)) \<and>
         (\<forall>lab. get_prop a ''label'' = Inr lab \<longrightarrow> truthy lab \<longrightarrow> cp_label p = lab)"
  using cinema_proofD [OF assms(1)] by (auto simp: a_def)

theorem unlabelled_receipt_claims_L4:
  assumes "truthy pkg" and "get_prop pkg ''anchorTxHash'' = Inr h" and "truthy h"
  shows "\<exists>p. bundle_to_cinema_proof JNull pkg = Inr p \<and> cp_label p = JStr ''L4'' \<and> cp_level p = JStr ''L4'' \<and>
             \<not> cp_l0 p \<and> cp_assurance p = ''offline''"
proof -
  have "bundle_to_cinema_proof JNull pkg = Inr p \<Longrightarrow> ?thesis" for p
  proof -
    assume p: "bundle_to_cinema_proof JNull pkg = Inr p"
    have part: "receipt_part JNull k = JObj []" if "proto_member k = JUndef" for k
      using that by (simp add: receipt_part_def prop_or_def obj_get_simps)
    have k: "proto_member ''artifacts'' = JUndef" "proto_member ''assurance'' = JUndef" "proto_member ''label'' = JUndef"
      "proto_member ''proofLevel'' = JUndef" "proto_member ''l0Verified'' = JUndef" "proto_member ''anchorTx'' = JUndef"
      by (simp_all add: proto_member_def proto_methods_def)
    from cinema_proofD [OF p] show ?thesis
      using assms p by (auto simp: part k is_anchored_def prop_or_def obj_get_simps)
  qed
  then show ?thesis using cinema_proof_total by blast
qed

definition anchored_pkg :: jsval where
  "anchored_pkg = JObj [(''anchorTxHash'', JStr ''0xabc'')]"

theorem assurance_honest_witness:
  "\<exists>p. bundle_to_cinema_proof (JObj [(''assurance'', JObj [(''l0Verified'', JBool True)])]) anchored_pkg = Inr p \<and> cp_l0 p"
proof -
  obtain p where p: "bundle_to_cinema_proof (JObj [(''assurance'', JObj [(''l0Verified'', JBool True)])]) anchored_pkg = Inr p"
    using cinema_proof_total by blast
  from assurance_honest [OF p] p show ?thesis
    by (auto simp: receipt_part_def prop_or_def obj_get_simps)
qed

theorem unlabelled_receipt_claims_L4_witness:
  "\<exists>p. bundle_to_cinema_proof JNull anchored_pkg = Inr p \<and> cp_label p = JStr ''L4'' \<and> \<not> cp_l0 p"
  using unlabelled_receipt_claims_L4 [of anchored_pkg "JStr ''0xabc''"] by (auto simp: anchored_pkg_def obj_get_simps)

end
