(* ===== verification/Receipt.thy ===== *)
theory Receipt
  imports Lab BundleScene
begin

text \<open>
  The receipt page of \<open>web/playground.js\<close> (\<open>renderReceipt\<close>): the page drawn when the
  node's answer arrives, the eager verification when the bundle arrives, the re-verify button,
  and the replay mounted when the disclosure first opens. The listeners of the re-verify button
  and of the disclosure are attached after the bundle was dealt with. The receipt card and the
  Cinema core are outside the repository: the card's content is the argument \<open>rcard\<close>, whether
  the core accepts a scene an argument of the toggle.
\<close>

section \<open>The receipt\<close>

record receipt_env =
  re_verifier :: "jsval \<Rightarrow> failure + jsval"
  re_reduce :: bool
  re_emsg :: "jserr \<Rightarrow> string"
  re_origin :: string

record receipt_page =
  rc_id :: string
  rc_mode :: jsval
  rc_reproduce :: "action dom"
  rc_receipt :: jsval
  rc_waiting :: bool
  rc_host :: "shown_item list"
  rc_matrix :: "action matrix option"
  rc_reverify_off :: bool
  rc_pkg :: jsval
  rc_open :: bool
  rc_cinema :: bool
  rc_notes :: "string list"
  rc_emits :: "(string \<times> string) list"

datatype receipt_view = ReceiptError shown_error | ReceiptPage receipt_page

definition verifying_here :: shown_item where
  "verifying_here = LoadingLine (''Verifying in your browser (no node trusted)'' @ u_ellipsis)"

text \<open>The page once the node has answered, up to the wait for the bundle.\<close>

definition render_receipt :: "receipt_env \<Rightarrow> string \<Rightarrow> fetched \<Rightarrow> receipt_view res" where
  "render_receipt env rid reply = (case api (receipt_path rid) reply of
     Inl e \<Rightarrow> Inr (ReceiptError (failure_error (re_emsg env) e))
   | Inr data \<Rightarrow>
      rbind (get_prop data ''mode'') (\<lambda>mode. rbind (get_prop data ''flow'') (\<lambda>flow.
      rbind (reproduce_panel flow) (\<lambda>panel. rbind (get_prop data ''receipt'') (\<lambda>receipt.
      Inr (ReceiptPage \<lparr>rc_id = rid, rc_mode = mode, rc_reproduce = panel, rc_receipt = receipt,
        rc_waiting = True, rc_host = [verifying_here], rc_matrix = None, rc_reverify_off = True,
        rc_pkg = JNull, rc_open = False, rc_cinema = False, rc_notes = [], rc_emits = []\<rparr>))))))"

text \<open>\<open>pkgPromise\<close>: the package, or null when the request, its status or its body fails.\<close>

definition bundle_package :: "fetched \<Rightarrow> jsval" where
  "bundle_package f = (case f of NetFail _ \<Rightarrow> JNull
     | Got r \<Rightarrow> if rs_ok r then (case rs_json r of Some v \<Rightarrow> v | None \<Rightarrow> JNull) else JNull)"

text \<open>\<open>[a.proofLevel, a.governanceLevel].filter(Boolean).join(' \<^bold>\<middot> ')\<close>\<close>

definition assurance_label :: "jsval \<Rightarrow> string res" where
  "assurance_label receipt =
     rbind (if truthy receipt then get_prop receipt ''assurance'' else Inr receipt) (\<lambda>a0.
     let a = js_or a0 (JObj []) in
     rbind (get_prop a ''proofLevel'') (\<lambda>p. rbind (get_prop a ''governanceLevel'') (\<lambda>g.
     rbind (rmapM to_str (filter truthy [p, g])) (\<lambda>ls. Inr (join ('' '' @ u_mid @ '' '') ls)))))"

text \<open>
  The eager verification: the host's new content, the matrix when there is one, and the
  results it emitted.
\<close>

definition receipt_verdict ::
  "receipt_env \<Rightarrow> jsval \<Rightarrow> jsval \<Rightarrow> shown_item list \<times> action matrix option \<times> string list" where
  "receipt_verdict env receipt pkg =
     (if \<not> truthy pkg then ([ErrorShown (plain_error ''Could not load the proof bundle to verify.'')], None, [])
      else (case re_verifier env pkg of
        Inl e \<Rightarrow> ([ErrorShown (failure_error (re_emsg env) e)], None, [])
      | Inr result \<Rightarrow>
         (case get_prop result ''passed'' of
            Inl e \<Rightarrow> ([ErrorShown (failure_error (re_emsg env) (JsFail e))], None, [])
          | Inr p \<Rightarrow>
             (case rbind (assurance_label receipt) (\<lambda>l. mount_check_matrix result
                     (JObj [(''stagger'', jint (if re_reduce env then 0 else 80)), (''assuranceLabel'', JStr l)])) of
                Inl e \<Rightarrow> ([ErrorShown (failure_error (re_emsg env) (JsFail e))], None, [outcome_word (truthy p)])
              | Inr m \<Rightarrow> ([MatrixShown m], Some m, [outcome_word (truthy p)])))))"

definition bundle_arrives :: "receipt_env \<Rightarrow> fetched \<Rightarrow> receipt_page \<Rightarrow> receipt_page" where
  "bundle_arrives env reply pg = (if \<not> rc_waiting pg then pg else
     let pkg = bundle_package reply; (host, matrix, results) = receipt_verdict env (rc_receipt pg) pkg in
     pg\<lparr>rc_waiting := False, rc_pkg := pkg, rc_host := host, rc_matrix := matrix, rc_reverify_off := (matrix = None),
        rc_emits := rc_emits pg @ map (Pair ''proof.verified'') results\<rparr>)"

text \<open>The re-verify button replays the matrix; it is the matrix the host shows.\<close>

definition reverify :: "receipt_page \<Rightarrow> receipt_page" where
  "reverify pg = (if rc_waiting pg \<or> rc_reverify_off pg then pg else (case rc_matrix pg of
     None \<Rightarrow> pg
   | Some m \<Rightarrow> pg\<lparr>rc_matrix := Some (reveal m), rc_host := [MatrixShown (reveal m)]\<rparr>))"

text \<open>
  A click on the disclosure flips it; its listener mounts the replay at the first opening it
  sees. \<open>mounts\<close> says whether the Cinema core accepts the scene.
\<close>

definition toggle_details :: "(cinema_proof \<Rightarrow> bool) \<Rightarrow> receipt_page \<Rightarrow> receipt_page" where
  "toggle_details mounts pg0 = (let pg = pg0\<lparr>rc_open := \<not> rc_open pg0\<rparr> in
     if rc_waiting pg \<or> \<not> rc_open pg \<or> rc_cinema pg then pg
     else (case bundle_to_cinema_proof (rc_receipt pg) (rc_pkg pg) of
        Inr p \<Rightarrow> if mounts p then pg\<lparr>rc_cinema := True, rc_emits := rc_emits pg @ [(''cinema.opened'', ''success'')]\<rparr>
            else pg\<lparr>rc_cinema := True, rc_notes := rc_notes pg @ [''Replay unavailable in this browser.'']\<rparr>
      | Inl _ \<Rightarrow> pg\<lparr>rc_cinema := True, rc_notes := rc_notes pg @ [''Replay unavailable in this browser.'']\<rparr>))"

section \<open>The elements of the page\<close>

definition receipt_intro :: "jsval \<Rightarrow> string" where
  "receipt_intro mode = (if mode = JStr ''kermit''
     then ''Live Kermit run '' @ u_dash @ '' confirmed against the testnet.''
     else ''Fixture-backed run '' @ u_dash @ '' verified offline, caps at L3 (no live-L0 claim).'')"

definition share_url :: "receipt_env \<Rightarrow> string \<Rightarrow> string" where
  "share_url env rid = re_origin env @ ''/#/r/'' @ rid"

definition receipt_actions :: "receipt_env \<Rightarrow> receipt_page \<Rightarrow> action dom" where
  "receipt_actions env pg =
     (let again = button ''pg-btn pg-btn-primary'' ''Re-verify line by line'' Replay in
      append_kids (elt ''div'' ''pg-receipt-actions'' '''') [
        put_attr ''download'' (rc_id pg @ ''.infrix.json'')
          (link ''pg-btn'' ''Download proof bundle'' (receipt_path (rc_id pg) @ ''/bundle'')),
        (if rc_reverify_off pg then put_attr ''disabled'' '''' again else again),
        button ''pg-btn'' ''Copy share link'' (CopyText (share_url env (rc_id pg)) ''Copy share link''),
        link ''pg-btn'' (''Try to forge it '' @ u_arrow) ''#/lab''])"

definition receipt_details :: "(jsval \<Rightarrow> action dom list) \<Rightarrow> receipt_page \<Rightarrow> action dom" where
  "receipt_details rcard pg = append_kids (elt ''details'' ''pg-disclosure'' '''') [
     elt ''summary'' '''' ''Inspect the full proof'',
     append_kids (elt ''div'' ''pg-split'' '''') [
       append_kids (elt ''div'' ''pg-panel'' '''')
         [elt ''h2'' '''' ''Receipt'', append_kids (elt ''div'' '''' '''') (rcard (rc_receipt pg))],
       append_kids (elt ''div'' ''pg-panel'' '''')
         [elt ''h2'' '''' ''Cinema replay'',
          append_kids (elt ''div'' ''pg-cinema-host'' '''') (map (elt ''div'' ''pg-note'') (rc_notes pg))]]]"

definition receipt_dom ::
  "receipt_env \<Rightarrow> (jsval \<Rightarrow> action dom list) \<Rightarrow> (jsval \<Rightarrow> action dom list) \<Rightarrow> receipt_page \<Rightarrow> action dom list res" where
  "receipt_dom env ue rcard pg = rbind (rmapM (shown_dom ue) (rc_host pg)) (\<lambda>shown. Inr [
     append_kids (elt ''section'' ''pg-hero'' '''')
       [elt ''h1'' '''' ''Proof receipt'', elt ''p'' '''' (receipt_intro (rc_mode pg))],
     append_kids (elt ''div'' ''pg-matrix-host'' '''') shown,
     receipt_actions env pg,
     rc_reproduce pg,
     receipt_details rcard pg])"

section \<open>Everything that can happen on a drawn receipt\<close>

text \<open>A timer of the shown matrix.\<close>

definition receipt_tick :: "nat \<Rightarrow> receipt_page \<Rightarrow> receipt_page" where
  "receipt_tick i pg = (case rc_matrix pg of
     Some m \<Rightarrow> (if i \<in> set (mx_timers m)
       then pg\<lparr>rc_matrix := Some (row_timer i m), rc_host := [MatrixShown (row_timer i m)]\<rparr> else pg)
   | None \<Rightarrow> pg)"

inductive receipt_step :: "receipt_env \<Rightarrow> receipt_page \<Rightarrow> receipt_page \<Rightarrow> bool" for env :: receipt_env where
  arrived: "receipt_step env pg (bundle_arrives env reply pg)"
| replayed: "receipt_step env pg (reverify pg)"
| ticked: "receipt_step env pg (receipt_tick i pg)"
| toggled: "receipt_step env pg (toggle_details mounts pg)"

definition emitted :: "string \<Rightarrow> receipt_page \<Rightarrow> string list" where
  "emitted ev pg = map snd (filter (\<lambda>e. fst e = ev) (rc_emits pg))"

text \<open>The host shows the verdict of the package, or why there is none.\<close>

definition verdict_shown :: "receipt_env \<Rightarrow> receipt_page \<Rightarrow> bool" where
  "verdict_shown env pg \<longleftrightarrow> (case rc_matrix pg of
     None \<Rightarrow> \<exists>e. rc_host pg = [ErrorShown e]
   | Some m \<Rightarrow> rc_host pg = [MatrixShown m] \<and> truthy (rc_pkg pg) \<and>
       (\<exists>result. re_verifier env (rc_pkg pg) = Inr result \<and> matrix_tells result m \<and>
          emitted ''proof.verified'' pg = [outcome_word (result_passed result)]))"

definition receipt_inv :: "receipt_env \<Rightarrow> receipt_page \<Rightarrow> bool" where
  "receipt_inv env pg \<longleftrightarrow> (rc_reverify_off pg \<longleftrightarrow> rc_matrix pg = None) \<and>
     (if rc_waiting pg
      then rc_host pg = [verifying_here] \<and> rc_matrix pg = None \<and> \<not> rc_cinema pg \<and> rc_emits pg = []
      else verdict_shown env pg) \<and>
     length (emitted ''cinema.opened'' pg) + length (rc_notes pg) = (if rc_cinema pg then 1 else 0)"

lemma receipt_verdictE:
  assumes "receipt_verdict env receipt pkg = (host, matrix, emits)"
  shows "(matrix = None \<and> (\<exists>e. host = [ErrorShown e])) \<or>
    (\<exists>m result p lab. matrix = Some m \<and> host = [MatrixShown m] \<and> truthy pkg \<and> re_verifier env pkg = Inr result \<and>
      get_prop result ''passed'' = Inr p \<and> emits = [outcome_word (truthy p)] \<and>
      mount_check_matrix result lab = Inr m)"
  using assms by (auto simp: receipt_verdict_def rbind_eq_Inr split: if_splits sum.splits)

lemma arrived_inv:
  assumes "receipt_inv env pg"
  shows "receipt_inv env (bundle_arrives env reply pg)"
proof (cases "rc_waiting pg")
  case True
  obtain host matrix results where v: "receipt_verdict env (rc_receipt pg) (bundle_package reply) = (host, matrix, results)"
    by (cases "receipt_verdict env (rc_receipt pg) (bundle_package reply)") auto
  have f: "filter (\<lambda>e. fst e = ev) (map (Pair ev') xs) = (if ev' = ev then map (Pair ev') xs else [])" for ev ev' :: string and xs :: "string list"
    by (induction xs) simp_all
  from True assms receipt_verdictE [OF v] v show ?thesis
    by (auto simp: receipt_inv_def bundle_arrives_def Let_def verdict_shown_def emitted_def f result_passed_def comp_def
        intro: mount_tells)
qed (use assms in \<open>simp add: bundle_arrives_def\<close>)

lemma toggled_inv: "receipt_inv env pg \<Longrightarrow> receipt_inv env (toggle_details mounts pg)"
  by (auto simp: receipt_inv_def toggle_details_def Let_def verdict_shown_def emitted_def split: sum.splits option.splits)

lemma receipt_step_inv: "receipt_step env pg pg' \<Longrightarrow> receipt_inv env pg \<Longrightarrow> receipt_inv env pg'"
proof (induction rule: receipt_step.induct)
  case (replayed pg)
  then show ?case
    by (auto simp: receipt_inv_def reverify_def verdict_shown_def emitted_def reveal_tells split: option.splits)
next
  case (ticked pg i)
  then show ?case
    by (auto simp: receipt_inv_def receipt_tick_def verdict_shown_def emitted_def intro: row_timer_tells split: option.splits if_splits)
qed (simp_all add: arrived_inv toggled_inv)

interpretation receipt: invariant_system "{pg. receipt_inv env pg}" "receipt_step env" "receipt_inv env" for env
  by unfold_locales (auto intro: receipt_step_inv)

lemma rendered_inv: "render_receipt env rid reply = Inr (ReceiptPage pg) \<Longrightarrow> receipt_inv env' pg"
  by (auto simp: render_receipt_def rbind_eq_Inr receipt_inv_def emitted_def split: sum.splits)

lemma reached_inv:
  assumes "render_receipt env rid reply = Inr (ReceiptPage pg0)" and "reach {pg0} (receipt_step env) pg"
  shows "receipt_inv env pg"
proof -
  have "reach {pg. receipt_inv env pg} (receipt_step env) pg"
    by (rule reach_mono [OF assms(2)]) (use rendered_inv [OF assms(1)] in simp)
  then show ?thesis by (rule receipt.inv_reach)
qed

text \<open>C5: Once the bundle of a receipt has arrived, and through every replay, timer and toggle after
it, the page shows either an error or the matrix of the verdict the verifier gave on that
bundle, with the state and the rows of that verdict, and it reported that verdict once.\<close>

theorem receipt_verdict_honest:
  assumes "render_receipt env rid reply = Inr (ReceiptPage pg0)" and "reach {pg0} (receipt_step env) pg"
    and "\<not> rc_waiting pg"
  shows "case rc_matrix pg of
       None \<Rightarrow> \<exists>e. rc_host pg = [ErrorShown e]
     | Some m \<Rightarrow> rc_host pg = [MatrixShown m] \<and> truthy (rc_pkg pg) \<and>
         (\<exists>result. re_verifier env (rc_pkg pg) = Inr result \<and> matrix_tells result m \<and>
            emitted ''proof.verified'' pg = [outcome_word (result_passed result)])"
  using reached_inv [OF assms(1,2)] assms(3) by (simp add: receipt_inv_def verdict_shown_def)

theorem reverify_offered_with_verdict:
  assumes "render_receipt env rid reply = Inr (ReceiptPage pg0)" and "reach {pg0} (receipt_step env) pg"
  shows "live (receipt_actions env pg) =
    (if \<exists>m. rc_host pg = [MatrixShown m] then [Replay] else []) @
    [CopyText (share_url env (rc_id pg)) ''Copy share link'']"
proof -
  have "(\<exists>m. rc_host pg = [MatrixShown m]) \<longleftrightarrow> \<not> rc_reverify_off pg"
    using reached_inv [OF assms]
    by (auto simp: receipt_inv_def verdict_shown_def verifying_here_def split: if_splits option.splits)
  moreover have "live (put_attr ''disabled'' '''' (button c t h)) = []" for c t h
    by (simp add: button_def live_leaf)
  moreover have "live (put_attr ''download'' f (link c t h)) = []" for f c t h
    by (simp add: link_def live_leaf)
  ultimately show ?thesis
    by (simp add: receipt_actions_def Let_def live_box)
qed

theorem replay_mounted_once:
  assumes "render_receipt env rid reply = Inr (ReceiptPage pg0)" and "reach {pg0} (receipt_step env) pg"
  shows "length (emitted ''cinema.opened'' pg) + length (rc_notes pg) \<le> 1 \<and>
    (\<not> rc_waiting pg \<and> \<not> rc_cinema pg \<and> \<not> rc_open pg \<longrightarrow> rc_cinema (toggle_details mounts pg))"
  using reached_inv [OF assms] by (auto simp: receipt_inv_def toggle_details_def Let_def split: sum.splits)

lemma toggle_selectors: "rc_open (toggle_details mounts pg) = (\<not> rc_open pg)"
  "rc_waiting (toggle_details mounts pg) = rc_waiting pg"
  "rc_cinema (toggle_details mounts pg) = (rc_cinema pg \<or> \<not> rc_waiting pg \<and> \<not> rc_open pg)"
  by (auto simp: toggle_details_def Let_def split: sum.splits)

lemma arrives_selectors: "rc_open (bundle_arrives env reply pg) = rc_open pg"
  "rc_waiting (bundle_arrives env reply pg) = False" "rc_cinema (bundle_arrives env reply pg) = rc_cinema pg"
  by (simp_all add: bundle_arrives_def Let_def case_prod_beta)

text \<open>C36: A visitor who opens the disclosure before the verdict gets no replay: the listener is
attached later, and only closing and opening it again mounts it.\<close>

theorem early_open_misses_replay:
  assumes "render_receipt env rid reply = Inr (ReceiptPage pg)"
  shows "let pg' = bundle_arrives env bundle (toggle_details mounts pg) in
    rc_open pg' \<and> \<not> rc_waiting pg' \<and> \<not> rc_cinema pg' \<and> \<not> rc_cinema (toggle_details mounts pg') \<and>
    rc_cinema (toggle_details mounts (toggle_details mounts pg'))"
proof -
  have "rc_waiting pg" "\<not> rc_open pg" "\<not> rc_cinema pg"
    using assms by (auto simp: render_receipt_def rbind_eq_Inr split: sum.splits)
  then show ?thesis by (simp add: toggle_selectors arrives_selectors Let_def)
qed

section \<open>A receipt\<close>

definition ok_reply :: "jsval \<Rightarrow> fetched" where
  "ok_reply v = Got \<lparr>rs_ok = True, rs_status = 200, rs_json = Some v, rs_text = json_text v\<rparr>"

definition receipt_data :: jsval where
  "receipt_data = JObj [(''mode'', JStr ''anonymous''), (''flow'', JStr ''create-did''),
     (''receipt'', JObj [(''assurance'', JObj [(''proofLevel'', JStr ''L3'')])])]"

definition sample_receipt_env :: receipt_env where
  "sample_receipt_env = \<lparr>re_verifier = (\<lambda>p. Inr (toy_verdict (p = toy_clean))), re_reduce = True,
     re_emsg = (\<lambda>_. ''error''), re_origin = ''https://play.example''\<rparr>"

lemma toy_clean_data: "json_data toy_clean"
  by (simp add: toy_clean_def toy_proof_def)

lemma sample_verifier: "re_verifier sample_receipt_env p = Inr (toy_verdict (p = toy_clean))"
  "re_reduce sample_receipt_env"
  by (simp_all add: sample_receipt_env_def)

lemma toy_mount_label: "\<exists>m :: action matrix. mount_check_matrix (toy_verdict b)
    (JObj [(''stagger'', jint 0), (''assuranceLabel'', JStr l)]) = Inr m"
  by (cases l) (simp_all add: mount_check_matrix_def toy_verdict_def obj_get_simps checks_of_def all_pass_def
      matrix_head_def opt_el_def)

lemma sample_receipt: "\<exists>pg. render_receipt sample_receipt_env ''r1'' (ok_reply receipt_data) = Inr (ReceiptPage pg) \<and>
    rc_waiting pg \<and> rc_receipt pg = JObj [(''assurance'', JObj [(''proofLevel'', JStr ''L3'')])]"
proof -
  obtain panel where panel: "reproduce_panel (JStr ''create-did'') = Inr panel"
    by (simp add: reproduce_panel_def flow_field_def flow_meta_def FLOWS_def flow_entry_def obj_get_simps js_or_def
        copyable_code_def)
  then show ?thesis
    by (simp add: render_receipt_def ok_reply_def api_def receipt_data_def obj_get_simps)
qed

lemma sample_verdict: "\<exists>m. receipt_verdict sample_receipt_env (JObj [(''assurance'', JObj [(''proofLevel'', JStr ''L3'')])]) toy_clean =
    ([MatrixShown m], Some m, [''success''])"
proof -
  obtain m :: "action matrix" where m: "mount_check_matrix (toy_verdict True)
      (JObj [(''stagger'', jint 0), (''assuranceLabel'', JStr ''L3'')]) = Inr m"
    using toy_mount_label by blast
  have "assurance_label (JObj [(''assurance'', JObj [(''proofLevel'', JStr ''L3'')])]) = Inr ''L3''"
    by (simp add: assurance_label_def obj_get_simps js_or_def Let_def proto_member_def proto_methods_def)
  moreover have "truthy toy_clean" by (simp add: toy_clean_def toy_proof_def)
  ultimately show ?thesis
    using m by (simp add: receipt_verdict_def sample_verifier toy_verdicts(3) outcome_word_def)
qed

lemma sample_arrived: "\<exists>pg m. render_receipt sample_receipt_env ''r1'' (ok_reply receipt_data) = Inr (ReceiptPage pg) \<and>
    reach {pg} (receipt_step sample_receipt_env) (bundle_arrives sample_receipt_env (ok_reply toy_clean) pg) \<and>
    rc_matrix (bundle_arrives sample_receipt_env (ok_reply toy_clean) pg) = Some m \<and>
    rc_pkg (bundle_arrives sample_receipt_env (ok_reply toy_clean) pg) = toy_clean"
proof -
  obtain pg where pg: "render_receipt sample_receipt_env ''r1'' (ok_reply receipt_data) = Inr (ReceiptPage pg)"
    "rc_waiting pg" "rc_receipt pg = JObj [(''assurance'', JObj [(''proofLevel'', JStr ''L3'')])]"
    using sample_receipt by blast
  obtain m where m: "receipt_verdict sample_receipt_env (rc_receipt pg) toy_clean = ([MatrixShown m], Some m, [''success''])"
    using sample_verdict pg(3) by auto
  have "bundle_package (ok_reply toy_clean) = toy_clean" by (simp add: bundle_package_def ok_reply_def)
  moreover have "reach {pg} (receipt_step sample_receipt_env) (bundle_arrives sample_receipt_env (ok_reply toy_clean) pg)"
    by (rule reach_step [of "{pg}" "receipt_step sample_receipt_env" pg, OF reach_init receipt_step.arrived]) simp
  ultimately show ?thesis using pg m by (simp add: bundle_arrives_def)
qed

theorem receipt_verdict_honest_witness:
  "\<exists>pg m. rc_matrix pg = Some m \<and> mx_state m = ''pass'' \<and> emitted ''proof.verified'' pg = [''success'']"
proof -
  let ?arr = "bundle_arrives sample_receipt_env (ok_reply toy_clean)"
  obtain pg m where pg: "render_receipt sample_receipt_env ''r1'' (ok_reply receipt_data) = Inr (ReceiptPage pg)"
    "reach {pg} (receipt_step sample_receipt_env) (?arr pg)" "rc_matrix (?arr pg) = Some m" "rc_pkg (?arr pg) = toy_clean"
    using sample_arrived by blast
  have "\<not> rc_waiting (?arr pg)" by (simp add: arrives_selectors)
  from receipt_verdict_honest [OF pg(1,2) this] pg(3,4)
  have "matrix_tells (toy_verdict True) m \<and> emitted ''proof.verified'' (?arr pg) = [''success'']"
    by (auto simp: sample_verifier result_passed_def toy_verdicts(3) outcome_word_def)
  then show ?thesis
    using pg(3) by (intro exI [of _ "?arr pg"] exI [of _ m])
      (auto simp: matrix_tells_def all_pass_def toy_verdict_def obj_get_simps)
qed

theorem reverify_offered_with_verdict_witness:
  "\<exists>pg. rc_host pg = [verifying_here] \<and>
     live (receipt_actions sample_receipt_env pg) = [CopyText ''https://play.example/#/r/r1'' ''Copy share link'']"
proof -
  obtain pg where pg: "render_receipt sample_receipt_env ''r1'' (ok_reply receipt_data) = Inr (ReceiptPage pg)"
    using sample_receipt by blast
  have h: "rc_host pg = [verifying_here]" "rc_id pg = ''r1''"
    using pg by (auto simp: render_receipt_def rbind_eq_Inr split: sum.splits)
  have "reach {pg} (receipt_step sample_receipt_env) pg" by (rule reach_init) simp
  from reverify_offered_with_verdict [OF pg this] h show ?thesis
    by (intro exI [of _ pg]) (simp add: verifying_here_def share_url_def sample_receipt_env_def)
qed

theorem replay_mounted_once_witness:
  "\<exists>pg. \<not> rc_open pg \<and> rc_cinema (toggle_details (\<lambda>_. True) pg) \<and> length (rc_notes pg) \<le> 1"
proof -
  let ?arr = "bundle_arrives sample_receipt_env (ok_reply toy_clean)"
  obtain pg m where pg: "render_receipt sample_receipt_env ''r1'' (ok_reply receipt_data) = Inr (ReceiptPage pg)"
    "reach {pg} (receipt_step sample_receipt_env) (?arr pg)" using sample_arrived by blast
  have s: "\<not> rc_waiting (?arr pg)" "\<not> rc_cinema (?arr pg)" "\<not> rc_open (?arr pg)"
    using pg(1) by (auto simp: arrives_selectors render_receipt_def rbind_eq_Inr split: sum.splits)
  from replay_mounted_once [OF pg, of "\<lambda>_. True"] s show ?thesis by (intro exI [of _ "?arr pg"]) simp
qed

theorem early_open_misses_replay_witness:
  "\<exists>pg :: receipt_page. rc_open pg \<and> \<not> rc_waiting pg \<and> \<not> rc_cinema pg"
proof -
  obtain pg where "render_receipt sample_receipt_env ''r1'' (ok_reply receipt_data) = Inr (ReceiptPage pg)"
    using sample_receipt by blast
  from early_open_misses_replay [OF this, of "ok_reply toy_clean" "\<lambda>_. True"] show ?thesis
    unfolding Let_def by blast
qed

end
