(* ===== verification/VerifyPage.thy ===== *)
theory VerifyPage
  imports Receipt
begin

text \<open>
  The verify page of \<open>web/playground.js\<close> (\<open>renderVerify\<close>): a dropped, chosen, pasted or
  sample text goes through \<open>handle\<close>, which parses it, shows a loading line and awaits the
  verifier. A pending verification is a task that any later callback may finish. The open file
  picker of the browser is a counter of the times it was asked for.
\<close>

section \<open>The page\<close>

record verify_page =
  vp_out :: "shown_item list"
  vp_tasks :: "jsval list"
  vp_paste_hidden :: bool
  vp_toggle :: string
  vp_area :: string
  vp_over :: bool
  vp_picks :: nat

definition open_verify :: verify_page where
  "open_verify = \<lparr>vp_out = [], vp_tasks = [], vp_paste_hidden = True, vp_toggle = ''Paste JSON instead'',
     vp_area = '''', vp_over = False, vp_picks = 0\<rparr>"

definition not_json :: shown_error where
  "not_json = plain_error ''That is not valid JSON. Drop or paste a portable proof bundle.''"

definition submit_proof :: "string \<Rightarrow> verify_page \<Rightarrow> verify_page" where
  "submit_proof txt v = (case json_parse txt of
     Inl _ \<Rightarrow> v\<lparr>vp_out := vp_out v @ [ErrorShown not_json]\<rparr>
   | Inr pkg \<Rightarrow> v\<lparr>vp_out := [verifying], vp_tasks := vp_tasks v @ [pkg]\<rparr>)"

definition judge_proof :: "receipt_env \<Rightarrow> jsval \<Rightarrow> verify_page \<Rightarrow> verify_page" where
  "judge_proof env pkg v =
     (case (case re_verifier env pkg of
              Inl e \<Rightarrow> Inl e
            | Inr result \<Rightarrow> js (mount_check_matrix result (matrix_opts (re_reduce env) 80))) of
        Inl e \<Rightarrow> v\<lparr>vp_out := [ErrorShown (failure_error (re_emsg env) e)]\<rparr>
      | Inr m \<Rightarrow> v\<lparr>vp_out := [MatrixShown m]\<rparr>)"

definition finish_judge :: "receipt_env \<Rightarrow> nat \<Rightarrow> verify_page \<Rightarrow> verify_page" where
  "finish_judge env j v = (if j < length (vp_tasks v)
     then judge_proof env (vp_tasks v ! j) (v\<lparr>vp_tasks := take j (vp_tasks v) @ drop (Suc j) (vp_tasks v)\<rparr>) else v)"

definition toggle_paste :: "verify_page \<Rightarrow> verify_page" where
  "toggle_paste v = (let h = \<not> vp_paste_hidden v in
     v\<lparr>vp_paste_hidden := h, vp_toggle := (if h then ''Paste JSON instead'' else ''Hide paste box'')\<rparr>)"

text \<open>The sample button: the served text goes the same way.\<close>

definition load_sample_proof :: "(jserr \<Rightarrow> string) \<Rightarrow> fetched \<Rightarrow> verify_page \<Rightarrow> verify_page" where
  "load_sample_proof emsg f v = (case f of
     NetFail m \<Rightarrow> v\<lparr>vp_out := vp_out v @ [ErrorShown (failure_error emsg (NetFailure m))]\<rparr>
   | Got r \<Rightarrow> if rs_ok r then submit_proof (rs_text r) v
       else v\<lparr>vp_out := vp_out v @ [ErrorShown (failure_error emsg (JsFail (Thrown ''sample bundle unavailable'')))]\<rparr>)"

text \<open>
  The drop zone: keys that open the picker, the drag highlight, and a drop with the text of
  its first file, if it has one.
\<close>

definition opens_picker :: "string \<Rightarrow> bool" where
  "opens_picker key = (key = ''Enter'' \<or> key = '' '')"

definition drop_file :: "string option \<Rightarrow> verify_page \<Rightarrow> verify_page" where
  "drop_file f v = (let v1 = v\<lparr>vp_over := False\<rparr> in
     case f of None \<Rightarrow> v1 | Some t \<Rightarrow> submit_proof t v1)"

datatype verify_event = ZoneClick | ZoneKey string | DragOver | DragLeave | Drop "string option"
  | Chosen "string option" | Typed string | PasteToggle | VerifyClick | SampleLoaded fetched | Verified nat

fun verify_do :: "receipt_env \<Rightarrow> verify_event \<Rightarrow> verify_page \<Rightarrow> verify_page" where
  "verify_do env ZoneClick v = v\<lparr>vp_picks := vp_picks v + 1\<rparr>"
| "verify_do env (ZoneKey k) v = (if opens_picker k then v\<lparr>vp_picks := vp_picks v + 1\<rparr> else v)"
| "verify_do env DragOver v = v\<lparr>vp_over := True\<rparr>"
| "verify_do env DragLeave v = v\<lparr>vp_over := False\<rparr>"
| "verify_do env (Drop f) v = drop_file f v"
| "verify_do env (Chosen f) v = (case f of None \<Rightarrow> v | Some t \<Rightarrow> submit_proof t v)"
| "verify_do env (Typed t) v = v\<lparr>vp_area := t\<rparr>"
| "verify_do env PasteToggle v = toggle_paste v"
| "verify_do env VerifyClick v = submit_proof (vp_area v) v"
| "verify_do env (SampleLoaded f) v = load_sample_proof (re_emsg env) f v"
| "verify_do env (Verified j) v = finish_judge env j v"

section \<open>The elements of the page\<close>

definition drop_zone :: "bool \<Rightarrow> action dom" where
  "drop_zone over =
     (let dz = on_click PickFile (put_attr ''aria-label'' ''Drop or choose a proof file to verify''
                (put_attr ''role'' ''button'' (put_attr ''tabindex'' ''0'' (elt ''div'' ''pg-dropzone'' ''''))))
      in append_kids (if over then put_attr ''data-over'' ''1'' dz else dz) [
        elt ''div'' ''pg-dropzone-icon'' [CHR 0xE2, CHR 0xAC, CHR 0x87],
        elt ''div'' ''pg-dropzone-title'' ''Drop a .infrix.json proof'',
        elt ''div'' ''pg-note'' (''or click to choose '' @ u_mid @ '' no login '' @ u_mid @ '' verification runs on your machine'')])"

definition file_input :: "action dom" where
  "file_input = put_attr ''hidden'' '''' (put_attr ''accept'' ''.json,application/json''
     (put_attr ''type'' ''file'' (elt ''input'' '''' '''')))"

definition paste_wrap :: "bool \<Rightarrow> action dom" where
  "paste_wrap hidden =
     (let w = elt ''div'' ''pg-paste-wrap'' '''' in
      append_kids (if hidden then put_attr ''hidden'' '''' w else w) [
        put_attr ''placeholder'' (''Paste a *.infrix.json portable evidence package here'' @ u_ellipsis)
          (put_attr ''aria-label'' ''Portable proof bundle JSON'' (elt ''textarea'' ''pg-verify-input'' '''')),
        button ''pg-btn pg-btn-primary'' ''Verify in browser'' VerifyPasted])"

definition verify_dom :: "(jsval \<Rightarrow> action dom list) \<Rightarrow> verify_page \<Rightarrow> action dom list res" where
  "verify_dom ue v = rbind (rmapM (shown_dom ue) (vp_out v)) (\<lambda>shown. Inr [
     append_kids (elt ''section'' ''pg-hero'' '''') [
       elt ''h1'' '''' ''Verify a proof'',
       elt ''p'' '''' (''Drop, choose, or paste a portable proof bundle. Verification runs entirely in your browser '' @
         u_dash @ '' this server is never trusted.'')],
     append_kids (elt ''div'' ''pg-panel'' '''') [
       drop_zone (vp_over v),
       file_input,
       append_kids (elt ''div'' ''pg-verify-row'' '''') [
         button ''pg-btn'' (vp_toggle v) TogglePaste,
         button ''pg-btn'' ''Load the sample'' LoadSample,
         elt ''span'' ''pg-note'' (''No login. No upload to us '' @ u_dash @ '' verification runs entirely on your machine.'')],
       paste_wrap (vp_paste_hidden v),
       append_kids (elt ''div'' ''pg-verify-out'' '''') shown]])"

section \<open>What the page shows\<close>

inductive verify_step :: "receipt_env \<Rightarrow> verify_page \<Rightarrow> verify_page \<Rightarrow> bool" for env :: receipt_env where
  verify_event: "verify_step env v (verify_do env ev v)"

definition verdict_of :: "receipt_env \<Rightarrow> action matrix \<Rightarrow> bool" where
  "verdict_of env m \<longleftrightarrow> (\<exists>txt pkg result. json_parse txt = Inr pkg \<and> re_verifier env pkg = Inr result \<and> matrix_tells result m)"

definition verify_inv :: "receipt_env \<Rightarrow> verify_page \<Rightarrow> bool" where
  "verify_inv env v \<longleftrightarrow> (\<forall>pkg \<in> set (vp_tasks v). \<exists>txt. json_parse txt = Inr pkg) \<and>
     (\<forall>m. MatrixShown m \<in> set (vp_out v) \<longrightarrow> verdict_of env m) \<and>
     (verifying \<in> set (vp_out v) \<longrightarrow> vp_tasks v \<noteq> [])"

lemma submit_inv: "verify_inv env v \<Longrightarrow> verify_inv env (submit_proof txt v)"
  by (auto simp: verify_inv_def submit_proof_def verifying_def split: sum.splits)

lemma judge_inv:
  assumes "json_parse txt = Inr pkg" and "\<forall>p \<in> set (vp_tasks v). \<exists>t. json_parse t = Inr p"
  shows "verify_inv env (judge_proof env pkg v)"
proof (cases "case re_verifier env pkg of Inl e \<Rightarrow> Inl e
    | Inr result \<Rightarrow> js (mount_check_matrix result (matrix_opts (re_reduce env) 80) :: action matrix res)")
  case (Inl e)
  then show ?thesis using assms(2) by (simp add: judge_proof_def verify_inv_def verifying_def)
next
  case (Inr m)
  then obtain result where r: "re_verifier env pkg = Inr result"
    "mount_check_matrix result (matrix_opts (re_reduce env) 80) = Inr m"
    by (auto simp: js_def split: sum.splits)
  have "verdict_of env m" using assms(1) r(1) mount_tells [OF r(2)] by (auto simp: verdict_of_def)
  with Inr assms(2) show ?thesis by (simp add: judge_proof_def verify_inv_def verifying_def)
qed

lemma finish_judge_inv: "verify_inv env v \<Longrightarrow> verify_inv env (finish_judge env j v)"
proof (cases "j < length (vp_tasks v)")
  case True
  assume inv: "verify_inv env v"
  with True obtain t where "json_parse t = Inr (vp_tasks v ! j)"
    unfolding verify_inv_def using nth_mem by blast
  moreover have "\<forall>p \<in> set (take j (vp_tasks v) @ drop (Suc j) (vp_tasks v)). \<exists>t. json_parse t = Inr p"
    using inv by (auto simp: verify_inv_def dest: in_set_takeD in_set_dropD)
  ultimately show ?thesis using True by (simp add: finish_judge_def judge_inv)
qed (simp add: finish_judge_def)

lemma verify_inv_keep: "vp_out v' = vp_out v \<Longrightarrow> vp_tasks v' = vp_tasks v \<Longrightarrow> verify_inv env v \<Longrightarrow> verify_inv env v'"
  by (simp add: verify_inv_def)

lemma sample_inv: "verify_inv env v \<Longrightarrow> verify_inv env (load_sample_proof emsg f v)"
  by (auto simp: load_sample_proof_def submit_inv split: fetched.splits) (auto simp: verify_inv_def verifying_def)

lemma verify_do_inv: "verify_inv env v \<Longrightarrow> verify_inv env (verify_do env ev v)"
proof (cases ev)
  case (Drop f)
  assume "verify_inv env v"
  then have "verify_inv env (v\<lparr>vp_over := False\<rparr>)" by (simp add: verify_inv_def)
  with Drop show ?thesis by (auto simp: drop_file_def Let_def submit_inv split: option.splits)
qed (auto simp: submit_inv sample_inv finish_judge_inv toggle_paste_def Let_def intro: verify_inv_keep split: option.splits)

inductive_simps verify_step_iff: "verify_step env v v'"

interpretation verify: invariant_system "{open_verify}" "verify_step env" "verify_inv env" for env
proof (unfold_locales, goal_cases)
  case (1 s)
  then show ?case by (simp add: verify_inv_def open_verify_def)
next
  case (2 s t)
  then show ?case by (auto simp: verify_step_iff intro: verify_do_inv)
qed

text \<open>C10: In every reachable state of the verify page a shown matrix is the verdict of the verifier
on the parse of some text, and a loading line is only shown while a verification is pending.\<close>

theorem verify_page_shows_only_verdicts:
  assumes "reach {open_verify} (verify_step env) v"
  shows "(\<forall>m. MatrixShown m \<in> set (vp_out v) \<longrightarrow>
      (\<exists>txt pkg result. json_parse txt = Inr pkg \<and> re_verifier env pkg = Inr result \<and> matrix_tells result m)) \<and>
    (verifying \<in> set (vp_out v) \<longrightarrow> vp_tasks v \<noteq> [])"
  using verify.inv_reach [OF assms] by (simp add: verify_inv_def verdict_of_def)

text \<open>The ways a text gets to the verifier.\<close>

definition verify_run :: "receipt_env \<Rightarrow> verify_event list \<Rightarrow> verify_page \<Rightarrow> verify_page" where
  "verify_run env evs v = fold (verify_do env) evs v"

definition doors :: "string \<Rightarrow> verify_event list list" where
  "doors t = [[Drop (Some t)], [Chosen (Some t)], [Typed t, VerifyClick],
     [SampleLoaded (Got \<lparr>rs_ok = True, rs_status = 200, rs_json = None, rs_text = t\<rparr>)]]"

lemma door_submits:
  assumes "json_parse t = Inr pkg" and "evs \<in> set (doors t)"
  shows "vp_out (verify_run env evs v) = [verifying] \<and> vp_tasks (verify_run env evs v) = vp_tasks v @ [pkg]"
  using assms by (auto simp: doors_def verify_run_def drop_file_def submit_proof_def load_sample_proof_def Let_def)

lemma judge_appended: "vp_tasks v = ts @ [pkg] \<Longrightarrow>
    finish_judge env (length ts) v = judge_proof env pkg (v\<lparr>vp_tasks := ts\<rparr>)"
  by (simp add: finish_judge_def nth_append)

lemma door_judged:
  assumes "json_data pkg" and "evs \<in> set (doors (json_text pkg))" and "re_verifier env pkg = Inr result"
    and "mount_check_matrix result (matrix_opts (re_reduce env) 80) = Inr m"
  shows "vp_out (verify_run env (evs @ [Verified (length (vp_tasks v))]) v) = [MatrixShown m] \<and> matrix_tells result m"
proof -
  have d: "vp_tasks (verify_run env evs v) = vp_tasks v @ [pkg]"
    using door_submits [OF json_parse_text [OF assms(1)] assms(2)] by blast
  have "verify_run env (evs @ [Verified (length (vp_tasks v))]) v =
      finish_judge env (length (vp_tasks v)) (verify_run env evs v)" by (simp add: verify_run_def)
  also have "\<dots> = judge_proof env pkg ((verify_run env evs v)\<lparr>vp_tasks := vp_tasks v\<rparr>)" by (rule judge_appended [OF d])
  finally show ?thesis using assms(3,4) mount_tells [OF assms(4)] by (simp add: judge_proof_def js_def)
qed

text \<open>C11: Every door of the verify page - drop, choose, paste, sample - leads the printed form of a
package to the verifier, and the page then shows the matrix of its verdict on exactly that
package.\<close>

theorem every_door_is_judged:
  assumes "json_data pkg" and "evs \<in> set (doors (json_text pkg))" and "re_verifier env pkg = Inr result"
    and "mount_check_matrix result (matrix_opts (re_reduce env) 80) = Inr m"
  shows "vp_out (verify_run env (evs @ [Verified (length (vp_tasks v))]) v) = [MatrixShown m] \<and> matrix_tells result m"
  using assms by (rule door_judged)

theorem invalid_json_keeps_verdict:
  assumes "json_parse txt = Inl e" and "vp_out v = [MatrixShown m]"
  shows "vp_out (submit_proof txt v) = [MatrixShown m, ErrorShown not_json]"
  using assms by (simp add: submit_proof_def)

theorem older_proof_overwrites_newer:
  assumes "json_data old" and "json_data new" and "vp_tasks v = []"
    and "re_verifier env old = Inr result" and "mount_check_matrix result (matrix_opts (re_reduce env) 80) = Inr m"
  shows "vp_out (finish_judge env 0 (finish_judge env 1 (submit_proof (json_text new) (submit_proof (json_text old) v)))) =
    [MatrixShown m]"
  using assms
  by (simp add: submit_proof_def json_parse_text finish_judge_def judge_proof_def js_def split: sum.splits)

section \<open>A pasted proof\<close>

theorem verify_page_shows_only_verdicts_witness:
  "\<exists>v. reach {open_verify} (verify_step sample_receipt_env) v \<and> verifying \<in> set (vp_out v) \<and> vp_tasks v \<noteq> []"
proof -
  let ?v = "verify_do sample_receipt_env (Drop (Some (json_text toy_clean))) open_verify"
  have r: "reach {open_verify} (verify_step sample_receipt_env) ?v"
    by (rule reach_step [of "{open_verify}" "verify_step sample_receipt_env" open_verify, OF reach_init verify_step.verify_event]) simp
  have "verifying \<in> set (vp_out ?v)"
    by (simp add: drop_file_def submit_proof_def json_parse_text [OF toy_clean_data] Let_def)
  with verify_page_shows_only_verdicts [OF r] r show ?thesis by blast
qed

theorem every_door_is_judged_witness:
  "\<exists>m. vp_out (verify_run sample_receipt_env [Typed (json_text toy_clean), VerifyClick, Verified 0] open_verify) = [MatrixShown m] \<and>
     matrix_tells (toy_verdict True) m"
proof -
  obtain m :: "action matrix" where m: "mount_check_matrix (toy_verdict True) (matrix_opts (re_reduce sample_receipt_env) 80) = Inr m"
    using toy_mount by blast
  have "[Typed (json_text toy_clean), VerifyClick] \<in> set (doors (json_text toy_clean))" by (simp add: doors_def)
  from every_door_is_judged [of toy_clean _ sample_receipt_env, OF toy_clean_data this _ m, of open_verify] show ?thesis
    by (auto simp: sample_verifier open_verify_def)
qed

theorem invalid_json_keeps_verdict_witness:
  "vp_out (submit_proof ''{'' (open_verify\<lparr>vp_out := [MatrixShown m]\<rparr>)) = [MatrixShown m, ErrorShown not_json]"
  by (rule invalid_json_keeps_verdict [of _ SyntaxErr]) (code_simp, simp)

theorem older_proof_overwrites_newer_witness:
  "\<exists>m. vp_out (finish_judge sample_receipt_env 0 (finish_judge sample_receipt_env 1
     (submit_proof (json_text JNull) (submit_proof (json_text toy_clean) open_verify)))) = [MatrixShown m]"
proof -
  obtain m :: "action matrix" where "mount_check_matrix (toy_verdict True) (matrix_opts (re_reduce sample_receipt_env) 80) = Inr m"
    using toy_mount by blast
  from older_proof_overwrites_newer [of toy_clean JNull open_verify sample_receipt_env, OF toy_clean_data _ _ _ this] show ?thesis
    by (auto simp: sample_verifier open_verify_def)
qed


end
