(* ===== verification/StatusPage.thy ===== *)
theory StatusPage
  imports Receipt
begin

text \<open>
  The capabilities page of \<open>web/playground.js\<close> (\<open>renderStatus\<close>): one row per capability of
  the readiness answer, or the error of the request.
\<close>

definition cap_row :: "bool \<Rightarrow> string \<Rightarrow> string \<Rightarrow> 'h dom" where
  "cap_row on title desc = append_kids (put_attr ''data-on'' (if on then ''1'' else ''0'') (elt ''div'' ''pg-cap'' ''''))
     [elt ''span'' ''pg-cap-dot'' '''',
      append_kids (elt ''div'' '''' '''') [elt ''div'' ''pg-cap-title'' title, elt ''div'' ''pg-cap-desc'' desc]]"

definition status_rows :: "jsval \<Rightarrow> 'h dom list res" where
  "status_rows r =
     rbind (get_prop r ''anonymous'') (\<lambda>a. rbind (get_prop r ''kermit'') (\<lambda>k.
     rbind (get_prop r ''verifier'') (\<lambda>v. rbind (get_prop r ''fixture'') (\<lambda>f.
     Inr [cap_row (truthy a) ''Run a demo'' (''Yes '' @ u_dash @ '' right now, no wallet, no funding.''),
          cap_row (truthy k) ''Live testnet (Kermit)'' (if truthy k then ''Enabled on this instance '' @ u_dash @ '' can reach L4.''
            else ''Off on this instance; the demo runs the same flow deterministically.''),
          cap_row (truthy v) ''Verify your own proof'' (''Yes '' @ u_dash @ '' entirely in your browser, no node trusted.''),
          cap_row (truthy f) ''Sample proof'' (if truthy f then ''Ready to load in Verify and the Tamper Lab.''
            else ''Unavailable on this instance.''),
          cap_row True ''Mainnet writes'' (''Never. This playground can'' @ u_apos @ ''t touch real funds.'')]))))"

definition status_panel :: "(jsval \<Rightarrow> 'h dom list) \<Rightarrow> (jserr \<Rightarrow> string) \<Rightarrow> fetched \<Rightarrow> 'h dom list res" where
  "status_panel ue emsg f =
     (case rbind (api ''/api/readiness'' f) (\<lambda>r. js (status_rows r)) of
        Inl e \<Rightarrow> rbind (show_error ue (failure_error emsg e)) (\<lambda>b. Inr [b])
      | Inr rows \<Rightarrow> Inr rows)"

definition render_status :: "(jsval \<Rightarrow> 'h dom list) \<Rightarrow> (jserr \<Rightarrow> string) \<Rightarrow> fetched \<Rightarrow> 'h dom list res" where
  "render_status ue emsg f = rbind (status_panel ue emsg f) (\<lambda>body. Inr [
     append_kids (elt ''section'' ''pg-hero'' '''') [
       elt ''h1'' '''' ''What this playground can do'',
       elt ''p'' '''' (''Right here, right now '' @ u_dash @ '' no install, no account.'')],
     append_kids (elt ''div'' ''pg-panel'' '''') body])"

section \<open>The rows follow the answer\<close>

lemma cap_row_shows: "attr (cap_row on title desc) ''data-on'' = Some (if on then ''1'' else ''0'')"
  "having ''pg-cap-title'' (cap_row on title desc) = [elt ''div'' ''pg-cap-title'' title]"
  by (simp_all add: cap_row_def having_append having_unfold)

text \<open>C28: The capabilities page shows its five rows in order, each on or off as the readiness answer
says, and the refusal of mainnet writes always on.\<close>

theorem capabilities_follow_readiness:
  assumes "status_panel ue emsg (Got r) = Inr rows" and "rs_ok r" and "rs_json r = Some (JObj kvs)"
  shows "map (\<lambda>row. attr row ''data-on'') rows =
      map (\<lambda>b. Some (if b then ''1'' else ''0''))
        (map (\<lambda>k. truthy (obj_get kvs k)) [''anonymous'', ''kermit'', ''verifier'', ''fixture''] @ [True]) \<and>
    concat (map (having ''pg-cap-title'') rows) = map (elt ''div'' ''pg-cap-title'')
      [''Run a demo'', ''Live testnet (Kermit)'', ''Verify your own proof'', ''Sample proof'', ''Mainnet writes'']"
  using assms by (auto simp: status_panel_def api_def js_def status_rows_def cap_row_shows)

lemma show_error_box: "show_error ue e = Inr b \<Longrightarrow> d_cls b = ''pg-error''"
  by (auto simp: show_error_def rbind_eq_Inr split: if_splits)

text \<open>A readiness answer without a body, or a failing request, leaves an error box.\<close>

theorem readiness_failure_shown:
  assumes "f = NetFail msg \<or> (\<exists>r. f = Got r \<and> rs_ok r \<and> rs_json r = None)"
    and "render_status ue emsg f = Inr ds"
  shows "\<exists>hero (box :: 'a dom). ds = [hero, append_kids (elt ''div'' ''pg-panel'' '''') [box]] \<and> d_cls box = ''pg-error''"
proof -
  have "\<exists>e. rbind (api ''/api/readiness'' f) (\<lambda>r. js (status_rows r :: 'a dom list res)) = Inl e"
    using assms(1) by (auto simp: api_def js_def status_rows_def)
  then obtain e box where "show_error ue (failure_error emsg e) = Inr box" "status_panel ue emsg f = Inr [box]"
    using assms(2) by (auto simp: render_status_def status_panel_def rbind_eq_Inr)
  with assms(2) show ?thesis by (auto simp: render_status_def dest: show_error_box)
qed

theorem capabilities_follow_readiness_witness:
  "\<exists>rows :: action dom list. status_panel (\<lambda>_. []) (\<lambda>_. '''') (ok_reply (JObj [(''anonymous'', JBool True)])) = Inr rows \<and>
     map (\<lambda>row. attr row ''data-on'') rows = [Some ''1'', Some ''0'', Some ''0'', Some ''0'', Some ''1'']"
proof -
  obtain rows :: "action dom list" where r: "status_panel (\<lambda>_. []) (\<lambda>_. '''')
      (Got \<lparr>rs_ok = True, rs_status = 200, rs_json = Some (JObj [(''anonymous'', JBool True)]),
        rs_text = json_text (JObj [(''anonymous'', JBool True)])\<rparr>) = Inr rows"
    by (simp add: status_panel_def api_def js_def status_rows_def obj_get_simps)
  from capabilities_follow_readiness [OF r, of "[(''anonymous'', JBool True)]"] r show ?thesis
    by (simp add: ok_reply_def obj_get_simps proto_member_def proto_methods_def)
qed

theorem readiness_failure_shown_witness:
  "\<exists>ds :: action dom list. render_status (\<lambda>_. []) (\<lambda>_. ''error'') (NetFail ''offline'') = Inr ds \<and> length ds = 2"
proof -
  obtain ds :: "action dom list" where ds: "render_status (\<lambda>_. []) (\<lambda>_. ''error'') (NetFail ''offline'') = Inr ds"
    by (simp add: render_status_def status_panel_def api_def show_error_def js_or_def)
  from readiness_failure_shown [OF _ ds] ds show ?thesis by auto
qed

end
