(* ===== verification/Wallet.thy ===== *)
theory Wallet
  imports Receipt
begin

text \<open>
  MetaMask signing of \<open>web/playground.js\<close> (\<open>renderMetaMask\<close>, \<open>sampleTypedData\<close>). The
  wallet is outside the repository: its answers to the two requests are arguments, a value or
  the error it rejects with.
\<close>

section \<open>The typed data\<close>

definition field_type :: "string \<Rightarrow> jsval" where
  "field_type n = JObj [(''name'', JStr n), (''type'', JStr ''string'')]"

definition sampleTypedData :: jsval where
  "sampleTypedData = JObj [
     (''types'', JObj [
        (''EIP712Domain'', JArr [field_type ''name'', field_type ''version'']),
        (''InfrixIntent'', JArr [field_type ''goalType'', field_type ''signer'', field_type ''nonce''])]),
     (''primaryType'', JStr ''InfrixIntent''),
     (''domain'', JObj [(''name'', JStr ''Infrix''), (''version'', JStr ''1'')]),
     (''message'', JObj [(''goalType'', JStr ''TOKEN_TRANSFER''), (''signer'', JStr ''acc://playground.acme/book/1''),
        (''nonce'', JStr ''playground-demo'')])]"

definition missing_provider :: jsval where
  "missing_provider = JObj [
     (''code'', JStr ''METAMASK_PROVIDER_MISSING''),
     (''title'', JStr ''No MetaMask provider was found''),
     (''message'', JStr ''Install or unlock MetaMask to try typed-data signing.''),
     (''impact'', JStr ''The SDK cannot request a signature without a wallet provider.''),
     (''fixes'', JArr [JObj [(''label'', JStr ''Install/unlock MetaMask, then reload''), (''safeToRun'', JBool False)]]),
     (''docs'', JStr ''docs/errors/metamask.md'')]"

section \<open>Signing\<close>

text \<open>The user error shown for the value a rejected request or an exception carries.\<close>

definition wallet_error :: "jsval \<Rightarrow> jsval res" where
  "wallet_error e =
     rbind (if truthy e then get_prop e ''code'' else Inr e) (\<lambda>c.
     rbind (if truthy e then get_prop e ''message'' else Inr e) (\<lambda>m.
     let rejected = (truthy e \<and> c = jint 4001) in
     Inr (JObj [
       (''code'', JStr (if rejected then ''METAMASK_USER_REJECTED'' else ''METAMASK_PUBLIC_KEY_RECOVERY_FAILED'')),
       (''title'', JStr (if rejected then ''The signature was rejected in MetaMask'' else ''Signing failed'')),
       (''message'', js_or m (JStr ''Signing did not complete.'')),
       (''fixes'', JArr [JObj [(''label'', JStr ''Re-run and approve the MetaMask prompt''), (''safeToRun'', JBool False)]]),
       (''docs'', JStr ''docs/errors/metamask.md''),
       (''retryable'', JBool True)])))"

definition sign_params :: "jsval \<Rightarrow> jsval" where
  "sign_params from = JArr [from, json_stringify sampleTypedData]"

definition signed_rows :: "jsval \<Rightarrow> jsval \<Rightarrow> 'h dom list res" where
  "signed_rows from sig =
     rbind (el ''dd'' '''' from) (\<lambda>d1. rbind (el ''dd'' '''' sig) (\<lambda>d2.
     Inr [elt ''dt'' '''' ''Account'', d1, elt ''dt'' '''' ''Signature'', d2]))"

datatype wallet_out = Blank | Awaiting | Signed "action dom list" | Refused jsval

text \<open>
  The answers to a click: \<open>accounts\<close> is the wallet's answer to \<open>eth_requestAccounts\<close> and
  \<open>sign\<close> its answer to the parameters of \<open>eth_signTypedData_v4\<close>. \<open>thrown\<close> is the value of
  an exception.
\<close>

definition refused :: "jsval \<Rightarrow> wallet_out res" where
  "refused e = rbind (wallet_error e) (\<lambda>u. Inr (Refused u))"

definition sign_answer :: "(jserr \<Rightarrow> jsval) \<Rightarrow> jsval + jsval \<Rightarrow> (jsval \<Rightarrow> jsval + jsval) \<Rightarrow> wallet_out res" where
  "sign_answer thrown accounts sign = (case accounts of
     Inl e \<Rightarrow> refused e
   | Inr acc \<Rightarrow>
      (case (if truthy acc then index0 acc else Inr acc) of
         Inl e \<Rightarrow> refused (thrown e)
       | Inr from \<Rightarrow>
          (case sign (sign_params from) of
             Inl e \<Rightarrow> refused e
           | Inr sig \<Rightarrow>
              (case signed_rows from sig of
                 Inl e \<Rightarrow> refused (thrown e)
               | Inr rows \<Rightarrow> Inr (Signed rows)))))"

section \<open>The page\<close>

definition wallet_out_dom :: "(jsval \<Rightarrow> action dom list) \<Rightarrow> wallet_out \<Rightarrow> action dom list" where
  "wallet_out_dom ue w = (case w of
     Blank \<Rightarrow> []
   | Awaiting \<Rightarrow> [elt ''div'' ''pg-loading'' (''Awaiting MetaMask'' @ u_ellipsis)]
   | Signed rows \<Rightarrow> [elt ''div'' ''pg-meta'' ''Signed. In a real flow this signature is verified against your Accumulate key page before the intent is admitted.'',
       append_kids (elt ''dl'' ''pg-kv'' '''') rows]
   | Refused u \<Rightarrow> [append_kids (elt ''div'' ''pg-error'' '''') (ue u)])"

definition metamask_dom :: "(jsval \<Rightarrow> action dom list) \<Rightarrow> bool \<Rightarrow> wallet_out \<Rightarrow> action dom list" where
  "metamask_dom ue provider w = [
     append_kids (elt ''section'' ''pg-hero'' '''') [
       elt ''h1'' '''' ''MetaMask typed-data signing'',
       elt ''p'' '''' ''Infrix admits intents signed via MetaMask EIP-712 typed data, bound to an Accumulate key page. Try a signing smoke test here.''],
     append_kids (elt ''div'' ''pg-panel'' '''')
       (if provider then
          [button ''pg-btn pg-btn-primary'' ''Connect & sign sample typed data'' SignSample,
           append_kids (elt ''div'' '''' '''') (wallet_out_dom ue w)]
        else
          [append_kids (elt ''div'' ''pg-error'' '''') (ue missing_provider),
           elt ''div'' ''pg-note'' ''The full MetaMask escrow example lives at examples/metamask-golden-escrow.''])]"

section \<open>What a click ends in\<close>

lemma truthy_get: "truthy e \<Longrightarrow> \<exists>v. get_prop e k = Inr v"
  by (cases e) simp_all

lemma wallet_error_total: "\<exists>u. wallet_error e = Inr u \<and>
    get_prop u ''code'' = Inr (JStr (if truthy e \<and> get_prop e ''code'' = Inr (jint 4001)
      then ''METAMASK_USER_REJECTED'' else ''METAMASK_PUBLIC_KEY_RECOVERY_FAILED''))"
  using truthy_get [of e "''code''"] truthy_get [of e "''message''"]
  by (cases "truthy e") (auto simp: wallet_error_def Let_def obj_get_simps)

lemma sample_typed_data: "json_data sampleTypedData" "\<not> absent sampleTypedData"
  by (simp_all add: sampleTypedData_def field_type_def)

theorem wallet_signs_the_sample_intent:
  assumes "sign (sign_params (JStr a)) = Inr (JStr sig)" and "accounts = a # as"
  shows "(\<exists>txt. sign_params (JStr a) = JArr [JStr a, JStr txt] \<and> json_parse txt = Inr sampleTypedData) \<and>
    sign_answer thrown (Inr (JArr (map JStr accounts))) sign =
      Inr (Signed [elt ''dt'' '''' ''Account'', elt ''dd'' '''' a, elt ''dt'' '''' ''Signature'', elt ''dd'' '''' sig])"
  using assms sample_typed_data
  by (simp add: sign_params_def sign_answer_def signed_rows_def json_parse_text json_stringify_def)

text \<open>The error that names the value \<open>e\<close> a request was rejected with, and what a value shows as.\<close>

definition names_failure :: "jsval \<Rightarrow> wallet_out res \<Rightarrow> bool" where
  "names_failure e r \<longleftrightarrow> (\<exists>u. r = Inr (Refused u) \<and>
     get_prop u ''code'' = Inr (JStr (if truthy e \<and> get_prop e ''code'' = Inr (jint 4001)
       then ''METAMASK_USER_REJECTED'' else ''METAMASK_PUBLIC_KEY_RECOVERY_FAILED'')) \<and>
     get_prop u ''message'' = (if \<exists>m. truthy e \<and> get_prop e ''message'' = Inr m \<and> truthy m
       then get_prop e ''message'' else Inr (JStr ''Signing did not complete.'')))"

definition shown_text :: "jsval \<Rightarrow> string res" where
  "shown_text v = (if nullish v then Inr '''' else to_str v)"

definition shown_rows :: "string \<Rightarrow> string \<Rightarrow> action dom list" where
  "shown_rows a s = [elt ''dt'' '''' ''Account'', elt ''dd'' '''' a, elt ''dt'' '''' ''Signature'', elt ''dd'' '''' s]"

definition first_account :: "jsval \<Rightarrow> jsval" where
  "first_account acc = (if truthy acc then case index0 acc of Inr x \<Rightarrow> x | Inl _ \<Rightarrow> JUndef else acc)"

lemma refused_names: "names_failure e (refused e)"
  using truthy_get [of e "''code''"] truthy_get [of e "''message''"]
  by (cases "truthy e") (auto simp: names_failure_def refused_def wallet_error_def Let_def obj_get_simps js_or_def)

lemma first_account_index: "(if truthy acc then index0 acc else Inr acc) = Inr (first_account acc)"
  by (cases acc) (simp_all add: first_account_def split: list.split option.split)

lemma signed_rows_shown: "signed_rows from sig = rbind (shown_text from) (\<lambda>a. rbind (shown_text sig) (\<lambda>s. Inr (shown_rows a s)))"
  by (simp add: signed_rows_def shown_text_def el_def shown_rows_def rbind_assoc)

text \<open>C29: Whatever the wallet answers to the two requests, a click on the sign button ends in the
rows showing that account and that signature, or in the error for the value that was thrown:
METAMASK_USER_REJECTED exactly for the code 4001, METAMASK_PUBLIC_KEY_RECOVERY_FAILED otherwise,
with the message of the value or the default one.\<close>

theorem signing_always_ends:
  "case accounts of
     Inl e \<Rightarrow> names_failure e (sign_answer thrown accounts sign)
   | Inr acc \<Rightarrow>
      (case sign (JArr [first_account acc, JStr (json_text sampleTypedData)]) of
         Inl e \<Rightarrow> names_failure e (sign_answer thrown accounts sign)
       | Inr sig \<Rightarrow>
          (case (shown_text (first_account acc), shown_text sig) of
             (Inr a, Inr s) \<Rightarrow> sign_answer thrown accounts sign = Inr (Signed (shown_rows a s))
           | (Inl x, _) \<Rightarrow> names_failure (thrown x) (sign_answer thrown accounts sign)
           | (Inr _, Inl x) \<Rightarrow> names_failure (thrown x) (sign_answer thrown accounts sign)))"
proof (cases accounts)
  case (Inl e)
  then show ?thesis by (simp add: sign_answer_def refused_names)
next
  case (Inr acc)
  have p: "sign_params (first_account acc) = JArr [first_account acc, JStr (json_text sampleTypedData)]"
    using sample_typed_data by (simp add: sign_params_def json_stringify_def)
  show ?thesis
    by (cases "sign (sign_params (first_account acc))"; cases "shown_text (first_account acc)")
      (auto simp: Inr sign_answer_def first_account_index p [symmetric] signed_rows_shown refused_names split: sum.split)
qed

theorem refused_signature_named:
  assumes "accounts = Inl (JObj kvs) \<or> (accounts = Inr (JArr [from]) \<and> sign (sign_params from) = Inl (JObj kvs))"
  shows "\<exists>u. sign_answer thrown accounts sign = Inr (Refused u) \<and>
    get_prop u ''code'' = Inr (JStr (if obj_get kvs ''code'' = jint 4001 then ''METAMASK_USER_REJECTED''
      else ''METAMASK_PUBLIC_KEY_RECOVERY_FAILED''))"
  using assms wallet_error_total [of "JObj kvs"] by (auto simp: sign_answer_def refused_def)

theorem wallet_signs_the_sample_intent_witness:
  "\<exists>t. json_parse t = Inr sampleTypedData \<and> sign_params (JStr ''0xabc'') = JArr [JStr ''0xabc'', JStr t]"
  using wallet_signs_the_sample_intent [of "\<lambda>_. Inr (JStr ''0xsig'')" "''0xabc''" "''0xsig''" "[''0xabc'']" "[]"] by auto

theorem refused_signature_named_witness:
  "\<exists>u. sign_answer (\<lambda>_. JNull) (Inl (JObj [(''code'', jint 4001)])) Inr = Inr (Refused u) \<and>
     get_prop u ''code'' = Inr (JStr ''METAMASK_USER_REJECTED'')"
  using refused_signature_named [of "Inl (JObj [(''code'', jint 4001)])" "[(''code'', jint 4001)]"]
  by (simp add: obj_get_simps)

end
