(* ===== verification/RunPage.thy ===== *)
theory RunPage
  imports App
begin

text \<open>
  The page of a run in \<open>web/playground.js\<close>: what \<open>startRun\<close> shows before the node has
  answered, the request it sends, what it does with the answer, and the elements of the spine
  (\<open>mountSpine\<close>) and of the stage card; and the ambient spine of the landing page. The loop
  itself is in \<open>RunTheater\<close>.
\<close>

section \<open>The elements of a spine and of the card\<close>

text \<open>The style property \<open>--node-color\<close> is kept as an attribute of that name.\<close>

definition spine_node_dom :: "spine_node \<Rightarrow> action dom" where
  "spine_node_dom n = append_kids
     (put_attr ''--node-color'' (n_color n) (put_attr ''data-key'' (n_key n) (put_attr ''data-state'' (n_state n)
       (put_attr ''role'' ''listitem'' (elt ''div'' ''pg-spine-node'' '''')))))
     [elt ''span'' ''pg-spine-dot'' '''', elt ''span'' ''pg-spine-label'' (n_label n), elt ''code'' ''pg-spine-hash'' (n_hash n)]"

definition spine_dom :: "spine \<Rightarrow> action dom" where
  "spine_dom sp = append_kids
     (put_attr ''role'' ''list'' (elt ''div'' (''pg-spine'' @ (if sp_sealing sp then '' pg-spine-sealing'' else '''') @
        (if sp_sealed sp then '' pg-spine-sealed'' else '''')) ''''))
     (map spine_node_dom (sp_nodes sp))"

definition card_dom :: "string \<Rightarrow> string \<Rightarrow> card \<Rightarrow> action dom list" where
  "card_dom mode flow c = (case c of
     StageCard title hash desc \<Rightarrow>
       [elt ''div'' ''pg-stage-title'' title, elt ''code'' ''pg-stage-hash'' hash, elt ''div'' ''pg-stage-desc'' desc]
   | FailNote m \<Rightarrow>
       [append_kids (elt ''div'' ''pg-run-failnote'' '''') [
          elt ''div'' ''pg-action-title'' ''The run did not complete'',
          elt ''div'' ''pg-note'' m,
          button ''pg-btn pg-btn-primary'' ''Try again'' (StartRun mode flow)]])"

section \<open>Starting a run\<close>

definition run_flow :: "string \<Rightarrow> string \<Rightarrow> string" where
  "run_flow flow selected = (if flow \<noteq> '''' then flow else if selected \<noteq> '''' then selected else ''golden-escrow'')"

definition run_head :: "string \<Rightarrow> string \<Rightarrow> action dom res" where
  "run_head mode flow = rbind (flow_field flow ''tagline'') (\<lambda>tl.
     rbind (el ''p'' '''' (if mode = ''kermit''
       then JStr (''Live against the Kermit testnet '' @ u_dash @ '' each stage hash-linked to the last.'') else tl)) (\<lambda>p.
     Inr (append_kids (elt ''section'' ''pg-hero'' '''') [
       elt ''p'' ''pg-eyebrow'' (if mode = ''kermit'' then ''KERMIT SANDBOX '' @ u_mid @ '' LIVE TESTNET''
         else ''ANONYMOUS DEMO '' @ u_mid @ '' FIXTURE-BACKED''),
       elt ''h1'' '''' ''Building a tamper-evident proof'', p])))"

text \<open>The page; before the answer the spine host and the card are empty.\<close>

definition run_page_dom :: "string \<Rightarrow> string \<Rightarrow> view option \<Rightarrow> action dom list res" where
  "run_page_dom mode flow v = rbind (run_head mode flow) (\<lambda>head. Inr [head,
     append_kids (elt ''div'' ''pg-panel'' '''') [
       append_kids (elt ''div'' ''pg-spine-host'' '''') (case v of None \<Rightarrow> [] | Some w \<Rightarrow> [spine_dom (v_spine w)]),
       append_kids (elt ''div'' ''pg-stage-card'' '''') (case v of None \<Rightarrow> [] | Some w \<Rightarrow> card_dom mode flow (v_card w))]])"

text \<open>The body of the request, and the URL of the run's event stream.\<close>

definition run_request :: "string \<Rightarrow> string \<Rightarrow> jsval" where
  "run_request mode flow = json_stringify (JObj [(''mode'', JStr mode), (''flow'', JStr flow)])"

definition events_url :: "jsval \<Rightarrow> string res" where
  "events_url started = rbind (get_prop started ''id'') (\<lambda>i. rbind (to_str i) (\<lambda>s.
     Inr (''/api/runs/'' @ encode_uri s @ ''/events'')))"

record started =
  st_url :: string
  st_env :: run_env
  st_theater :: theater
  st_cache :: color_cache

text \<open>The answer of the node: an error shown on the page, or the loop and its event source.\<close>

definition answer_run ::
  "(jserr \<Rightarrow> string) \<Rightarrow> css \<Rightarrow> string option \<Rightarrow> bool \<Rightarrow> bool \<Rightarrow> color_cache \<Rightarrow> string \<Rightarrow> fetched \<Rightarrow> (shown_error + started) res" where
  "answer_run emsg css theme reduce anim cache mode reply = (case api ''/api/runs'' reply of
     Inl e \<Rightarrow> Inr (Inl (failure_error emsg e))
   | Inr ans \<Rightarrow>
      rbind (start_run css theme (mode = ''kermit'') reduce anim ans cache) (\<lambda>(env, t, cache1).
      rbind (events_url ans) (\<lambda>url.
      Inr (Inr \<lparr>st_url = url, st_env = env, st_theater = t, st_cache = cache1\<rparr>))))"

section \<open>The ambient spine of the landing page\<close>

definition ambient_keys :: "string list" where
  "ambient_keys = map (\<lambda>s. case get_prop s ''key'' of Inr (JStr k) \<Rightarrow> k | _ \<Rightarrow> '''') skeletonSteps"

fun ambient_steps :: "css \<Rightarrow> string option \<Rightarrow> string list \<Rightarrow> color_cache \<Rightarrow> spine_step list \<times> color_cache" where
  "ambient_steps css theme [] cache = ([], cache)"
| "ambient_steps css theme (k # ks) cache =
     (let (c, cache1) = stage_color css theme k cache; (rest, cache2) = ambient_steps css theme ks cache1 in
      (\<lparr>s_key = JStr k, s_label = js_or (obj_get RUN_SHORT_LABEL k) (JStr k), s_color = JStr c\<rparr> # rest, cache2))"

text \<open>
  The statements of \<open>renderHome\<close> that place the spine, in the order of the code: the host goes
  into the hero, \<open>mountSpine\<close> puts the spine into the host, the animation is started, and the hero
  goes into \<open>app\<close>, the one of these elements the shell has in the document.
\<close>

datatype home_stmt = Attach string string | StartAmbient

definition home_stmts :: "home_stmt list" where
  "home_stmts = [Attach ''spineHost'' ''hero'', Attach ''spine'' ''spineHost'', StartAmbient, Attach ''hero'' ''app'']"

text \<open>\<open>isConnected\<close>: the parents lead to the document; as many steps as there are elements are enough.\<close>

fun in_document :: "nat \<Rightarrow> (string \<times> string) list \<Rightarrow> string \<Rightarrow> bool" where
  "in_document n parents e = (e = ''app'' \<or> (case n of 0 \<Rightarrow> False
     | Suc m \<Rightarrow> (case map_of parents e of None \<Rightarrow> False | Some p \<Rightarrow> in_document m parents p)))"

definition connected :: "(string \<times> string) list \<Rightarrow> string \<Rightarrow> bool" where
  "connected parents e = in_document (length parents) parents e"

fun run_home :: "spine \<Rightarrow> bool \<Rightarrow> home_stmt list \<Rightarrow> (string \<times> string) list \<Rightarrow> ambient option \<Rightarrow>
    ((string \<times> string) list \<times> ambient option) res" where
  "run_home sp reduce [] parents m = Inr (parents, m)"
| "run_home sp reduce (Attach c p # ss) parents m = run_home sp reduce ss (AList.update c p parents) m"
| "run_home sp reduce (StartAmbient # ss) parents m =
     rbind (run_ambient sp ambient_keys reduce (connected parents ''spine'')) (\<lambda>m1. run_home sp reduce ss parents (Some m1))"

definition mount_ambient ::
  "css \<Rightarrow> string option \<Rightarrow> bool \<Rightarrow> bool \<Rightarrow> color_cache \<Rightarrow> ((string \<times> string) list \<times> ambient option \<times> color_cache) res" where
  "mount_ambient css theme reduce anim cache =
     (let (ss, cache1) = ambient_steps css theme ambient_keys cache in
      rbind (mount_spine ss reduce anim) (\<lambda>sp.
      rbind (run_home sp reduce home_stmts [] None) (\<lambda>(parents, m). Inr (parents, m, cache1))))"

section \<open>What the landing spine shows\<close>

lemma ambient_keys_list: "ambient_keys =
    [''intent'', ''plan'', ''policy'', ''approval'', ''credential'', ''outcome'', ''anchor'', ''export'', ''verify'']"
  by (simp add: ambient_keys_def skeletonSteps_def skeleton_step_def obj_get_simps)

lemma ambient_label: "k \<in> set ambient_keys \<Longrightarrow> \<exists>l. obj_get RUN_SHORT_LABEL k = JStr l \<and> l \<noteq> ''''"
  by (auto simp: ambient_keys_list RUN_SHORT_LABEL_def obj_get_def)

lemma ambient_steps_mount:
  "set ks \<subseteq> set ambient_keys \<Longrightarrow>
     \<exists>ns. rmapM mount_node (fst (ambient_steps css theme ks cache)) = Inr ns \<and> map n_key ns = ks"
proof (induction ks arbitrary: cache)
  case (Cons k ks)
  obtain c cache1 where c: "stage_color css theme k cache = (c, cache1)" by (cases "stage_color css theme k cache")
  obtain rest cache2 where r: "ambient_steps css theme ks cache1 = (rest, cache2)" by (cases "ambient_steps css theme ks cache1")
  obtain l where "obj_get RUN_SHORT_LABEL k = JStr l" "l \<noteq> ''''" using ambient_label Cons.prems by auto
  then have "\<exists>n. mount_node \<lparr>s_key = JStr k, s_label = js_or (obj_get RUN_SHORT_LABEL k) (JStr k), s_color = JStr c\<rparr> = Inr n \<and> n_key n = k"
    by (simp add: mount_node_def js_or_def to_text_def)
  with Cons.IH [of cache1] Cons.prems r c show ?case by auto
qed simp

lemma ambient_mounted:
  "\<exists>sp. mount_spine (fst (ambient_steps css theme ambient_keys cache)) reduce anim = Inr sp \<and> map n_key (sp_nodes sp) = ambient_keys"
  using ambient_steps_mount [of ambient_keys css theme cache] by (auto simp: mount_spine_def)

text \<open>C34: The ambient spine of the landing page stays pending for ever: its first tick runs before
the statement that puts the hero into the document, finds the spine disconnected and sets no
timer, although the spine is in the document once the page is drawn.\<close>

theorem landing_spine_never_moves:
  "\<exists>parents m c. mount_ambient css theme False anim cache = Inr (parents, Some m, c) \<and> \<not> am_pending m \<and>
     map (state_at (am_spine m)) ambient_keys = replicate (length ambient_keys) (Some ''pending'') \<and>
     connected parents ''spine''"
proof -
  obtain ss c where ss: "ambient_steps css theme ambient_keys cache = (ss, c)" by (cases "ambient_steps css theme ambient_keys cache")
  obtain sp where sp: "mount_spine ss False anim = Inr sp" "map n_key (sp_nodes sp) = ambient_keys"
    using ambient_mounted [of css theme cache False anim] ss by auto
  have "filled ambient_keys 0 sp" using mounted_filled [OF sp(1)] sp(2) by simp
  then have "\<forall>k \<in> set ambient_keys. state_at sp k = Some ''pending''" by (auto simp: filled_def in_set_conv_nth)
  then have "map (state_at sp) ambient_keys = replicate (length ambient_keys) (Some ''pending'')"
    by (simp add: map_replicate_const [symmetric])
  with ss sp(1) show ?thesis
    by (simp add: mount_ambient_def home_stmts_def connected_def run_ambient_def ambient_tick_def)
qed

theorem reduced_landing_spine_complete:
  "\<exists>parents m c. mount_ambient css theme True anim cache = Inr (parents, Some m, c) \<and> \<not> am_pending m \<and>
     (\<forall>k \<in> set ambient_keys. state_at (am_spine m) k = Some ''complete'')"
proof -
  obtain ss c where ss: "ambient_steps css theme ambient_keys cache = (ss, c)" by (cases "ambient_steps css theme ambient_keys cache")
  obtain sp where sp: "mount_spine ss True anim = Inr sp" "map n_key (sp_nodes sp) = ambient_keys"
    using ambient_mounted [of css theme cache True anim] ss by auto
  have f: "filled ambient_keys 0 sp" using mounted_filled [OF sp(1)] sp(2) by simp
  then obtain sp' where "set_all ambient_keys ''complete'' sp = Inr sp'"
    "\<And>k. state_at sp' k = (if k \<in> set ambient_keys then map_option (\<lambda>_. ''complete'') (state_at sp k) else state_at sp k)"
    using set_all_state [of ambient_keys sp "''complete''"] by (auto simp: filled_def)
  moreover have "\<exists>st. state_at sp k = Some st" if k: "k \<in> set ambient_keys" for k
    using f k by (auto simp: filled_def in_set_conv_nth)
  ultimately show ?thesis using ss sp(1) by (auto simp: mount_ambient_def home_stmts_def connected_def run_ambient_def)
qed

end
