(* ===== verification/Session.thy ===== *)
theory Session
  imports RunPage Receipt
begin

text \<open>
  A visit to \<open>web/playground.js\<close>: the hash, the page in \<open>app\<close>, the navigation bar
  (\<open>setNav\<close>), the mode badge (\<open>updateModeBadge\<close>), the requests in flight, and the runs,
  receipts and labs that were opened. Nothing in the program stops a run or forgets a request when
  the visitor leaves its page, so all of them stay in the state and any later callback may finish
  them. Whatever a callback reports goes to the telemetry. A tab or newline, which the browser
  would strip from a fragment, is escaped here; the identifiers of the node are hexadecimal.
\<close>

section \<open>Navigation bar and badge\<close>

definition set_nav :: "string \<Rightarrow> 'h dom list \<Rightarrow> 'h dom list" where
  "set_nav name links = map (\<lambda>a. if attr a ''data-nav'' = Some name then put_attr ''aria-current'' ''page'' a
     else drop_attr ''aria-current'' a) links"

definition update_mode_badge :: "string \<Rightarrow> 'h dom \<Rightarrow> 'h dom" where
  "update_mode_badge mode b = put_text (badge_text mode) (put_attr ''data-mode'' mode (drop_attr ''hidden'' b))"

text \<open>The name each renderer passes to \<open>setNav\<close>.\<close>

fun tab_of :: "page \<Rightarrow> string" where
  "tab_of (Receipt r) = ''home''"
| "tab_of Verify = ''verify''"
| "tab_of Lab = ''lab''"
| "tab_of Status = ''status''"
| "tab_of MetaMask = ''home''"
| "tab_of Home = ''home''"
| "tab_of RedirectStatus = ''status''"

section \<open>The state of a visit\<close>

text \<open>\<open>Partial pg\<close>: the page up to the statement of its renderer that threw.\<close>

datatype screen = Empty | PageShown page | Partial page | RunShown string string | RunAt nat

record session =
  ss_hash :: string
  ss_screen :: screen
  ss_errors :: "shown_error list"
  ss_links :: "action dom list"
  ss_badge :: "action dom"
  ss_loading :: "string list"
  ss_receipts :: "receipt_page list"
  ss_samples :: nat
  ss_labs :: "lab list"
  ss_starts :: "(string \<times> string) list"
  ss_runs :: "(run_env \<times> theater) list"
  ss_cache :: color_cache
  ss_app :: app

text \<open>\<open>se_time i\<close>: the time stamp of the event number \<open>i\<close>.\<close>

record session_env =
  se_css :: css
  se_reduce :: bool
  se_animate :: bool
  se_emsg :: "jserr \<Rightarrow> string"
  se_time :: "nat \<Rightarrow> string"
  se_rnd :: string
  se_verifier :: "jsval \<Rightarrow> failure + jsval"
  se_canon :: canon
  se_origin :: string

definition se_receipt :: "session_env \<Rightarrow> receipt_env" where
  "se_receipt env = \<lparr>re_verifier = se_verifier env, re_reduce = se_reduce env, re_emsg = se_emsg env,
     re_origin = se_origin env\<rparr>"

definition se_lab :: "session_env \<Rightarrow> lab_env" where
  "se_lab env = \<lparr>le_verifier = se_verifier env, le_canon = se_canon env, le_reduce = se_reduce env,
     le_emsg = se_emsg env\<rparr>"

section \<open>Reports\<close>

text \<open>The calls \<open>telemetry.emit(event, extra)\<close> of a callback.\<close>

definition report_all :: "session_env \<Rightarrow> (string \<times> (string \<times> jsval) list) list \<Rightarrow> session \<Rightarrow> session" where
  "report_all env es s = (let ap = ss_app s in
     s\<lparr>ss_app := ap\<lparr>ap_tele := fold (\<lambda>(event, extra) t.
        tele_emit (se_time env (length (tl_sent t))) (se_rnd env) event extra t) es (ap_tele ap)\<rparr>\<rparr>)"

fun run_call :: "emission \<Rightarrow> string \<times> (string \<times> jsval) list" where
  "run_call (Emit ev m r) = (ev, [(''mode'', JStr m), (''result'', JStr r)])"

definition result_call :: "string \<times> string \<Rightarrow> string \<times> (string \<times> jsval) list" where
  "result_call e = (fst e, [(''result'', JStr (snd e))])"

section \<open>Pages\<close>

text \<open>
  A renderer clears \<open>app\<close> and marks its tab; the receipt page and the lab then wait for the
  node, and the landing page also shows the badge.
\<close>

definition show_page :: "page \<Rightarrow> session \<Rightarrow> session" where
  "show_page pg s = s\<lparr>ss_screen := PageShown pg, ss_errors := [], ss_links := set_nav (tab_of pg) (ss_links s),
     ss_badge := (if pg = Home then update_mode_badge (ap_mode (ss_app s)) (ss_badge s) else ss_badge s),
     ss_loading := (case pg of Receipt r \<Rightarrow> ss_loading s @ [r] | _ \<Rightarrow> ss_loading s),
     ss_samples := (if pg = Lab then ss_samples s + 1 else ss_samples s)\<rparr>"

text \<open>
  \<open>location.hash = h\<close> and the listener of \<open>hashchange\<close>: it runs when the value changes. An
  exception of \<open>route\<close> leaves the page as it is. The legacy link is replaced, which routes again.
\<close>

definition render_route :: "session \<Rightarrow> session" where
  "render_route s = (case route (ss_hash s) of
     Inl _ \<Rightarrow> s
   | Inr RedirectStatus \<Rightarrow> show_page Status (s\<lparr>ss_hash := ''#/status''\<rparr>)
   | Inr pg \<Rightarrow> show_page pg s)"

definition go :: "string \<Rightarrow> session \<Rightarrow> session" where
  "go h s = (if browser_hash h = ss_hash s then s else render_route (s\<lparr>ss_hash := browser_hash h\<rparr>))"

text \<open>The answer to a receipt request redraws \<open>app\<close>, whatever is shown by then.\<close>

definition receipt_answered :: "session_env \<Rightarrow> nat \<Rightarrow> fetched \<Rightarrow> session \<Rightarrow> session" where
  "receipt_answered env j reply s = (if j < length (ss_loading s)
     then (let rid = ss_loading s ! j;
               s1 = s\<lparr>ss_screen := PageShown (Receipt rid), ss_errors := [],
                      ss_loading := take j (ss_loading s) @ drop (Suc j) (ss_loading s)\<rparr> in
           case render_receipt (se_receipt env) rid reply of
             Inl _ \<Rightarrow> s1\<lparr>ss_screen := Partial (Receipt rid)\<rparr>
           | Inr (ReceiptError e) \<Rightarrow> s1\<lparr>ss_errors := [e]\<rparr>
           | Inr (ReceiptPage pg) \<Rightarrow> s1\<lparr>ss_receipts := ss_receipts s1 @ [pg]\<rparr>)
     else s)"

datatype receipt_event = BundleArrived fetched | ReverifyClicked | RowTimer nat | DetailsToggled "cinema_proof \<Rightarrow> bool"

fun receipt_do :: "receipt_env \<Rightarrow> receipt_event \<Rightarrow> receipt_page \<Rightarrow> receipt_page" where
  "receipt_do env (BundleArrived reply) pg = bundle_arrives env reply pg"
| "receipt_do env ReverifyClicked pg = reverify pg"
| "receipt_do env (RowTimer i) pg = receipt_tick i pg"
| "receipt_do env (DetailsToggled mounts) pg = toggle_details mounts pg"

text \<open>A callback of the receipt page number \<open>r\<close>, shown or left.\<close>

definition receipt_called :: "session_env \<Rightarrow> nat \<Rightarrow> receipt_event \<Rightarrow> session \<Rightarrow> session" where
  "receipt_called env r ev s = (if r < length (ss_receipts s) then
     (let pg = ss_receipts s ! r; pg' = receipt_do (se_receipt env) ev pg in
      report_all env (map result_call (drop (length (rc_emits pg)) (rc_emits pg')))
        (s\<lparr>ss_receipts := (ss_receipts s)[r := pg']\<rparr>))
     else s)"

text \<open>The sample of a lab arrives; a callback of the lab number \<open>l\<close>.\<close>

definition sample_answered :: "session_env \<Rightarrow> fetched \<Rightarrow> session \<Rightarrow> session" where
  "sample_answered env reply s = (if ss_samples s = 0 then s else
     (let s1 = s\<lparr>ss_samples := ss_samples s - 1\<rparr> in
      case render_lab (se_emsg env) reply of
        Inr (LabPage dl lb) \<Rightarrow> s1\<lparr>ss_labs := ss_labs s1 @ [lb]\<rparr>
      | _ \<Rightarrow> s1))"

definition lab_called :: "session_env \<Rightarrow> nat \<Rightarrow> lab_event \<Rightarrow> session \<Rightarrow> session" where
  "lab_called env l ev s = (if l < length (ss_labs s) then
     (let lb = ss_labs s ! l in case lab_do (se_lab env) ev lb of
        None \<Rightarrow> s
      | Some lb' \<Rightarrow> report_all env (map (\<lambda>r. result_call (''proof.verified'', r)) (drop (length (lb_emits lb)) (lb_emits lb')))
          (s\<lparr>ss_labs := (ss_labs s)[l := lb']\<rparr>))
     else s)"

section \<open>Runs\<close>

definition begin_run :: "string \<Rightarrow> string \<Rightarrow> session \<Rightarrow> session" where
  "begin_run mode flow0 s =
     (let flow = run_flow flow0 (ap_flow (ss_app s)) in
      s\<lparr>ss_screen := RunShown mode flow, ss_errors := [], ss_links := set_nav ''home'' (ss_links s),
        ss_starts := ss_starts s @ [(mode, flow)]\<rparr>)"

text \<open>
  The answer to a started run. On success the loop starts, on the page of the run if that is
  still shown; an error is appended to whatever \<open>app\<close> shows.
\<close>

definition run_answered :: "session_env \<Rightarrow> string option \<Rightarrow> nat \<Rightarrow> fetched \<Rightarrow> session \<Rightarrow> session" where
  "run_answered env theme j reply s = (if j < length (ss_starts s) then
     (let (mode, flow) = ss_starts s ! j;
          s1 = s\<lparr>ss_starts := take j (ss_starts s) @ drop (Suc j) (ss_starts s)\<rparr> in
      case answer_run (se_emsg env) (se_css env) theme (se_reduce env) (se_animate env) (ss_cache s) mode reply of
        Inl _ \<Rightarrow> s1
      | Inr (Inl e) \<Rightarrow> s1\<lparr>ss_errors := ss_errors s1 @ [e]\<rparr>
      | Inr (Inr st) \<Rightarrow> s1\<lparr>ss_runs := ss_runs s1 @ [(st_env st, st_theater st)], ss_cache := st_cache st,
            ss_screen := (if ss_screen s1 = RunShown mode flow then RunAt (length (ss_runs s1)) else ss_screen s1)\<rparr>)
     else s)"

text \<open>
  One callback of run \<open>i\<close>: what it reported goes to the telemetry, and a location it
  assigned is visited.
\<close>

definition run_ticked :: "session_env \<Rightarrow> nat \<Rightarrow> tick \<Rightarrow> session \<Rightarrow> session" where
  "run_ticked env i a s = (if i < length (ss_runs s) then
     (let (re, t) = ss_runs s ! i in
      case theater_do re a t of
        None \<Rightarrow> s
      | Some t' \<Rightarrow>
         (let s1 = report_all env (map run_call (drop (length (v_emits (t_view t))) (v_emits (t_view t'))))
                     (s\<lparr>ss_runs := (ss_runs s)[i := (re, t')]\<rparr>) in
          case v_location (t_view t') of
            Some h \<Rightarrow> if v_location (t_view t) = None then go h s1 else s1
          | None \<Rightarrow> s1))
     else s)"

section \<open>The events of a visit\<close>

text \<open>
  What a visitor or the browser does next: any callback of any page, request or run, in any
  order, those the shown page offers among them.
\<close>

datatype session_event = Visit string | HomeAction bool action | RunAnswered "string option" nat fetched
  | ReceiptAnswered nat fetched | ReceiptCalled nat receipt_event | SampleAnswered fetched | LabCalled nat lab_event
  | RunTicked nat tick

fun session_do :: "session_env \<Rightarrow> session_event \<Rightarrow> session \<Rightarrow> session" where
  "session_do env (Visit h) s = go h s"
| "session_do env (HomeAction on a) s = (case a of
     StartRun m f \<Rightarrow> begin_run m f s
   | ChooseMode m \<Rightarrow> show_page Home (s\<lparr>ss_app := home_do on a (ss_app s),
        ss_badge := update_mode_badge m (ss_badge s)\<rparr>)
   | ChooseFlow f \<Rightarrow> show_page Home (s\<lparr>ss_app := home_do on a (ss_app s)\<rparr>)
   | OptInChanged \<Rightarrow> s\<lparr>ss_app := home_do on a (ss_app s)\<rparr>
   | _ \<Rightarrow> s)"
| "session_do env (RunAnswered theme j reply) s = run_answered env theme j reply s"
| "session_do env (ReceiptAnswered j reply) s = receipt_answered env j reply s"
| "session_do env (ReceiptCalled r ev) s = receipt_called env r ev s"
| "session_do env (SampleAnswered reply) s = sample_answered env reply s"
| "session_do env (LabCalled l ev) s = lab_called env l ev s"
| "session_do env (RunTicked i a) s = run_ticked env i a s"

definition session_run :: "session_env \<Rightarrow> session_event list \<Rightarrow> session \<Rightarrow> session" where
  "session_run env evs s = fold (session_do env) evs s"

inductive session_step :: "session_env \<Rightarrow> session \<Rightarrow> session \<Rightarrow> bool" for env :: session_env where
  event: "session_step env s (session_do env ev s)"

inductive_simps session_step_iff: "session_step env s s'"

text \<open>The links of the shell, and the visit as \<open>boot\<close> starts it: it listens once it has booted.\<close>

definition nav_links :: "action dom list" where
  "nav_links = map (\<lambda>(t, h, n). put_attr ''data-nav'' n (link '''' t h))
     [(''Home'', ''#/'', ''home''), (''Verify a proof'', ''#/verify'', ''verify''), (''Tamper Lab'', ''#/lab'', ''lab''),
      (''What it can do'', ''#/status'', ''status'')]"

definition first_session :: "string \<Rightarrow> tele \<Rightarrow> session" where
  "first_session h t = \<lparr>ss_hash = h, ss_screen = Empty, ss_errors = [], ss_links = nav_links,
     ss_badge = put_attr ''hidden'' '''' (elt ''span'' ''pg-mode-badge'' ''''), ss_loading = [], ss_receipts = [],
     ss_samples = 0, ss_labs = [], ss_starts = [], ss_runs = [], ss_cache = [], ss_app = first_app t\<rparr>"

definition boot_session :: "session_env \<Rightarrow> bool \<Rightarrow> string \<Rightarrow> fetched \<Rightarrow> tele \<Rightarrow> session res" where
  "boot_session env has_claim h reply t =
     rbind (boot (se_time env (length (tl_sent t))) (se_rnd env) has_claim h reply t) (\<lambda>(a, claim, pg).
     Inr (render_route ((first_session h t)\<lparr>ss_app := a\<rparr>)))"

section \<open>The navigation bar marks one tab\<close>

lemma attr_drop: "attr (drop_attr a e) b = (if b = a then None else attr e b)"
  by (cases e) (simp add: attr_def drop_attr_def delete_conv')

definition nav_names :: "'h dom list \<Rightarrow> string option list" where
  "nav_names links = map (\<lambda>a. attr a ''data-nav'') links"

definition nav_marks :: "'h dom list \<Rightarrow> (string option \<times> string option) list" where
  "nav_marks links = map (\<lambda>a. (attr a ''data-nav'', attr a ''aria-current'')) links"

lemma set_nav_names [simp]: "nav_names (set_nav name links) = nav_names links"
  by (simp add: nav_names_def set_nav_def attr_drop comp_def)

lemma set_nav_marks:
  "nav_marks (set_nav name links) = map (\<lambda>n. (n, if n = Some name then Some ''page'' else None)) (nav_names links)"
  by (simp add: nav_marks_def nav_names_def set_nav_def attr_drop comp_def)

lemma report_all_frame [simp]:
  "ss_hash (report_all env es s) = ss_hash s" "ss_screen (report_all env es s) = ss_screen s"
  "ss_errors (report_all env es s) = ss_errors s" "ss_links (report_all env es s) = ss_links s"
  "ss_loading (report_all env es s) = ss_loading s" "ss_runs (report_all env es s) = ss_runs s"
  "ss_starts (report_all env es s) = ss_starts s" "ss_receipts (report_all env es s) = ss_receipts s"
  by (simp_all add: report_all_def Let_def)

lemma receipt_answered_frame [simp]: "ss_links (receipt_answered env j reply s) = ss_links s"
  "ss_hash (receipt_answered env j reply s) = ss_hash s" "ss_app (receipt_answered env j reply s) = ss_app s"
  by (simp_all add: receipt_answered_def Let_def split: sum.split receipt_view.split)

lemma receipt_called_frame [simp]: "ss_links (receipt_called env r ev s) = ss_links s"
  "ss_hash (receipt_called env r ev s) = ss_hash s"
  by (simp_all add: receipt_called_def Let_def)

lemma sample_answered_frame [simp]: "ss_links (sample_answered env reply s) = ss_links s"
  "ss_hash (sample_answered env reply s) = ss_hash s" "ss_app (sample_answered env reply s) = ss_app s"
  by (simp_all add: sample_answered_def Let_def split: sum.split lab_page.split)

lemma lab_called_frame [simp]: "ss_links (lab_called env l ev s) = ss_links s"
  "ss_hash (lab_called env l ev s) = ss_hash s"
  by (simp_all add: lab_called_def Let_def split: option.split)

lemma run_answered_frame [simp]: "ss_links (run_answered env theme j reply s) = ss_links s"
  "ss_hash (run_answered env theme j reply s) = ss_hash s" "ss_app (run_answered env theme j reply s) = ss_app s"
  by (simp_all add: run_answered_def Let_def split: sum.split prod.split)

lemma show_page_names [simp]: "nav_names (ss_links (show_page pg s)) = nav_names (ss_links s)"
  by (simp add: show_page_def)

lemma render_route_names [simp]: "nav_names (ss_links (render_route s)) = nav_names (ss_links s)"
  by (simp add: render_route_def split: sum.split page.split)

lemma go_names [simp]: "nav_names (ss_links (go h s)) = nav_names (ss_links s)"
  by (simp add: go_def)

lemma session_do_names: "nav_names (ss_links (session_do env ev s)) = nav_names (ss_links s)"
  by (cases ev) (simp_all add: begin_run_def run_ticked_def Let_def split: action.split prod.split option.split)

interpretation nav: invariant_system "{s. nav_names (ss_links s) = ns}" "session_step env"
    "\<lambda>s. nav_names (ss_links s) = ns" for env ns
  by unfold_locales (auto simp: session_step_iff session_do_names)

text \<open>An event that opens no page: everything but a link, a start, a choice, and the end of a run's seal beat.\<close>

definition opens_page :: "session_event \<Rightarrow> session \<Rightarrow> bool" where
  "opens_page ev s = (case ev of
     Visit h \<Rightarrow> True
   | HomeAction on a \<Rightarrow> (case a of StartRun m f \<Rightarrow> True | ChooseMode m \<Rightarrow> True | ChooseFlow f \<Rightarrow> True | _ \<Rightarrow> False)
   | RunTicked i a \<Rightarrow> i < length (ss_runs s) \<and> a = Timer \<and> (case t_pc (snd (ss_runs s ! i)) of Sealing rid \<Rightarrow> True | _ \<Rightarrow> False)
   | _ \<Rightarrow> False)"

fun stays :: "session_env \<Rightarrow> session_event list \<Rightarrow> session \<Rightarrow> bool" where
  "stays env [] s = True"
| "stays env (ev # evs) s = (\<not> opens_page ev s \<and> stays env evs (session_do env ev s))"

text \<open>The tab a hash belongs to.\<close>

definition tab_for :: "string \<Rightarrow> string" where
  "tab_for h = (if h = ''#/verify'' then ''verify'' else if h = ''#/lab'' then ''lab''
     else if h = ''#/status'' \<or> h = ''#/readiness'' then ''status'' else ''home'')"

definition nav_tabs :: "string list" where
  "nav_tabs = [''home'', ''verify'', ''lab'', ''status'']"

lemma browser_hash_shape: "browser_hash h = '''' \<or> (\<exists>f. browser_hash h = CHR 0x23 # f \<and> f \<noteq> '''')"
  by (auto simp: browser_hash_def Let_def neq_Nil_conv pct_char_def)

lemma route_tab:
  assumes "route (browser_hash h) = Inr pg" shows "tab_of pg = tab_for (browser_hash h)"
proof (cases "browser_hash h = ''''")
  case True
  then show ?thesis using assms by (simp add: route_pages tab_for_def)
next
  case False
  with browser_hash_shape [of h] obtain f where h: "browser_hash h = CHR 0x23 # f" by blast
  have r: "\<not> starts_with ''/r/'' ''/verify''" "\<not> starts_with ''/r/'' ''/lab''" "\<not> starts_with ''/r/'' ''/status''"
    "\<not> starts_with ''/r/'' ''/readiness''"
    by (simp_all add: starts_with_def)
  show ?thesis
  proof (cases "starts_with ''/r/'' f")
    case True
    with assms obtain rid where "pg = Receipt rid"
      by (auto simp: h route_def strip_hash_def Let_def rbind_eq_Inr)
    moreover have "tab_for (browser_hash h) = ''home''" using True r by (auto simp: h tab_for_def)
    ultimately show ?thesis by simp
  next
    case False
    then show ?thesis using assms by (simp add: h route_def strip_hash_def Let_def tab_for_def split: if_splits)
  qed
qed

lemma go_marks:
  assumes "route (browser_hash h) = Inr pg" and "browser_hash h \<noteq> ss_hash s"
  shows "nav_marks (ss_links (go h s)) =
    map (\<lambda>n. (n, if n = Some (tab_for (browser_hash h)) then Some ''page'' else None)) (nav_names (ss_links s))"
  unfolding route_tab [OF assms(1), symmetric] using assms
  by (cases pg) (simp_all add: go_def render_route_def show_page_def set_nav_marks)

lemma stays_frame:
  assumes "\<not> opens_page ev s"
  shows "ss_links (session_do env ev s) = ss_links s \<and> ss_hash (session_do env ev s) = ss_hash s"
proof (cases ev)
  case (RunTicked i a)
  show ?thesis
  proof (cases "i < length (ss_runs s)")
    case True
    obtain re t where t: "ss_runs s ! i = (re, t)" by (cases "ss_runs s ! i")
    have q: "a = Timer \<longrightarrow> (\<forall>rid. t_pc t \<noteq> Sealing rid)"
      using assms RunTicked True t by (auto simp: opens_page_def)
    show ?thesis
    proof (cases "theater_do re a t")
      case (Some t')
      from theater_location [OF this q] Some True t RunTicked show ?thesis
        by (simp add: run_ticked_def Let_def split: option.split)
    qed (use True t RunTicked in \<open>simp add: run_ticked_def\<close>)
  qed (use RunTicked in \<open>simp add: run_ticked_def\<close>)
next
  case (HomeAction on a)
  then show ?thesis using assms by (cases a) (simp_all add: opens_page_def)
qed (use assms in \<open>simp_all add: opens_page_def\<close>)

lemma stays_run:
  "stays env evs s \<Longrightarrow> ss_links (session_run env evs s) = ss_links s \<and> ss_hash (session_run env evs s) = ss_hash s"
  by (induction env evs s rule: stays.induct) (simp_all add: session_run_def stays_frame)

lemma booted_names: "boot_session env has_claim h0 reply t = Inr s0 \<Longrightarrow> nav_names (ss_links s0) = map Some nav_tabs"
  by (auto simp: boot_session_def rbind_eq_Inr) (simp add: first_session_def nav_names_def nav_links_def link_def nav_tabs_def)

text \<open>C30: Whatever a booted visit did before, after it follows a link that changes the address to a
page, and until another page is opened, exactly one of the four links of the navigation bar is
marked as the current page: that of the tab the address belongs to.\<close>

theorem one_tab_marked:
  assumes "boot_session env has_claim h0 reply t = Inr s0" and "reach {s0} (session_step env) s"
    and "route (browser_hash h) = Inr pg" and "browser_hash h \<noteq> ss_hash s" and "stays env evs (go h s)"
  shows "nav_marks (ss_links (session_run env evs (go h s))) =
         map (\<lambda>n. (Some n, if n = tab_for (browser_hash h) then Some ''page'' else None)) nav_tabs"
proof -
  have "reach {s. nav_names (ss_links s) = map Some nav_tabs} (session_step env) s"
    by (rule reach_mono [OF assms(2)]) (use booted_names [OF assms(1)] in simp)
  then have "nav_names (ss_links s) = map Some nav_tabs" by (rule nav.inv_reach)
  then show ?thesis using stays_run [OF assms(5)] go_marks [OF assms(3,4)] by (simp add: comp_def)
qed

section \<open>Consent over a visit\<close>

abbreviation session_tele :: "session \<Rightarrow> tele" where
  "session_tele s \<equiv> ap_tele (ss_app s)"

text \<open>
  The telemetry of a visit changes by reports of the call sites alone, or by a change of the choice.
\<close>

definition tele_moves :: "session_env \<Rightarrow> bool \<Rightarrow> tele \<Rightarrow> tele \<Rightarrow> bool" where
  "tele_moves env b t t' \<longleftrightarrow> (\<exists>ops. t' = fold tele_do ops t \<and> list_all (told (se_rnd env)) ops \<and> (OptIn True \<in> set ops \<longrightarrow> b))"

lemma tele_moves_refl [simp]: "tele_moves env b t t"
  unfolding tele_moves_def by (rule exI [of _ "[]"]) simp

lemma tele_moves_trans: "tele_moves env b t u \<Longrightarrow> tele_moves env b u w \<Longrightarrow> tele_moves env b t w"
  unfolding tele_moves_def by (elim exE) (rule_tac x = "ops @ opsa" in exI, auto)

lemma report_all_moves:
  "list_all (\<lambda>(event, extra). call_site event extra) es \<Longrightarrow> tele_moves env b (session_tele s) (session_tele (report_all env es s))"
proof -
  have "tele_moves env b t (fold (\<lambda>(event, extra) t. tele_emit (se_time env (length (tl_sent t))) (se_rnd env) event extra t) es t)"
    if "list_all (\<lambda>(event, extra). call_site event extra) es" for t
    using that
  proof (induction es arbitrary: t)
    case (Cons e es)
    obtain event extra where e: "e = (event, extra)" by (cases e)
    let ?op = "Report (se_time env (length (tl_sent t))) (se_rnd env) event extra"
    have "tele_moves env b t (tele_do ?op t)"
      unfolding tele_moves_def using Cons.prems e by (intro exI [of _ "[?op]"]) (simp add: told_def)
    from tele_moves_trans [OF this Cons.IH [of "tele_do ?op t"]] Cons.prems e show ?case by simp
  qed simp
  then show "list_all (\<lambda>(event, extra). call_site event extra) es \<Longrightarrow> ?thesis" by (simp add: report_all_def Let_def)
qed

lemma run_words_calls: "set es \<subseteq> run_words \<Longrightarrow> list_all (\<lambda>(event, extra). call_site event extra) (map run_call es)"
  by (auto simp: list_all_iff run_words_def call_site_def)

lemma receipt_news:
  "\<exists>es. rc_emits (receipt_do env ev pg) = rc_emits pg @ es \<and> list_all (\<lambda>(event, extra). call_site event extra) (map result_call es)"
proof (cases ev)
  case (BundleArrived reply)
  obtain host m rs where v: "receipt_verdict env (rc_receipt pg) (bundle_package reply) = (host, m, rs)"
    by (cases "receipt_verdict env (rc_receipt pg) (bundle_package reply)") auto
  then have "set rs \<subseteq> {''success'', ''failure''}"
    by (auto simp: receipt_verdict_def outcome_word_def split: if_splits sum.splits)
  then have "list_all (\<lambda>(event, extra). call_site event extra) (map (result_call \<circ> Pair ''proof.verified'') rs)"
    by (auto simp: list_all_iff result_call_def call_site_def)
  then show ?thesis using BundleArrived v by (cases "rc_waiting pg") (auto simp: bundle_arrives_def Let_def)
next
  case (DetailsToggled mounts)
  then show ?thesis by (auto simp: toggle_details_def Let_def result_call_def call_site_def split: sum.split)
qed (auto simp: reverify_def receipt_tick_def split: option.split)

lemma verify_finish_news:
  "verify_finish env p lb = (lb1, r) \<Longrightarrow> \<exists>es. lb_emits lb1 = lb_emits lb @ es \<and> set es \<subseteq> {''success'', ''failure''}"
  by (auto simp: verify_finish_def Let_def outcome_word_def split: sum.splits)

lemma lab_news:
  assumes "lab_do env ev lb = Some lb'"
  shows "\<exists>es. lb_emits lb' = lb_emits lb @ es \<and> set es \<subseteq> {''success'', ''failure''}"
proof (cases ev)
  case (Finish j)
  let ?lb = "lb\<lparr>lb_tasks := take j (lb_tasks lb) @ drop (Suc j) (lb_tasks lb)\<rparr>"
  have lb': "lb' = finish_task env (lb_tasks lb ! j) ?lb" using assms Finish by (simp split: if_splits)
  show ?thesis
  proof (cases "lb_tasks lb ! j")
    case (Forging f)
    then show ?thesis
      by (simp add: lb' finish_task_def finish_forging_def attack_fails_def attack_end_def split: sum.split prod.split)
  next
    case (Judging f p)
    obtain lb1 r where v: "verify_finish env p ?lb = (lb1, r)" by (cases "verify_finish env p ?lb")
    from verify_finish_news [OF v] show ?thesis using Judging v
      by (cases r) (simp_all add: lb' finish_task_def finish_judging_def attack_fails_def attack_end_def Let_def)
  next
    case Restoring
    obtain lb1 r where v: "verify_finish env (lb_clean ?lb) ?lb = (lb1, r)" by (cases "verify_finish env (lb_clean ?lb) ?lb")
    from verify_finish_news [OF v] show ?thesis using Restoring v
      by (cases r) (simp_all add: lb' finish_task_def finish_restoring_def)
  next
    case Baseline
    obtain lb1 r where v: "verify_finish env (lb_clean ?lb) ?lb = (lb1, r)" by (cases "verify_finish env (lb_clean ?lb) ?lb")
    from verify_finish_news [OF v] show ?thesis using Baseline v by (simp add: lb' finish_task_def)
  qed
qed (use assms in \<open>auto split: if_splits\<close>)

lemma show_page_app [simp]: "ss_app (show_page pg s) = ss_app s"
  by (simp add: show_page_def)

lemma go_app [simp]: "ss_app (go h s) = ss_app s"
  by (simp add: go_def render_route_def split: sum.splits page.splits)

lemma run_ticked_moves: "tele_moves env b (session_tele s) (session_tele (run_ticked env i a s))"
proof (cases "i < length (ss_runs s)")
  case True
  obtain re t where t: "ss_runs s ! i = (re, t)" by (cases "ss_runs s ! i")
  show ?thesis
  proof (cases "theater_do re a t")
    case (Some t')
    from theater_tells [OF Some] obtain es where es: "v_emits (t_view t') = v_emits (t_view t) @ es" "set es \<subseteq> run_words"
      by (auto simp: tells_def)
    show ?thesis using True t Some es(1) report_all_moves [OF run_words_calls [OF es(2)], of env b "s\<lparr>ss_runs := (ss_runs s)[i := (re, t')]\<rparr>"]
      by (simp add: run_ticked_def Let_def split: option.split)
  qed (use True t in \<open>simp add: run_ticked_def\<close>)
qed (simp add: run_ticked_def)

lemma receipt_called_moves: "tele_moves env b (session_tele s) (session_tele (receipt_called env r ev s))"
proof -
  obtain es where "rc_emits (receipt_do (se_receipt env) ev (ss_receipts s ! r)) = rc_emits (ss_receipts s ! r) @ es"
    "list_all (\<lambda>(event, extra). call_site event extra) (map result_call es)" using receipt_news by blast
  then show ?thesis
    using report_all_moves [of "map result_call es" env b "s\<lparr>ss_receipts := (ss_receipts s)[r := receipt_do (se_receipt env) ev (ss_receipts s ! r)]\<rparr>"]
    by (simp add: receipt_called_def Let_def)
qed

lemma lab_called_moves: "tele_moves env b (session_tele s) (session_tele (lab_called env l ev s))"
proof (cases "lab_do (se_lab env) ev (ss_labs s ! l)")
  case (Some lb')
  from lab_news [OF Some] obtain es where es: "lb_emits lb' = lb_emits (ss_labs s ! l) @ es" "set es \<subseteq> {''success'', ''failure''}" by blast
  then have "list_all (\<lambda>(event, extra). call_site event extra) (map (\<lambda>r. result_call (''proof.verified'', r)) es)"
    by (auto simp: list_all_iff result_call_def call_site_def)
  then show ?thesis using Some es(1) report_all_moves [of _ env b "s\<lparr>ss_labs := (ss_labs s)[l := lb']\<rparr>"]
    by (simp add: lab_called_def Let_def)
qed (simp add: lab_called_def)

lemma session_do_moves:
  "tele_moves env (ev = HomeAction True OptInChanged) (session_tele s) (session_tele (session_do env ev s))"
proof (cases ev)
  case (HomeAction on a)
  have "tele_moves env (ev = HomeAction True OptInChanged) t (set_opt_in on t)" if "a = OptInChanged" for t
    unfolding tele_moves_def by (rule exI [of _ "[OptIn on]"]) (use that HomeAction in \<open>simp add: told_def\<close>)
  then show ?thesis using HomeAction by (cases a) (simp_all add: begin_run_def Let_def)
qed (simp_all add: run_ticked_moves receipt_called_moves lab_called_moves)

lemma tele_moves_mono: "tele_moves env b t u \<Longrightarrow> (b \<Longrightarrow> c) \<Longrightarrow> tele_moves env c t u"
  by (auto simp: tele_moves_def)

lemma session_run_moves:
  "tele_moves env (HomeAction True OptInChanged \<in> set evs) (session_tele s) (session_tele (session_run env evs s))"
proof (induction evs arbitrary: s)
  case (Cons ev evs)
  have "tele_moves env (HomeAction True OptInChanged \<in> set (ev # evs)) (session_tele s) (session_tele (session_do env ev s))"
    by (rule tele_moves_mono [OF session_do_moves]) simp
  moreover have "tele_moves env (HomeAction True OptInChanged \<in> set (ev # evs)) (session_tele (session_do env ev s))
      (session_tele (session_run env evs (session_do env ev s)))"
    by (rule tele_moves_mono [OF Cons.IH]) simp
  ultimately show ?case unfolding session_run_def by (auto intro: tele_moves_trans)
qed (simp add: session_run_def)

lemma booted_moves:
  assumes "boot_session env has_claim h reply t = Inr s0"
  shows "tele_moves env False t (session_tele s0)"
proof -
  let ?op = "Report (se_time env (length (tl_sent t))) (se_rnd env) ''page.loaded'' []"
  have l: "ap_tele (load_config reply (first_app t)) = t"
    by (simp add: load_config_def first_app_def split: sum.split)
  then have "session_tele s0 = tele_do ?op t"
    using assms by (auto simp: boot_session_def boot_def rbind_eq_Inr Let_def render_route_def split: sum.splits page.splits)
  then show ?thesis unfolding tele_moves_def by (intro exI [of _ "[?op]"]) (simp add: told_def call_site_def)
qed

lemma visit_moves:
  assumes "boot_session env has_claim h reply t = Inr s0"
  shows "tele_moves env (HomeAction True OptInChanged \<in> set evs) t (session_tele (session_run env evs s0))"
  by (rule tele_moves_trans [OF tele_moves_mono [OF booted_moves [OF assms]] session_run_moves]) simp

text \<open>C19: In a visit whose stored choice is not consent, from boot on, no sequence of navigations,
runs, receipts and labs and their callbacks, with everything they report, sends a telemetry
event unless the visitor ticks the box.\<close>

theorem visit_silent_without_consent:
  assumes "boot_session env has_claim h reply t = Inr s0" and "so_look (tl_local t) tele_key \<noteq> Some ''1''"
    and "HomeAction True OptInChanged \<notin> set evs"
  shows "tl_sent (session_tele (session_run env evs s0)) = tl_sent t"
proof -
  obtain ops where "session_tele (session_run env evs s0) = fold tele_do ops t" "OptIn True \<notin> set ops"
    using visit_moves [OF assms(1), of evs] assms(3) by (auto simp: tele_moves_def)
  moreover have "\<not> opted_in t" using assms(2) by (simp add: opted_in_def get_item_def)
  ultimately show ?thesis using silent_without_consent by simp
qed


section \<open>Runs and the pages they open\<close>

lemma sealing_receipt:
  assumes "start_run css theme kermit reduce anim started cache = Inr (re, t0, cache')"
    and "reach {t0} (theater_step re) t" and "t_pc t = Sealing r" and "string_labels re"
    and "list_all (going_on (v_spine (t_view t0))) evs" and "rid \<noteq> ''''"
    and "t_stream t = map node_frame evs @ done_frame rid # rest"
  shows "r = JStr rid \<and> v_location (t_view t) = None"
proof -
  let ?v = "t_view t0"
  note st = start_run_view [OF assms(1)]
  have reach: "reach {start_theater ?v} (theater_step re) t" using assms(2) st by simp
  have inv: "theater_inv re ?v t" by (rule theater.inv_reach [OF reach])
  then have seen: "narrate re (t_seen t) ?v = Inr (Sealed r, t_view t)"
    using assms(3) by (simp add: theater_inv_def on_stage_def)
  obtain xs where "t_stream t = t_seen t @ xs" using stream_split [OF inv] by blast
  then have all: "narrate re (t_stream t) ?v = Inr (Sealed r, t_view t)"
    using narrate_stops [OF seen] by simp
  obtain v1 where v1: "\<And>es. narrate re (map node_frame evs @ es) ?v = narrate re es v1"
    using events_narrated [OF assms(4) _ assms(5)] st by blast
  obtain v2 where "narrated re (done_frame rid # rest) v1 = Inr (Sealed (JStr rid), v2)"
    using done_narrated [OF assms(6)] by blast
  moreover have "narrate re (done_frame rid # rest) v1 = Inr (Sealed r, t_view t)"
    using all v1 by (simp add: assms(7))
  ultimately have "r = JStr rid" by (auto simp: narrated_def rbind_eq_Inr)
  moreover have "reach {start_theater v |v. v_emits v = [] \<and> v_location v = None} (theater_step re) t"
    by (rule reach_mono [OF reach]) (use st in auto)
  then have "v_location (t_view t) = None" using report.inv_reach assms(3) by (fastforce simp: report_inv_def)
  ultimately show ?thesis by simp
qed

lemma go_receipt:
  assumes "utf8_text rid" and "CHR ''%'' \<notin> set rid"
  shows "ss_hash (go (receipt_link rid) s) = browser_hash (receipt_link rid) \<and>
    (if ss_hash s = browser_hash (receipt_link rid) then go (receipt_link rid) s = s
     else ss_screen (go (receipt_link rid) s) = PageShown (Receipt rid) \<and>
          ss_loading (go (receipt_link rid) s) = ss_loading s @ [rid])"
  by (simp add: go_def render_route_def route_receipt_link [OF assms] show_page_def)

lemma go_runs [simp]: "ss_runs (go h s) = ss_runs s"
  by (simp add: go_def render_route_def show_page_def split: sum.split page.split)

text \<open>C9: When the seal beat of a run that announced a receipt ends, the address is that of the
receipt; unless it was so before, the visit shows that receipt and loads it - whatever page the
visitor has moved to meanwhile, since nothing stops a run that was left.\<close>

theorem sealed_run_takes_the_page:
  assumes "start_run css theme kermit reduce anim started cache = Inr (re, t0, cache')"
    and "reach {t0} (theater_step re) t" and "t_pc t = Sealing r" and "string_labels re"
    and "list_all (going_on (v_spine (t_view t0))) evs" and "rid \<noteq> ''''"
    and "t_stream t = map node_frame evs @ done_frame rid # rest"
    and "utf8_text rid" and "CHR ''%'' \<notin> set rid"
    and "i < length (ss_runs s)" and "ss_runs s ! i = (re, t)"
  shows "let s' = run_ticked env i Timer s in
    ss_hash s' = browser_hash (receipt_link rid) \<and> t_pc (snd (ss_runs s' ! i)) = Finished \<and>
    (if ss_hash s = browser_hash (receipt_link rid)
     then ss_screen s' = ss_screen s \<and> ss_loading s' = ss_loading s
     else ss_screen s' = PageShown (Receipt rid) \<and> ss_loading s' = ss_loading s @ [rid])"
proof -
  have r: "r = JStr rid" "v_location (t_view t) = None"
    using sealing_receipt [OF assms(1-7)] by simp_all
  let ?v = "(t_view t)\<lparr>v_spine := spine_seal_timer (v_spine (t_view t)), v_location := Some (receipt_link rid)\<rparr>"
  have tick: "theater_do re Timer t = Some (t\<lparr>t_view := ?v, t_pc := Finished\<rparr>)"
    using assms(3) r(1) by (simp add: timer_def open_receipt_def receipt_link_def)
  define s1 where "s1 = report_all env [] (s\<lparr>ss_runs := (ss_runs s)[i := (re, t\<lparr>t_view := ?v, t_pc := Finished\<rparr>)]\<rparr>)"
  have "run_ticked env i Timer s = go (receipt_link rid) s1"
    using assms(10,11) tick r(2) by (simp add: run_ticked_def s1_def)
  moreover have "ss_hash s1 = ss_hash s" "ss_screen s1 = ss_screen s" "ss_loading s1 = ss_loading s"
    "ss_runs s1 ! i = (re, t\<lparr>t_view := ?v, t_pc := Finished\<rparr>)"
    using assms(10) by (simp_all add: s1_def)
  ultimately show ?thesis
    using go_receipt [OF assms(8,9), of s1] by (auto simp: Let_def)
qed

text \<open>A run leaves the hash alone, so the link of the page it was started from leads nowhere.\<close>

lemma home_hash: "browser_hash ''#/'' = ''#/''"
  by (simp add: browser_hash_def strip_hash_def fragment_escaped_def)

text \<open>C37: A run leaves the address alone: from its start on, through any callbacks that open no page,
the Home link changes nothing if the address is #/, and opens the landing page from any other
address, the bare one included.\<close>

theorem home_link_dead_during_run:
  assumes "stays env evs (begin_run mode flow s)"
  shows "ss_screen (begin_run mode flow s) = RunShown mode (run_flow flow (ap_flow (ss_app s))) \<and>
    (let s1 = session_run env evs (begin_run mode flow s) in
       ss_hash s1 = ss_hash s \<and>
       (if ss_hash s = ''#/'' then go ''#/'' s1 = s1
        else ss_hash (go ''#/'' s1) = ''#/'' \<and> ss_screen (go ''#/'' s1) = PageShown Home))"
proof -
  let ?s = "session_run env evs (begin_run mode flow s)"
  have "ss_hash ?s = ss_hash s" using stays_run [OF assms] by (simp add: begin_run_def Let_def)
  then show ?thesis
    by (simp add: go_def home_hash render_route_def route_pages show_page_def Let_def) (simp add: begin_run_def Let_def)
qed

theorem late_run_error_on_other_page:
  assumes "ss_starts s = []" and "api ''/api/runs'' reply = Inl e" and "ss_hash s \<noteq> ''#/verify''"
  shows "let s' = run_answered env theme 0 reply (go ''#/verify'' (begin_run mode flow s)) in
    ss_screen s' = PageShown Verify \<and> ss_errors s' = [failure_error (se_emsg env) e]"
proof -
  have "browser_hash ''#/verify'' = ''#/verify''" by (simp add: browser_hash_def strip_hash_def fragment_escaped_def)
  then show ?thesis using assms
    by (simp add: go_def begin_run_def Let_def render_route_def route_pages show_page_def run_answered_def answer_run_def)
qed

theorem slow_receipt_replaces_later_page:
  assumes "route (browser_hash h) = Inr (Receipt rid)" and "ss_loading s = []" and "ss_hash s \<noteq> browser_hash h"
    and "render_receipt (se_receipt env) rid reply = Inr v"
  shows "let s' = receipt_answered env 0 reply (go ''#/verify'' (go h s)) in
    ss_hash s' = ''#/verify'' \<and> ss_screen s' = PageShown (Receipt rid)"
proof -
  have v: "browser_hash ''#/verify'' = ''#/verify''" by (simp add: browser_hash_def strip_hash_def fragment_escaped_def)
  moreover have "browser_hash h \<noteq> ''#/verify''" using assms(1) route_pages by auto
  ultimately show ?thesis using assms
    by (cases v) (simp_all add: receipt_answered_def go_def render_route_def show_page_def route_pages Let_def)
qed

section \<open>A visit\<close>

definition sample_session_env :: session_env where
  "sample_session_env = \<lparr>se_css = sample_css, se_reduce = True, se_animate = False, se_emsg = (\<lambda>_. ''error''),
     se_time = nat_str, se_rnd = ''r'', se_verifier = (\<lambda>_. Inl (NetFailure ''no verifier'')), se_canon = ident_canon,
     se_origin = ''https://play.infrix''\<rparr>"

definition sample_config :: fetched where
  "sample_config = Got \<lparr>rs_ok = True, rs_status = 200, rs_json = Some default_config, rs_text = ''''\<rparr>"

lemma sample_boot:
  "\<exists>s0. boot_session sample_session_env True ''#/'' sample_config t = Inr s0 \<and> ss_hash s0 = ''#/'' \<and> ss_runs s0 = []"
  by (simp add: boot_session_def boot_def Let_def sample_config_def load_config_def api_def default_config_def obj_get_simps
      first_app_def update_footer_claim_def route_pages render_route_def show_page_def first_session_def)

theorem one_tab_marked_witness:
  "\<exists>s. nav_marks (ss_links (session_run sample_session_env [SampleAnswered (NetFail ''offline'')] (go ''#/lab'' s))) =
     [(Some ''home'', None), (Some ''verify'', None), (Some ''lab'', Some ''page''), (Some ''status'', None)]"
proof -
  obtain s0 where s0: "boot_session sample_session_env True ''#/'' sample_config sample_tele = Inr s0" "ss_hash s0 = ''#/''"
    using sample_boot by blast
  have h: "browser_hash ''#/lab'' = ''#/lab''" by (simp add: browser_hash_def strip_hash_def fragment_escaped_def)
  have r: "reach {s0} (session_step sample_session_env) s0" by (simp add: reach_init)
  have p: "route (browser_hash ''#/lab'') = Inr Lab" by (simp add: h route_pages)
  have n: "browser_hash ''#/lab'' \<noteq> ss_hash s0" by (simp add: h s0)
  have st: "stays sample_session_env [SampleAnswered (NetFail ''offline'')] (go ''#/lab'' s0)" by (simp add: opens_page_def)
  from one_tab_marked [OF s0(1) r p n st] show ?thesis
    by (intro exI [of _ s0]) (simp add: h tab_for_def nav_tabs_def)
qed

theorem visit_silent_without_consent_witness:
  "\<exists>s0. boot_session sample_session_env True ''#/'' sample_config sample_tele = Inr s0 \<and>
     tl_sent (session_tele (session_run sample_session_env
       [Visit ''#/lab'', SampleAnswered sample_config, LabCalled 0 (Finish 0), HomeAction False (StartRun ''anonymous'' ''''),
        RunAnswered None 0 (NetFail ''offline'')] s0)) = []"
proof -
  obtain s0 where s0: "boot_session sample_session_env True ''#/'' sample_config sample_tele = Inr s0"
    using sample_boot by blast
  have "so_look (tl_local sample_tele) tele_key \<noteq> Some ''1''" by (simp add: sample_tele_def empty_storage_def so_look_def)
  from visit_silent_without_consent [OF s0 this, of "[Visit ''#/lab'', SampleAnswered sample_config, LabCalled 0 (Finish 0),
      HomeAction False (StartRun ''anonymous'' ''''), RunAnswered None 0 (NetFail ''offline'')]"] s0
  show ?thesis by (simp add: sample_tele_def)
qed


lemma sealing_run:
  "\<exists>re t0 c t. start_run sample_css None False True False sample_started [] = Inr (re, t0, c) \<and>
     reach {t0} (theater_step re) t \<and> t_pc t = Sealing (JStr ''r1'') \<and> string_labels re \<and>
     t_stream t = map node_frame [StateEvent ''running'', StateEvent ''complete''] @ done_frame ''r1'' # []"
proof -
  obtain re t0 c where r: "start_run sample_css None False True False sample_started [] = Inr (re, t0, c)" "string_labels re"
    using sample_run by blast
  have st: "t0 = start_theater (t_view t0)" using start_run_view [OF r(1)] by simp
  let ?st = "\<lambda>x. node_frame (StateEvent x)"
  have p: "json_parse (json_text (done_frame ''r1'')) = Inr (done_frame ''r1'')"
    "json_parse (json_text (?st x)) = Inr (?st x)" for x
    by (rule json_parse_text, simp add: done_frame_def)+
  have q: "on_event re (?st x) v = Inr (Ignore, v)" for x v
    by (simp add: on_event_def obj_get_simps proto_member_def proto_methods_def)
  obtain now sp where sp: "spine_seal (v_spine (t_view t0)) = (now, sp)" by (cases "spine_seal (v_spine (t_view t0))")
  obtain t where t: "theater_run re [Frame (json_text (?st ''running'')), Resume, Frame (json_text (?st ''complete'')), Resume,
       Frame (json_text (done_frame ''r1'')), Resume] (start_theater (t_view t0)) = Some t"
    "t_pc t = Sealing (JStr ''r1'')" "t_stream t = [?st ''running'', ?st ''complete'', done_frame ''r1'']"
    using p sp q
    by (simp add: start_theater_def await_next_def chan_defs resume_def settle_reaction_def t_stream_def del: node_frame.simps)
      (simp add: on_event_def on_done_def done_frame_def obj_get_simps proto_member_def proto_methods_def emit_def)
  have "reach {start_theater (t_view t0)} (theater_step re) t"
    by (rule theater_run_reach [OF t(1)]) (simp add: reach_init)
  with r t st show ?thesis by (auto simp del: node_frame.simps)
qed

theorem sealed_run_takes_the_page_witness:
  "\<exists>s. ss_screen s = PageShown Verify \<and> ss_screen (run_ticked sample_session_env 0 Timer s) = PageShown (Receipt ''r1'')"
proof -
  obtain re t0 c t where t: "start_run sample_css None False True False sample_started [] = Inr (re, t0, c)"
    "reach {t0} (theater_step re) t" "t_pc t = Sealing (JStr ''r1'')" "string_labels re"
    "t_stream t = map node_frame [StateEvent ''running'', StateEvent ''complete''] @ done_frame ''r1'' # []" using sealing_run by blast
  let ?s = "(first_session ''#/verify'' sample_tele)\<lparr>ss_screen := PageShown Verify, ss_runs := [(re, t)]\<rparr>"
  have u: "utf8_text ''r1''" by (simp add: utf8_text.simps seq_len_def)
  have h: "ss_hash ?s \<noteq> browser_hash (receipt_link ''r1'')"
    by (simp add: first_session_def receipt_link_def browser_hash_def strip_hash_def fragment_escaped_def)
  have g: "list_all (going_on (v_spine (t_view t0))) [StateEvent ''running'', StateEvent ''complete'']" by simp
  from sealed_run_takes_the_page [OF t(1-4) g _ t(5) u, of 0 ?s sample_session_env] h
  show ?thesis by (intro exI [of _ ?s]) (simp add: Let_def)
qed

theorem home_link_dead_during_run_witness:
  "(let s1 = session_run sample_session_env [RunAnswered None 0 (NetFail ''offline'')]
      (begin_run ''anonymous'' '''' (first_session ''#/'' sample_tele)) in go ''#/'' s1 = s1) \<and>
   ss_screen (go ''#/'' (begin_run ''anonymous'' '''' (first_session '''' sample_tele))) = PageShown Home"
proof -
  have st: "stays sample_session_env [RunAnswered None 0 (NetFail ''offline'')] (begin_run m f s)"
    "stays sample_session_env [] (begin_run m f s)" for m f s
    by (simp_all add: opens_page_def)
  have h: "ss_hash (first_session h t) = h" for h t by (simp add: first_session_def)
  show ?thesis
    using home_link_dead_during_run [OF st(1), of "''anonymous''" "''''" "first_session ''#/'' sample_tele"]
      home_link_dead_during_run [OF st(2), of "''anonymous''" "''''" "first_session '''' sample_tele"]
    by (simp add: h Let_def session_run_def)
qed

theorem late_run_error_on_other_page_witness:
  "ss_errors (run_answered sample_session_env None 0 (NetFail ''offline'')
     (go ''#/verify'' (begin_run ''anonymous'' '''' (first_session ''#/'' sample_tele)))) =
     [failure_error (\<lambda>_. ''error'') (NetFailure ''offline'')]"
  using late_run_error_on_other_page [of "first_session ''#/'' sample_tele" "NetFail ''offline''" "NetFailure ''offline''"
      sample_session_env None "''anonymous''" "''''"]
  by (simp add: first_session_def api_def sample_session_env_def Let_def)

theorem slow_receipt_replaces_later_page_witness:
  "ss_screen (receipt_answered sample_session_env 0 (NetFail ''offline'')
     (go ''#/verify'' (go ''#/r/r1'' (first_session ''#/'' sample_tele)))) = PageShown (Receipt ''r1'')"
proof -
  have "route (browser_hash ''#/r/r1'') = Inr (Receipt ''r1'')"
    using route_receipt_link [of "''r1''"] by (simp add: receipt_link_def utf8_text.simps seq_len_def)
  moreover have "browser_hash ''#/r/r1'' \<noteq> ''#/''" by (simp add: browser_hash_def strip_hash_def fragment_escaped_def)
  moreover have "\<exists>v. render_receipt (se_receipt sample_session_env) ''r1'' (NetFail ''offline'') = Inr v"
    by (simp add: render_receipt_def api_def)
  ultimately show ?thesis using slow_receipt_replaces_later_page [of "''#/r/r1''" "''r1''" "first_session ''#/'' sample_tele"]
    by (auto simp: first_session_def Let_def)
qed

end
