(* ===== verification/TamperHeap.thy ===== *)
theory TamperHeap
  imports Tamper
begin

text \<open>
  The forgery engine of \<open>web/tamper.js\<close> on an explicit store of objects. In \<open>Tamper\<close> a
  package is a value and a mutator returns the edited value; here objects and arrays are cells
  of a heap, a value is a primitive or a reference, and the mutators assign to cells as the
  code does. The refinement says that both agree, and that the package the forgery was asked
  for keeps every cell: only the clone is edited.
\<close>

section \<open>The store\<close>

text \<open>\<open>HV p\<close> holds a primitive.\<close>

datatype hval = HV jsval | HRef nat

datatype cell = CArr "hval list" | CObj "(string \<times> hval) list"

record heap =
  hp_cells :: "nat \<Rightarrow> cell option"
  hp_next :: nat

definition h_alloc :: "cell \<Rightarrow> heap \<Rightarrow> hval \<times> heap" where
  "h_alloc c h = (HRef (hp_next h), h\<lparr>hp_cells := (hp_cells h)(hp_next h \<mapsto> c), hp_next := hp_next h + 1\<rparr>)"

definition h_write :: "nat \<Rightarrow> cell \<Rightarrow> heap \<Rightarrow> heap" where
  "h_write a c h = h\<lparr>hp_cells := (hp_cells h)(a \<mapsto> c)\<rparr>"

fun h_truthy :: "hval \<Rightarrow> bool" where
  "h_truthy (HV p) = truthy p"
| "h_truthy (HRef a) = True"

definition h_cell :: "heap \<Rightarrow> hval \<Rightarrow> cell option" where
  "h_cell h v = (case v of HRef a \<Rightarrow> hp_cells h a | HV _ \<Rightarrow> None)"

text \<open>Property reads and writes, and \<open>v[0]\<close>.\<close>

definition h_get :: "heap \<Rightarrow> hval \<Rightarrow> string \<Rightarrow> hval res" where
  "h_get h v k = (case v of
     HV p \<Rightarrow> rbind (get_prop p k) (\<lambda>x. Inr (HV x))
   | HRef a \<Rightarrow> (case hp_cells h a of
       Some (CObj kvs) \<Rightarrow> Inr (case map_of kvs k of Some w \<Rightarrow> w | None \<Rightarrow> HV (proto_member k))
     | Some (CArr vs) \<Rightarrow> Inr (HV (if k = ''length'' then jint (int (length vs)) else proto_member k))
     | None \<Rightarrow> Inl TypeErr))"

definition h_set :: "hval \<Rightarrow> string \<Rightarrow> hval \<Rightarrow> heap \<Rightarrow> heap res" where
  "h_set v k w h = (case v of
     HV p \<Rightarrow> rbind (set_prop p k JUndef) (\<lambda>_. Inr h)
   | HRef a \<Rightarrow> (case hp_cells h a of
       Some (CObj kvs) \<Rightarrow> Inr (h_write a (CObj (AList.update k w kvs)) h)
     | Some (CArr vs) \<Rightarrow> Inr h
     | None \<Rightarrow> Inl TypeErr))"

definition h_index0 :: "heap \<Rightarrow> hval \<Rightarrow> hval res" where
  "h_index0 h v = (case v of
     HV p \<Rightarrow> rbind (index0 p) (\<lambda>x. Inr (HV x))
   | HRef a \<Rightarrow> (case hp_cells h a of
       Some (CObj kvs) \<Rightarrow> Inr (case map_of kvs ''0'' of Some w \<Rightarrow> w | None \<Rightarrow> HV JUndef)
     | Some (CArr vs) \<Rightarrow> Inr (case vs of [] \<Rightarrow> HV JUndef | w # _ \<Rightarrow> w)
     | None \<Rightarrow> Inl TypeErr))"

text \<open>
  What a deep reader such as \<open>JSON.stringify\<close> sees: the value below a reference. The fuel is
  the number of cells, which a structure without cycles cannot exceed in depth; a cycle is
  the exception \<open>JSON.stringify\<close> throws.
\<close>

fun h_load :: "nat \<Rightarrow> heap \<Rightarrow> hval \<Rightarrow> jsval option" where
  "h_load 0 h v = None"
| "h_load (Suc n) h v = (case v of
     HV p \<Rightarrow> Some p
   | HRef a \<Rightarrow> (case hp_cells h a of
       Some (CArr vs) \<Rightarrow> map_option JArr (those (map (h_load n h) vs))
     | Some (CObj kvs) \<Rightarrow> map_option (\<lambda>xs. JObj (zip (map fst kvs) xs)) (those (map (h_load n h) (map snd kvs)))
     | None \<Rightarrow> None))"

definition h_deep :: "heap \<Rightarrow> hval \<Rightarrow> jsval res" where
  "h_deep h v = (case h_load (hp_next h + 1) h v of Some x \<Rightarrow> Inr x | None \<Rightarrow> Inl TypeErr)"

text \<open>What \<open>JSON.parse\<close> and \<open>Array.from\<close> build: a value in new cells.\<close>

fun h_store :: "jsval \<Rightarrow> heap \<Rightarrow> hval \<times> heap"
  and h_stores :: "jsval list \<Rightarrow> heap \<Rightarrow> hval list \<times> heap"
  and h_members :: "(string \<times> jsval) list \<Rightarrow> heap \<Rightarrow> (string \<times> hval) list \<times> heap" where
  "h_store (JArr xs) h = (let (vs, h1) = h_stores xs h in h_alloc (CArr vs) h1)"
| "h_store (JObj kvs) h = (let (ms, h1) = h_members kvs h in h_alloc (CObj ms) h1)"
| "h_store p h = (HV p, h)"
| "h_stores [] h = ([], h)"
| "h_stores (x # xs) h = (let (v, h1) = h_store x h; (vs, h2) = h_stores xs h1 in (v # vs, h2))"
| "h_members [] h = ([], h)"
| "h_members ((k, x) # kvs) h = (let (v, h1) = h_store x h; (ms, h2) = h_members kvs h1 in ((k, v) # ms, h2))"

section \<open>The engine on the store\<close>

definition h_stringify :: "heap \<Rightarrow> hval \<Rightarrow> jsval res" where
  "h_stringify h v = rbind (h_deep h v) (\<lambda>x. Inr (json_stringify x))"

definition h_parse :: "string \<Rightarrow> heap \<Rightarrow> (hval \<times> heap) res" where
  "h_parse s h = rbind (json_parse s) (\<lambda>x. Inr (h_store x h))"

definition h_clone :: "hval \<Rightarrow> heap \<Rightarrow> (hval \<times> heap) res" where
  "h_clone v h = rbind (h_stringify h v) (\<lambda>s. case s of JStr t \<Rightarrow> h_parse t h | _ \<Rightarrow> Inl SyntaxErr)"

definition h_with_bundle :: "(hval \<Rightarrow> heap \<Rightarrow> heap res) \<Rightarrow> hval \<Rightarrow> heap \<Rightarrow> heap res" where
  "h_with_bundle fn pkg h = rbind (h_get h pkg ''bundleData'') (\<lambda>bd0. case bd0 of
     HV (JStr s) \<Rightarrow> rbind (h_parse s h) (\<lambda>(bd, h1). rbind (fn bd h1) (\<lambda>h2.
        rbind (h_stringify h2 bd) (\<lambda>t. h_set pkg ''bundleData'' (HV t) h2)))
   | _ \<Rightarrow> rbind (fn bd0 h) (\<lambda>h1. h_set pkg ''bundleData'' bd0 h1))"

definition h_or_array :: "hval \<Rightarrow> heap \<Rightarrow> hval \<times> heap" where
  "h_or_array v h = (if h_truthy v then (v, h) else h_alloc (CArr []) h)"

definition h_approvals :: "hval \<Rightarrow> heap \<Rightarrow> (hval \<times> heap) res" where
  "h_approvals bd h = rbind (h_get h bd ''approvalEvidence'') (\<lambda>a.
     if h_truthy a then Inr (a, h)
     else rbind (h_get h bd ''ApprovalEvidence'') (\<lambda>b. Inr (h_or_array b h)))"

text \<open>\<open>const x = c[0]; if (x) f(x)\<close>\<close>

definition h_on_first :: "(hval \<Rightarrow> heap \<Rightarrow> heap res) \<Rightarrow> hval \<Rightarrow> heap \<Rightarrow> heap res" where
  "h_on_first f c h = rbind (h_index0 h c) (\<lambda>x. if h_truthy x then f x h else Inr h)"

definition h_edit_first :: "string \<Rightarrow> (hval \<Rightarrow> heap \<Rightarrow> heap res) \<Rightarrow> hval \<Rightarrow> heap \<Rightarrow> heap res" where
  "h_edit_first k f p h = rbind (h_get h p k) (\<lambda>c0. let (c, h1) = h_or_array c0 h in h_on_first f c h1)"

definition h_edit_approval :: "(hval \<Rightarrow> heap \<Rightarrow> heap res) \<Rightarrow> hval \<Rightarrow> heap \<Rightarrow> heap res" where
  "h_edit_approval f bd h = rbind (h_approvals bd h) (\<lambda>(c, h1). h_on_first f c h1)"

definition h_flip_first :: "hval \<Rightarrow> heap \<Rightarrow> (hval \<times> heap) res" where
  "h_flip_first v h = (case h_cell h v of
     Some (CArr (b # bs)) \<Rightarrow> rbind (rbind (h_deep h b) flip_byte) (\<lambda>b'. Inr (h_alloc (CArr (HV b' # bs)) h))
   | _ \<Rightarrow> Inr (v, h))"

definition h_is_arr :: "heap \<Rightarrow> hval \<Rightarrow> bool" where
  "h_is_arr h v = (case h_cell h v of Some (CArr _) \<Rightarrow> True | _ \<Rightarrow> False)"

definition h_flip_prop :: "string \<Rightarrow> hval \<Rightarrow> heap \<Rightarrow> heap res" where
  "h_flip_prop k v h = rbind (h_get h v k) (\<lambda>x.
     if h_is_arr h x then rbind (h_flip_first x h) (\<lambda>(y, h1). h_set v k y h1) else Inr h)"

definition h_drop_first :: "string \<Rightarrow> hval \<Rightarrow> heap \<Rightarrow> heap res" where
  "h_drop_first k bd h = rbind (h_get h bd k) (\<lambda>d. case h_cell h d of
     Some (CArr (_ # ds)) \<Rightarrow> (let (w, h1) = h_alloc (CArr ds) h in h_set bd k w h1)
   | _ \<Rightarrow> Inr h)"

definition h_on_link :: "(hval \<Rightarrow> heap \<Rightarrow> heap res) \<Rightarrow> hval \<Rightarrow> heap \<Rightarrow> heap res" where
  "h_on_link f pr h = rbind (h_get h pr ''link'') (\<lambda>l. if h_truthy l then f l h else Inr h)"

definition h_mutators :: "(string \<times> (hval \<Rightarrow> heap \<Rightarrow> heap res)) list" where
  "h_mutators = [
     (''approver'', h_with_bundle (h_edit_approval (\<lambda>a. h_set a ''identity'' (HV (JStr ''acc://attacker.evil/admin''))))),
     (''planhash'', h_with_bundle (h_edit_approval (h_flip_prop ''planHash''))),
     (''outcome'', h_flip_prop ''outcomeDigest''),
     (''chainhash'', h_edit_first ''inclusionProofs'' (h_on_link (h_flip_prop ''contentHash''))),
     (''policy'', h_with_bundle (h_drop_first ''policyDecisions'')),
     (''trust'', h_edit_first ''trustSnapshot'' (\<lambda>s. h_set s ''blockHeight'' (HV (jint 0)))),
     (''plugin'', h_edit_first ''pluginVersions'' (\<lambda>pv. h_set pv ''implementationHash'' (HV (JStr ''''))))]"

definition h_reseal :: "canon \<Rightarrow> hval \<Rightarrow> heap \<Rightarrow> heap res" where
  "h_reseal cn p h = rbind (h_deep h p) (\<lambda>x. rbind (intermediate cn x) (\<lambda>i. rbind (canon_hash cn i) (\<lambda>bs.
     let (w, h1) = h_store (JArr bs) h in h_set p ''exportHash'' w h1)))"

definition h_apply_forgery :: "canon \<Rightarrow> hval \<Rightarrow> string \<Rightarrow> heap \<Rightarrow> (hval \<times> forgery \<times> heap) res" where
  "h_apply_forgery cn pkg fid h =
     (case List.find (\<lambda>f. f_id f = fid) FORGERIES of
        None \<Rightarrow> Inl (Thrown (''unknown forgery '' @ fid))
      | Some f \<Rightarrow>
          rbind (h_clone pkg h) (\<lambda>(p, h1).
          rbind (the (map_of h_mutators fid) p h1) (\<lambda>h2.
          if f_reseal f then rbind (h_reseal cn p h2) (\<lambda>h3. Inr (p, f, h3)) else Inr (p, f, h2))))"

section \<open>Owning a value\<close>

text \<open>
  \<open>own h v x R\<close>: from \<open>v\<close> the heap shows the value \<open>x\<close>, in the cells \<open>R\<close>, each of
  them reached once.
\<close>

fun is_prim :: "jsval \<Rightarrow> bool" where
  "is_prim (JArr _) = False"
| "is_prim (JObj _) = False"
| "is_prim _ = True"

inductive own :: "heap \<Rightarrow> hval \<Rightarrow> jsval \<Rightarrow> nat set \<Rightarrow> bool"
  and owns :: "heap \<Rightarrow> hval list \<Rightarrow> jsval list \<Rightarrow> nat set \<Rightarrow> bool" for h :: heap where
  own_prim: "is_prim p \<Longrightarrow> own h (HV p) p {}"
| own_arr: "hp_cells h a = Some (CArr vs) \<Longrightarrow> owns h vs xs R \<Longrightarrow> a \<notin> R \<Longrightarrow> own h (HRef a) (JArr xs) (insert a R)"
| own_obj: "hp_cells h a = Some (CObj ms) \<Longrightarrow> map fst ms = map fst kvs \<Longrightarrow> owns h (map snd ms) (map snd kvs) R \<Longrightarrow>
    a \<notin> R \<Longrightarrow> own h (HRef a) (JObj kvs) (insert a R)"
| owns_nil: "owns h [] [] {}"
| owns_cons: "own h v x R \<Longrightarrow> owns h vs xs S \<Longrightarrow> R \<inter> S = {} \<Longrightarrow> owns h (v # vs) (x # xs) (R \<union> S)"

inductive_cases own_objE: "own h v (JObj kvs) R"
inductive_cases own_arrE: "own h v (JArr xs) R"
inductive_cases own_HVE: "own h (HV p) x R"
inductive_cases owns_NilE: "owns h [] xs R"
inductive_cases owns_ConsE: "owns h (v # vs) xs R"

lemma own_primD: "own h v x R \<Longrightarrow> is_prim x \<Longrightarrow> v = HV x \<and> R = {}"
  by (cases rule: own.cases) auto

lemma own_owns_frame:
  "own h v x R \<Longrightarrow> (\<And>a. a \<in> R \<Longrightarrow> hp_cells h' a = hp_cells h a) \<Longrightarrow> own h' v x R"
  "owns h vs xs R \<Longrightarrow> (\<And>a. a \<in> R \<Longrightarrow> hp_cells h' a = hp_cells h a) \<Longrightarrow> owns h' vs xs R"
  by (induction rule: own_owns.inducts) (auto intro!: own_owns.intros)

lemmas own_frame = own_owns_frame(1) and owns_frame = own_owns_frame(2)

lemma own_prim_iff: "is_prim x \<Longrightarrow> own h v x R \<longleftrightarrow> v = HV x \<and> R = {}"
  by (auto dest: own_primD intro: own_prim)

lemma own_truthy: "own h v x R \<Longrightarrow> h_truthy v = truthy x"
  by (erule own.cases) simp_all

lemma those_Some: "those (map Some xs) = Some xs"
  by (induction xs) simp_all

text \<open>A deep read ends: the value is not deeper than the number of its cells.\<close>

lemma own_load:
  "own h v x R \<Longrightarrow> finite R \<and> (\<forall>n > card R. h_load n h v = Some x)"
  "owns h vs xs R \<Longrightarrow> finite R \<and> (\<forall>n > card R. map (h_load n h) vs = map Some xs)"
proof (induction rule: own_owns.inducts)
  case (own_prim p)
  then show ?case by (auto simp: less_iff_Suc_add)
next
  case (own_arr a vs xs R)
  then show ?case by (auto simp: less_iff_Suc_add those_Some)
next
  case (own_obj a ms kvs R)
  then have "zip (map fst ms) (map snd kvs) = kvs" by (simp add: zip_map_fst_snd)
  with own_obj show ?case by (auto simp: less_iff_Suc_add those_Some simp del: map_map)
next
  case (owns_cons v x R vs xs S)
  then have "card R \<le> card (R \<union> S)" "card S \<le> card (R \<union> S)" by (auto intro: card_mono)
  with owns_cons show ?case by auto
qed simp

definition below :: "heap \<Rightarrow> nat set \<Rightarrow> bool" where
  "below h R \<longleftrightarrow> R \<subseteq> {..<hp_next h}"

lemma own_deep: "own h v x R \<Longrightarrow> below h R \<Longrightarrow> h_deep h v = Inr x"
proof -
  assume o: "own h v x R" and "below h R"
  then have "card R \<le> card {..<hp_next h}" unfolding below_def by (intro card_mono) simp_all
  then show ?thesis using own_load(1) [OF o] by (simp add: h_deep_def del: h_load.simps)
qed

definition fresh :: "heap \<Rightarrow> heap \<Rightarrow> nat set" where
  "fresh h h' = {hp_next h..<hp_next h'}"

definition grows :: "heap \<Rightarrow> heap \<Rightarrow> bool" where
  "grows h h' \<longleftrightarrow> hp_next h \<le> hp_next h' \<and> (\<forall>a < hp_next h. hp_cells h' a = hp_cells h a)"

lemma grows_refl [simp]: "grows h h"
  by (simp add: grows_def)

lemma grows_trans: "grows h h1 \<Longrightarrow> grows h1 h2 \<Longrightarrow> grows h h2"
  by (simp add: grows_def)

lemma fresh_refl [simp]: "fresh h h = {}"
  by (simp add: fresh_def)

lemma fresh_trans: "grows h h1 \<Longrightarrow> grows h1 h2 \<Longrightarrow> fresh h h2 = fresh h h1 \<union> fresh h1 h2"
  by (auto simp: fresh_def grows_def)

lemma fresh_disjoint: "fresh h h1 \<inter> fresh h1 h2 = {}"
  by (auto simp: fresh_def)

lemma grows_alloc: "h_alloc c h = (v, h') \<Longrightarrow> grows h h'"
  by (auto simp: h_alloc_def grows_def)

text \<open>A new cell over values already in new cells.\<close>

lemma owns_alloc:
  assumes "owns h1 vs xs (fresh h h1)" and "grows h h1" and "h_alloc (CArr vs) h1 = (v, h')"
  shows "own h' v (JArr xs) (fresh h h')"
proof -
  have "owns h' vs xs (fresh h h1)"
    using assms(3) by (intro owns_frame [OF assms(1)]) (auto simp: h_alloc_def fresh_def)
  moreover have "fresh h h' = insert (hp_next h1) (fresh h h1)"
    using assms(2,3) by (auto simp: h_alloc_def fresh_def grows_def)
  ultimately show ?thesis using assms(3)
    by (auto simp: h_alloc_def fresh_def intro!: own_arr)
qed

lemma owns_alloc_obj:
  assumes "owns h1 (map snd ms) (map snd kvs) (fresh h h1)" and "map fst ms = map fst kvs"
    and "grows h h1" and "h_alloc (CObj ms) h1 = (v, h')"
  shows "own h' v (JObj kvs) (fresh h h')"
proof -
  have "owns h' (map snd ms) (map snd kvs) (fresh h h1)"
    using assms(4) by (intro owns_frame [OF assms(1)]) (auto simp: h_alloc_def fresh_def)
  moreover have "fresh h h' = insert (hp_next h1) (fresh h h1)"
    using assms(3,4) by (auto simp: h_alloc_def fresh_def grows_def)
  ultimately show ?thesis using assms(2,4)
    by (auto simp: h_alloc_def fresh_def intro!: own_obj)
qed

lemma owns_store_cons:
  assumes "own h1 v x (fresh h h1)" and "grows h h1" and "owns h2 vs xs (fresh h1 h2)" and "grows h1 h2"
  shows "owns h2 (v # vs) (x # xs) (fresh h h2)"
proof -
  have "own h2 v x (fresh h h1)"
    using assms(4) by (intro own_frame [OF assms(1)]) (auto simp: fresh_def grows_def)
  then show ?thesis
    unfolding fresh_trans [OF assms(2,4)] by (rule owns_cons [OF _ assms(3) fresh_disjoint])
qed

text \<open>What \<open>JSON.parse\<close> builds is owned and new.\<close>

lemma store_own_all:
  "case h_store x h of (v, h') \<Rightarrow> own h' v x (fresh h h') \<and> grows h h'"
  "case h_stores xs h of (vs, h') \<Rightarrow> owns h' vs xs (fresh h h') \<and> grows h h'"
  "case h_members kvs h of (ms, h') \<Rightarrow> owns h' (map snd ms) (map snd kvs) (fresh h h') \<and>
     map fst ms = map fst kvs \<and> grows h h'"
proof (induction x h and xs h and kvs h rule: h_store_h_stores_h_members.induct)
  case (1 xs h)
  then show ?case
    by (auto split: prod.splits intro: owns_alloc grows_trans grows_alloc)
next
  case (2 kvs h)
  then show ?case
    by (auto split: prod.splits intro: owns_alloc_obj grows_trans grows_alloc)
qed (auto simp: own_prim_iff owns_nil split: prod.splits intro: owns_store_cons grows_trans)

lemma store_own: "h_store x h = (v, h') \<Longrightarrow> own h' v x (fresh h h') \<and> grows h h'"
  using store_own_all(1) [of x h] by simp

section \<open>Editing below a value\<close>

definition same_on :: "nat set \<Rightarrow> heap \<Rightarrow> heap \<Rightarrow> bool" where
  "same_on A h h' \<longleftrightarrow> (\<forall>a\<in>A. hp_cells h' a = hp_cells h a)"

lemma same_onD: "same_on A h h' \<Longrightarrow> a \<in> A \<Longrightarrow> hp_cells h' a = hp_cells h a"
  by (simp add: same_on_def)

lemma same_on_mono: "same_on A h h' \<Longrightarrow> B \<subseteq> A \<Longrightarrow> same_on B h h'"
  by (auto simp: same_on_def)

lemma own_same: "own h v x R \<Longrightarrow> same_on R h h' \<Longrightarrow> own h' v x R"
  by (erule own_frame) (simp add: same_on_def)

lemma owns_same: "owns h vs xs R \<Longrightarrow> same_on R h h' \<Longrightarrow> owns h' vs xs R"
  by (erule owns_frame) (simp add: same_on_def)

text \<open>
  \<open>focus h v x R w y S u\<close>: below \<open>v\<close> the heap holds \<open>y\<close> at \<open>w\<close>, and after any edit
  that stays inside \<open>S\<close> or new cells, \<open>v\<close> shows \<open>u\<close> of the edited value.
\<close>

definition focus :: "heap \<Rightarrow> hval \<Rightarrow> jsval \<Rightarrow> nat set \<Rightarrow> hval \<Rightarrow> jsval \<Rightarrow> nat set \<Rightarrow> (jsval \<Rightarrow> jsval) \<Rightarrow> bool" where
  "focus h v x R w y S u \<longleftrightarrow> own h w y S \<and> S \<subseteq> R \<and>
     (\<forall>h' y' S'. own h' w y' S' \<longrightarrow> S' \<inter> (R - S) = {} \<longrightarrow> same_on (R - S) h h' \<longrightarrow>
        own h' v (u y') (R - S \<union> S'))"

lemma focusD:
  "focus h v x R w y S u \<Longrightarrow> own h' w y' S' \<Longrightarrow> S' \<inter> (R - S) = {} \<Longrightarrow> same_on (R - S) h h' \<Longrightarrow>
   own h' v (u y') (R - S \<union> S')"
  by (simp add: focus_def)

lemma focus_own: "focus h v x R w y S u \<Longrightarrow> own h w y S \<and> S \<subseteq> R"
  by (simp add: focus_def)

lemma focus_trans:
  assumes f: "focus h v x R w y S u1" and g: "focus h w y S z T Q u2"
  shows "focus h v x R z T Q (u1 \<circ> u2)"
  unfolding focus_def
proof (intro conjI allI impI)
  show "own h z T Q" "Q \<subseteq> R" using focus_own [OF f] focus_own [OF g] by auto
  fix h' y' S'
  assume a: "own h' z y' S'" "S' \<inter> (R - Q) = {}" "same_on (R - Q) h h'"
  have sub: "S \<subseteq> R" "Q \<subseteq> S" using focus_own [OF f] focus_own [OF g] by auto
  have "own h' w (u2 y') (S - Q \<union> S')"
    using a sub by (intro focusD [OF g a(1)]) (auto simp: same_on_def)
  then have "own h' v (u1 (u2 y')) (R - S \<union> (S - Q \<union> S'))"
    using a sub by (intro focusD [OF f]) (auto simp: same_on_def)
  moreover have "R - S \<union> (S - Q \<union> S') = R - Q \<union> S'" using sub by blast
  ultimately show "own h' v ((u1 \<circ> u2) y') (R - Q \<union> S')" by simp
qed

text \<open>A member of an object, also when the property is given another value.\<close>

lemma owns_member:
  "map fst ms = map fst kvs \<Longrightarrow> owns h (map snd ms) (map snd kvs) R \<Longrightarrow> map_of kvs k = Some y \<Longrightarrow>
   \<exists>w S. map_of ms k = Some w \<and> own h w y S \<and> S \<subseteq> R \<and>
     (\<forall>h' w' y' S'. own h' w' y' S' \<longrightarrow> S' \<inter> (R - S) = {} \<longrightarrow> same_on (R - S) h h' \<longrightarrow>
        owns h' (map snd (AList.update k w' ms)) (map snd (AList.update k y' kvs)) (R - S \<union> S'))"
proof (induction kvs arbitrary: ms R)
  case Nil
  then show ?case by simp
next
  case (Cons p kvs)
  obtain k0 x0 where p: "p = (k0, x0)" by (cases p)
  obtain v0 ms' where ms: "ms = (k0, v0) # ms'" "map fst ms' = map fst kvs"
    using Cons.prems(1) p by (cases ms) auto
  from Cons.prems(2) obtain A B where AB: "own h v0 x0 A" "owns h (map snd ms') (map snd kvs) B"
    "A \<inter> B = {}" "R = A \<union> B"
    unfolding ms p by (auto elim: owns_ConsE)
  show ?case
  proof (cases "k0 = k")
    case True
    have "owns h' (w' # map snd ms') (y' # map snd kvs) (R - A \<union> S')"
      if "own h' w' y' S'" "S' \<inter> (R - A) = {}" "same_on (R - A) h h'" for h' w' y' S'
    proof -
      have B: "R - A = B" using AB by blast
      have "owns h' (map snd ms') (map snd kvs) B" using that(3) B by (intro owns_same [OF AB(2)]) simp
      then have "owns h' (w' # map snd ms') (y' # map snd kvs) (S' \<union> B)"
        using that B by (intro owns_cons) auto
      then show ?thesis using B by (simp add: Un_commute)
    qed
    then show ?thesis using True AB Cons.prems(3) ms p by (intro exI [of _ v0] exI [of _ A]) auto
  next
    case False
    with Cons.prems(3) p have "map_of kvs k = Some y" by simp
    from Cons.IH [OF ms(2) AB(2) this] obtain w S where w: "map_of ms' k = Some w" "own h w y S" "S \<subseteq> B"
      and upd: "\<And>h' w' y' S'. own h' w' y' S' \<Longrightarrow> S' \<inter> (B - S) = {} \<Longrightarrow> same_on (B - S) h h' \<Longrightarrow>
        owns h' (map snd (AList.update k w' ms')) (map snd (AList.update k y' kvs)) (B - S \<union> S')"
      by blast
    have RS: "R - S = A \<union> (B - S)" using AB w(3) by blast
    have "owns h' (v0 # map snd (AList.update k w' ms')) (x0 # map snd (AList.update k y' kvs)) (R - S \<union> S')"
      if "own h' w' y' S'" "S' \<inter> (R - S) = {}" "same_on (R - S) h h'" for h' w' y' S'
    proof -
      have "own h' v0 x0 A" using that(3) RS by (intro own_same [OF AB(1)]) (auto simp: same_on_def)
      moreover have "owns h' (map snd (AList.update k w' ms')) (map snd (AList.update k y' kvs)) (B - S \<union> S')"
        using that RS by (intro upd) (auto simp: same_on_def)
      ultimately have "owns h' (v0 # map snd (AList.update k w' ms')) (x0 # map snd (AList.update k y' kvs))
          (A \<union> (B - S \<union> S'))"
        using that RS AB(3) by (intro owns_cons) auto
      then show ?thesis using RS by (simp add: Un_assoc)
    qed
    then show ?thesis using False w AB ms p by (intro exI [of _ w] exI [of _ S]) auto
  qed
qed

lemma update_same: "map_of ms k = Some w \<Longrightarrow> AList.update k w ms = ms"
  by (induction ms) auto

lemma update_append: "map_of ms k = None \<Longrightarrow> AList.update k w ms = ms @ [(k, w)]"
  by (induction ms) auto

lemma map_of_None_keys: "map fst ms = map fst kvs \<Longrightarrow> map_of kvs k = None \<Longrightarrow> map_of ms k = None"
  by (metis list.set_map map_of_eq_None_iff)

lemma update_fst_eq: "map fst ms = map fst kvs \<Longrightarrow>
  map fst (AList.update k w ms) = map fst (AList.update k y kvs)"
  by (simp add: update_keys)

lemma own_writeI:
  assumes "owns h (map snd ms) (map snd kvs) R" and "map fst ms = map fst kvs" and "a \<notin> R"
  shows "own (h_write a (CObj ms) h) (HRef a) (JObj kvs) (insert a R)"
proof -
  have "owns (h_write a (CObj ms) h) (map snd ms) (map snd kvs) R"
    using assms(3) by (intro owns_frame [OF assms(1)]) (auto simp: h_write_def)
  then show ?thesis using assms by (intro own_obj) (simp_all add: h_write_def)
qed

lemma obj_focus:
  assumes "own h v (JObj kvs) R" and "map_of kvs k = Some y"
  shows "\<exists>w S. h_get h v k = Inr w \<and> focus h v (JObj kvs) R w y S (\<lambda>y'. JObj (AList.update k y' kvs))"
proof -
  from assms(1) obtain a ms R0 where v: "v = HRef a" "R = insert a R0" "hp_cells h a = Some (CObj ms)"
    "map fst ms = map fst kvs" "owns h (map snd ms) (map snd kvs) R0" "a \<notin> R0"
    by (auto elim: own_objE)
  from owns_member [OF v(4,5) assms(2)] obtain w S where w: "map_of ms k = Some w" "own h w y S" "S \<subseteq> R0"
    and upd: "\<And>h' w' y' S'. own h' w' y' S' \<Longrightarrow> S' \<inter> (R0 - S) = {} \<Longrightarrow> same_on (R0 - S) h h' \<Longrightarrow>
        owns h' (map snd (AList.update k w' ms)) (map snd (AList.update k y' kvs)) (R0 - S \<union> S')"
    by blast
  have RS: "R - S = insert a (R0 - S)" using v w by blast
  have "own h' v (JObj (AList.update k y' kvs)) (R - S \<union> S')"
    if "own h' w y' S'" "S' \<inter> (R - S) = {}" "same_on (R - S) h h'" for h' y' S'
  proof -
    have "owns h' (map snd ms) (map snd (AList.update k y' kvs)) (R0 - S \<union> S')"
      using upd [OF that(1)] that(2,3) RS w(1) by (auto simp: same_on_def update_same)
    moreover have "hp_cells h' a = Some (CObj ms)" using that(3) RS v(3) by (simp add: same_on_def)
    moreover have "map fst ms = map fst (AList.update k y' kvs)"
      using update_fst_eq [OF v(4), of k w y'] w(1) by (simp add: update_same)
    ultimately have "own h' (HRef a) (JObj (AList.update k y' kvs)) (insert a (R0 - S \<union> S'))"
      using that(2) RS v(6) by (intro own_obj) auto
    then show ?thesis using v(1) RS by simp
  qed
  then have "focus h v (JObj kvs) R w y S (\<lambda>y'. JObj (AList.update k y' kvs))"
    using w v by (auto simp: focus_def)
  moreover have "h_get h v k = Inr w" using v w by (simp add: h_get_def)
  ultimately show ?thesis by blast
qed

text \<open>An assignment that gives an own property another value.\<close>

definition set_yields :: "hval \<Rightarrow> string \<Rightarrow> hval \<Rightarrow> heap \<Rightarrow> jsval \<Rightarrow> nat set \<Rightarrow> nat set \<Rightarrow> bool" where
  "set_yields v k w h x' R R' \<longleftrightarrow> (\<exists>h'. h_set v k w h = Inr h' \<and> own h' v x' R' \<and> hp_next h' = hp_next h \<and>
     (\<forall>b. b \<notin> R \<longrightarrow> hp_cells h' b = hp_cells h b))"

lemma obj_replace:
  assumes "own h v (JObj kvs) R" and "map_of kvs k = Some y"
  shows "\<exists>w S. h_get h v k = Inr w \<and> own h w y S \<and> S \<subseteq> R \<and>
    (\<forall>h' w' y' S'. own h' w' y' S' \<longrightarrow> S' \<inter> (R - S) = {} \<longrightarrow> same_on (R - S) h h' \<longrightarrow>
       set_yields v k w' h' (JObj (AList.update k y' kvs)) R (R - S \<union> S'))"
proof -
  from assms(1) obtain a ms R0 where v: "v = HRef a" "R = insert a R0" "hp_cells h a = Some (CObj ms)"
    "map fst ms = map fst kvs" "owns h (map snd ms) (map snd kvs) R0" "a \<notin> R0"
    by (auto elim: own_objE)
  from owns_member [OF v(4,5) assms(2)] obtain w S where w: "map_of ms k = Some w" "own h w y S" "S \<subseteq> R0"
    and upd: "\<And>h' w' y' S'. own h' w' y' S' \<Longrightarrow> S' \<inter> (R0 - S) = {} \<Longrightarrow> same_on (R0 - S) h h' \<Longrightarrow>
        owns h' (map snd (AList.update k w' ms)) (map snd (AList.update k y' kvs)) (R0 - S \<union> S')"
    by blast
  have RS: "R - S = insert a (R0 - S)" using v w by blast
  have "set_yields v k w' h' (JObj (AList.update k y' kvs)) R (R - S \<union> S')"
    if "own h' w' y' S'" "S' \<inter> (R - S) = {}" "same_on (R - S) h h'" for h' w' y' S'
  proof -
    have "owns h' (map snd (AList.update k w' ms)) (map snd (AList.update k y' kvs)) (R0 - S \<union> S')"
      using upd [OF that(1)] that(2,3) RS by (auto simp: same_on_def)
    from own_writeI [OF this update_fst_eq [OF v(4)], of a] that(2) RS v(6)
    have "own (h_write a (CObj (AList.update k w' ms)) h') v (JObj (AList.update k y' kvs)) (R - S \<union> S')"
      using v(1) by simp
    moreover have "hp_cells h' a = Some (CObj ms)" using that(3) RS v(3) by (simp add: same_on_def)
    ultimately show ?thesis using v by (simp add: set_yields_def h_set_def h_write_def)
  qed
  moreover have "h_get h v k = Inr w" using v w by (simp add: h_get_def)
  ultimately show ?thesis using w v(2) by blast
qed

lemma owns_append:
  assumes "owns h vs xs R" and "own h w y S" and "R \<inter> S = {}"
  shows "owns h (vs @ [w]) (xs @ [y]) (R \<union> S)"
  using assms
proof (induction vs arbitrary: xs R)
  case Nil
  then show ?case using owns_cons [OF Nil(2) owns_nil] by (auto elim: owns_NilE)
next
  case (Cons v vs)
  from Cons.prems(1) obtain x xs' A B where c: "xs = x # xs'" "own h v x A" "owns h vs xs' B" "A \<inter> B = {}" "R = A \<union> B"
    by (auto elim: owns_ConsE)
  have "owns h (vs @ [w]) (xs' @ [y]) (B \<union> S)" using Cons c by (intro Cons.IH) auto
  then have "owns h (v # vs @ [w]) (x # xs' @ [y]) (A \<union> (B \<union> S))" using c Cons.prems(3) by (intro owns_cons) auto
  then show ?case using c by (simp add: Un_assoc)
qed

lemma obj_append:
  assumes "own h v (JObj kvs) R" and "map_of kvs k = None" and "own h w y S" and "R \<inter> S = {}"
  shows "set_yields v k w h (JObj (AList.update k y kvs)) R (R \<union> S)"
proof -
  from assms(1) obtain a ms R0 where v: "v = HRef a" "R = insert a R0" "hp_cells h a = Some (CObj ms)"
    "map fst ms = map fst kvs" "owns h (map snd ms) (map snd kvs) R0" "a \<notin> R0"
    by (auto elim: own_objE)
  have "owns h (map snd ms @ [w]) (map snd kvs @ [y]) (R0 \<union> S)"
    using v(2) assms(3,4) by (intro owns_append [OF v(5)]) auto
  then have "owns h (map snd (AList.update k w ms)) (map snd (AList.update k y kvs)) (R0 \<union> S)"
    using assms(2) map_of_None_keys [OF v(4) assms(2)] by (simp add: update_append)
  from own_writeI [OF this update_fst_eq [OF v(4)], of a] v(2,6) assms(4)
  have "own (h_write a (CObj (AList.update k w ms)) h) v (JObj (AList.update k y kvs)) (R \<union> S)"
    using v(1) by simp
  then show ?thesis using v by (simp add: set_yields_def h_set_def h_write_def)
qed

section \<open>Edits on the store refine edits of the value\<close>

definition ext :: "heap \<Rightarrow> nat set \<Rightarrow> heap \<Rightarrow> nat set \<Rightarrow> bool" where
  "ext h R h' R' \<longleftrightarrow> hp_next h \<le> hp_next h' \<and> R' \<subseteq> R \<union> fresh h h' \<and>
     (\<forall>a < hp_next h. a \<notin> R \<longrightarrow> hp_cells h' a = hp_cells h a)"

lemma ext_next: "ext h R h' R' \<Longrightarrow> hp_next h \<le> hp_next h'"
  by (simp add: ext_def)

lemma ext_sub: "ext h R h' R' \<Longrightarrow> a \<in> R' \<Longrightarrow> a \<in> R \<or> hp_next h \<le> a \<and> a < hp_next h'"
  by (auto simp: ext_def fresh_def)

lemma ext_cell: "ext h R h' R' \<Longrightarrow> a < hp_next h \<Longrightarrow> a \<notin> R \<Longrightarrow> hp_cells h' a = hp_cells h a"
  by (simp add: ext_def)

lemma extI:
  assumes "hp_next h \<le> hp_next h'" and "\<And>a. a \<in> R' \<Longrightarrow> a \<in> R \<or> hp_next h \<le> a \<and> a < hp_next h'"
    and "\<And>a. a < hp_next h \<Longrightarrow> a \<notin> R \<Longrightarrow> hp_cells h' a = hp_cells h a"
  shows "ext h R h' R'"
proof -
  have "R' \<subseteq> R \<union> fresh h h'"
  proof
    fix a assume "a \<in> R'"
    from assms(2) [OF this] show "a \<in> R \<union> fresh h h'" by (auto simp: fresh_def)
  qed
  with assms(1,3) show ?thesis by (simp add: ext_def)
qed

lemma belowD: "below h R \<Longrightarrow> a \<in> R \<Longrightarrow> a < hp_next h"
  by (auto simp: below_def)

lemma belowI: "(\<And>a. a \<in> R \<Longrightarrow> a < hp_next h) \<Longrightarrow> below h R"
  by (auto simp: below_def)

lemma ext_below: "ext h R h' R' \<Longrightarrow> below h R \<Longrightarrow> below h' R'"
  by (intro belowI) (use ext_sub ext_next belowD in \<open>meson order_less_le_trans\<close>)

lemma ext_trans:
  assumes "ext h R h1 R1" and "ext h1 R1 h2 R2"
  shows "ext h R h2 R2"
proof (rule extI)
  show "hp_next h \<le> hp_next h2" using ext_next [OF assms(1)] ext_next [OF assms(2)] by simp
  show "a \<in> R \<or> hp_next h \<le> a \<and> a < hp_next h2" if "a \<in> R2" for a
    using ext_sub [OF assms(2) that] ext_sub [OF assms(1), of a] ext_next [OF assms(1)] ext_next [OF assms(2)]
    by linarith
  show "hp_cells h2 a = hp_cells h a" if "a < hp_next h" "a \<notin> R" for a
  proof -
    have "a \<notin> R1" using ext_sub [OF assms(1), of a] that by auto
    moreover have "a < hp_next h1" using ext_next [OF assms(1)] that(1) by simp
    ultimately show ?thesis using ext_cell [OF assms(1) that] ext_cell [OF assms(2)] by simp
  qed
qed

lemma ext_grows: "grows h h' \<Longrightarrow> ext h R h' R"
  by (auto simp: ext_def grows_def)

lemma own_grows: "own h v x R \<Longrightarrow> below h R \<Longrightarrow> grows h h' \<Longrightarrow> own h' v x R"
  by (erule own_frame) (auto simp: below_def grows_def)

text \<open>The two runs end in the same exception, or \<open>v\<close> shows the value of the abstract run.\<close>

definition refines :: "heap \<Rightarrow> hval \<Rightarrow> nat set \<Rightarrow> jsval res \<Rightarrow> heap res \<Rightarrow> bool" where
  "refines h v R r hr \<longleftrightarrow> (case r of Inl e \<Rightarrow> hr = Inl e
     | Inr y \<Rightarrow> \<exists>h' R'. hr = Inr h' \<and> own h' v y R' \<and> ext h R h' R')"

definition edits :: "(hval \<Rightarrow> heap \<Rightarrow> heap res) \<Rightarrow> (jsval \<Rightarrow> jsval res) \<Rightarrow> bool" where
  "edits H F \<longleftrightarrow> (\<forall>h v x R. own h v x R \<longrightarrow> below h R \<longrightarrow> refines h v R (F x) (H v h))"

named_theorems refine "edits of the value that an edit of the store implements"

lemma editsI: "(\<And>h v x R. own h v x R \<Longrightarrow> below h R \<Longrightarrow> refines h v R (F x) (H v h)) \<Longrightarrow> edits H F"
  by (simp add: edits_def)

lemma editsD: "edits H F \<Longrightarrow> own h v x R \<Longrightarrow> below h R \<Longrightarrow> refines h v R (F x) (H v h)"
  by (simp add: edits_def)

lemma refines_err [simp]: "refines h v R (Inl e) hr \<longleftrightarrow> hr = Inl e"
  by (simp add: refines_def)

lemma refines_ok: "own h' v y R' \<Longrightarrow> ext h R h' R' \<Longrightarrow> refines h v R (Inr y) (Inr h')"
  by (auto simp: refines_def)

lemma refines_grows: "own h v x R \<Longrightarrow> below h R \<Longrightarrow> grows h h' \<Longrightarrow> refines h v R (Inr x) (Inr h')"
  by (blast intro: refines_ok own_grows ext_grows)

lemma refines_same: "own h v x R \<Longrightarrow> below h R \<Longrightarrow> refines h v R (Inr x) (Inr h)"
  by (simp add: refines_grows)

lemma refinesE:
  assumes "refines h v R r hr"
  obtains e where "r = Inl e" and "hr = Inl e"
  | y h' R' where "r = Inr y" and "hr = Inr h'" and "own h' v y R'" and "ext h R h' R'"
  using assms by (auto simp: refines_def split: sum.splits)

lemma ext_apart:
  assumes e: "ext h S h' S'" and "below h R"
  shows "S' \<inter> (R - S) = {}" and "same_on (R - S) h h'"
  using ext_sub [OF e] ext_cell [OF e] belowD [OF assms(2)] by (fastforce simp: not_le same_on_def)+

lemma ext_inside: "ext h S h' S' \<Longrightarrow> S \<subseteq> R \<Longrightarrow> ext h R h' (R - S \<union> S')"
  by (rule extI) (auto dest: ext_sub ext_next ext_cell)

lemma refines_focus:
  assumes f: "focus h v x R w y S u" and "below h R" and "edits H F"
  shows "refines h v R (rbind (F y) (\<lambda>y'. Inr (u y'))) (H w h)"
proof -
  have S: "own h w y S" "S \<subseteq> R" using focus_own [OF f] by auto
  then have "refines h w S (F y) (H w h)"
    using assms(2,3) by (intro editsD [of H F]) (auto simp: below_def)
  then show ?thesis
  proof (cases rule: refinesE)
    case (2 y' h' S')
    have "own h' v (u y') (R - S \<union> S')"
      by (rule focusD [OF f 2(3) ext_apart [OF 2(4) assms(2)]])
    moreover have "ext h R h' (R - S \<union> S')" using 2(4) S(2) by (rule ext_inside)
    ultimately show ?thesis using 2 by (simp add: refines_ok)
  qed simp
qed

lemma refines_prim:
  assumes "edits H F" and "is_prim p" and "own h v x R" and "below h R"
  shows "refines h v R (rbind (F p) (\<lambda>y. Inr x)) (H (HV p) h)" and "F p = Inr y \<Longrightarrow> y = p"
proof -
  have "refines h (HV p) {} (F p) (H (HV p) h)"
    using assms(1,2) by (intro editsD [of H F]) (simp_all add: own_prim_iff below_def)
  then have "refines h v R (rbind (F p) (\<lambda>y. Inr x)) (H (HV p) h) \<and> (F p = Inr y \<longrightarrow> y = p)"
  proof (cases rule: refinesE)
    case (2 y' h' S')
    have "grows h h'" using 2(4) by (simp add: ext_def grows_def)
    then have "refines h v R (Inr x) (Inr h')" by (rule refines_grows [OF assms(3,4)])
    moreover have "y' = p" using 2(3) assms(2) by (auto elim: own_HVE)
    ultimately show ?thesis using 2 by simp
  qed simp
  then show "refines h v R (rbind (F p) (\<lambda>y. Inr x)) (H (HV p) h)" "F p = Inr y \<Longrightarrow> y = p" by auto
qed

text \<open>Assigning a value that shares no cell with its owner.\<close>

lemma set_own:
  assumes "own h v x R" and "own h w y S" and "R \<inter> S = {}"
  shows "case set_prop x k y of Inl e \<Rightarrow> h_set v k w h = Inl e
     | Inr x' \<Rightarrow> \<exists>R'. set_yields v k w h x' R R' \<and> R' \<subseteq> R \<union> S"
  using assms(1)
proof (cases rule: own.cases)
  case own_prim
  then show ?thesis using assms(1) by (cases x) (auto simp: h_set_def set_yields_def)
next
  case (own_arr a vs xs R')
  then show ?thesis using assms(1) by (auto simp: h_set_def set_yields_def)
next
  case (own_obj a ms kvs R')
  note x = own_obj(2)
  show ?thesis
  proof (cases "map_of kvs k")
    case None
    from obj_append [OF assms(1) [unfolded x] this assms(2,3)] show ?thesis unfolding x set_prop.simps sum.case by blast
  next
    case (Some z)
    from obj_replace [OF assms(1) [unfolded x] this] obtain A where A: "A \<subseteq> R"
      and r: "\<And>h' w' y' S'. own h' w' y' S' \<Longrightarrow> S' \<inter> (R - A) = {} \<Longrightarrow> same_on (R - A) h h' \<Longrightarrow>
        set_yields v k w' h' (JObj (AList.update k y' kvs)) R (R - A \<union> S')"
      by blast
    have "S \<inter> (R - A) = {}" using assms(3) by blast
    then have "set_yields v k w h (JObj (AList.update k y kvs)) R (R - A \<union> S)"
      by (rule r [OF assms(2)]) (simp add: same_on_def)
    moreover have "R - A \<union> S \<subseteq> R \<union> S" by blast
    ultimately show ?thesis unfolding x set_prop.simps sum.case by blast
  qed
qed

lemma refines_yields:
  assumes "set_yields v k w h1 x' R1 R'" and "ext h R h1 R1" and "R' \<subseteq> R \<union> fresh h h1"
  shows "refines h v R (Inr x') (h_set v k w h1)"
proof -
  from assms(1) obtain h' where h': "h_set v k w h1 = Inr h'" "own h' v x' R'" "hp_next h' = hp_next h1"
    "\<And>b. b \<notin> R1 \<Longrightarrow> hp_cells h' b = hp_cells h1 b"
    unfolding set_yields_def by blast
  have "hp_cells h' a = hp_cells h a" if "a < hp_next h" "a \<notin> R" for a
  proof -
    have "a \<notin> R1" using that assms(2) by (auto simp: ext_def fresh_def)
    with h'(4) that assms(2) show ?thesis by (simp add: ext_def)
  qed
  then have "ext h R h' R'" using assms(2,3) h'(3) by (simp add: ext_def fresh_def)
  with h' show ?thesis by (auto intro: refines_ok)
qed

lemma refines_set:
  assumes "own h1 v x R1" and "own h1 w y S" and "R1 \<inter> S = {}" and "ext h R h1 R1"
    and "S \<subseteq> R \<union> fresh h h1"
  shows "refines h v R (set_prop x k y) (h_set v k w h1)"
proof (cases "set_prop x k y")
  case (Inl e)
  with set_own [OF assms(1-3), of k] show ?thesis by simp
next
  case (Inr x')
  with set_own [OF assms(1-3), of k] obtain R' where "set_yields v k w h1 x' R1 R'" "R' \<subseteq> R1 \<union> S" by auto
  with Inr assms(4,5) show ?thesis by (auto simp: ext_def intro!: refines_yields)
qed

lemma edits_set [refine]: "is_prim y \<Longrightarrow> edits (\<lambda>v. h_set v k (HV y)) (\<lambda>x. set_prop x k y)"
  by (rule editsI, rule refines_set) (auto simp: own_prim_iff intro: ext_grows)

section \<open>Reading a property\<close>

text \<open>A name that only an object's own property can answer.\<close>

definition plain :: "string \<Rightarrow> bool" where
  "plain k \<longleftrightarrow> proto_member k = JUndef \<and> k \<noteq> ''length''"

lemma get_prim: "is_prim p \<Longrightarrow> plain k \<Longrightarrow> get_prop p k = Inl TypeErr \<or> get_prop p k = Inr JUndef"
  by (cases p) (auto simp: plain_def)

lemma read_prop:
  assumes "own h v x R" and "plain k"
  obtains e where "get_prop x k = Inl e" and "h_get h v k = Inl e"
  | "get_prop x k = Inr JUndef" and "h_get h v k = Inr (HV JUndef)"
  | kvs y where "x = JObj kvs" and "map_of kvs k = Some y" and "get_prop x k = Inr y"
  using assms(1)
proof (cases rule: own.cases)
  case own_prim
  with assms(2) show ?thesis using get_prim [of x k] that(1,2) by (auto simp: h_get_def)
next
  case (own_arr a vs xs R')
  with assms(2) show ?thesis using that(2) by (simp add: h_get_def plain_def)
next
  case (own_obj a ms kvs R')
  show ?thesis
  proof (cases "map_of kvs k")
    case None
    with own_obj assms(2) show ?thesis
      using that(2) map_of_None_keys [OF own_obj(5) None] by (simp add: h_get_def plain_def obj_get_def)
  next
    case (Some y)
    with own_obj that(3) show ?thesis by (simp add: obj_get_def)
  qed
qed

text \<open>The first element of a container.\<close>

lemma own_arr_ConsE:
  assumes "own h v (JArr (x # xs)) R"
  obtains a w ws A B where "v = HRef a" and "hp_cells h a = Some (CArr (w # ws))" and "own h w x A"
    and "owns h ws xs B" and "A \<inter> B = {}" and "R = insert a (A \<union> B)" and "a \<notin> A \<union> B"
proof -
  from assms obtain a vs R0 where a: "v = HRef a" "hp_cells h a = Some (CArr vs)" "owns h vs (x # xs) R0"
    "R = insert a R0" "a \<notin> R0"
    by (cases rule: own.cases) auto
  from a(3) obtain w ws A B where w: "vs = w # ws" "own h w x A" "owns h ws xs B" "A \<inter> B = {}" "R0 = A \<union> B"
    by (cases rule: owns.cases) auto
  with a that show thesis by blast
qed

lemma arr_focus:
  assumes "own h v (JArr (x # xs)) R"
  shows "\<exists>w ws S. h_cell h v = Some (CArr (w # ws)) \<and> focus h v (JArr (x # xs)) R w x S (\<lambda>y. JArr (y # xs))"
proof -
  from assms obtain a w ws A B where v: "v = HRef a" "hp_cells h a = Some (CArr (w # ws))" "own h w x A"
    "owns h ws xs B" "A \<inter> B = {}" "R = insert a (A \<union> B)" "a \<notin> A \<union> B"
    by (rule own_arr_ConsE)
  have RA: "R - A = insert a B" using v by blast
  have "own h' v (JArr (y # xs)) (R - A \<union> S')"
    if "own h' w y S'" "S' \<inter> (R - A) = {}" "same_on (R - A) h h'" for h' y S'
  proof -
    have "owns h' ws xs B" using that(3) RA by (intro owns_same [OF v(4)]) (auto simp: same_on_def)
    then have "owns h' (w # ws) (y # xs) (S' \<union> B)" using that RA by (intro owns_cons) auto
    moreover have "hp_cells h' a = Some (CArr (w # ws))" using that(3) RA v(2) by (simp add: same_on_def)
    ultimately have "own h' v (JArr (y # xs)) (insert a (S' \<union> B))"
      using that(2) RA v by (auto intro!: own_arr)
    moreover have "insert a (S' \<union> B) = R - A \<union> S'" using RA by blast
    ultimately show ?thesis by simp
  qed
  then have "focus h v (JArr (x # xs)) R w x A (\<lambda>y. JArr (y # xs))" using v by (auto simp: focus_def)
  then show ?thesis using v by (auto simp: h_cell_def)
qed

lemma read_first:
  assumes "own h v c R" and "truthy c"
  obtains w e S where "index0 c = Inr e" and "h_index0 h v = Inr w" and "focus h v c R w e S (set_index0 c)"
  | e where "index0 c = Inr e" and "h_index0 h v = Inr (HV e)" and "is_prim e" and "truthy e \<Longrightarrow> set_index0 c e = c"
  using assms(1)
proof (cases rule: own.cases)
  case own_prim
  have "\<exists>e. index0 c = Inr e \<and> is_prim e \<and> (truthy e \<longrightarrow> set_index0 c e = c)"
    using own_prim assms(2) by (cases c) (auto split: list.splits)
  then obtain e where "index0 c = Inr e" "is_prim e" "truthy e \<Longrightarrow> set_index0 c e = c" by blast
  then show ?thesis using that(2) own_prim by (simp add: h_index0_def)
next
  case (own_arr a vs xs R')
  show ?thesis
  proof (cases xs)
    case Nil
    then have "vs = []" using own_arr(5) by (auto elim: owns.cases)
    with Nil own_arr show ?thesis using that(2) by (simp add: h_index0_def)
  next
    case (Cons x xs')
    have s: "set_index0 c = (\<lambda>y. JArr (y # xs'))" using own_arr(2) Cons by auto
    obtain w ws S where "h_cell h v = Some (CArr (w # ws))" "focus h v c R w x S (set_index0 c)"
      using arr_focus [of h v x xs' R] assms(1) own_arr(2) Cons s by auto
    moreover have "h_index0 h v = Inr w" using calculation own_arr by (simp add: h_index0_def h_cell_def)
    ultimately show ?thesis using that(1) [of x w S] own_arr(2) Cons by simp
  qed
next
  case (own_obj a ms kvs R')
  show ?thesis
  proof (cases "map_of kvs ''0''")
    case None
    with own_obj show ?thesis using that(2) map_of_None_keys [OF own_obj(5) None] by (simp add: h_index0_def)
  next
    case (Some y)
    have s: "set_index0 (JObj kvs) = (\<lambda>y. JObj (AList.update ''0'' y kvs))" by (rule ext) simp
    from obj_focus [OF assms(1) [unfolded own_obj(2)] Some] obtain w S where
      w: "h_get h v ''0'' = Inr w" "focus h v c R w y S (set_index0 c)"
      unfolding own_obj(2) s by blast
    obtain w0 where w0: "map_of ms ''0'' = Some w0"
      using map_of_None_keys [of kvs ms "''0''"] own_obj(5) Some by (cases "map_of ms ''0''") simp_all
    have "h_get h v ''0'' = Inr w0" "h_index0 h v = Inr w0"
      using own_obj(1,4) w0 by (simp_all add: h_index0_def h_get_def)
    with w(1) have "h_index0 h v = Inr w" by simp
    moreover have "index0 c = Inr y" using own_obj(2) Some by simp
    ultimately show ?thesis by (intro that(1) [OF _ _ w(2)])
  qed
qed

section \<open>The helpers of the mutators\<close>

lemma plain_keys [simp]:
  "plain ''inclusionProofs''" "plain ''trustSnapshot''" "plain ''pluginVersions''" "plain ''approvalEvidence''"
  "plain ''ApprovalEvidence''" "plain ''planHash''" "plain ''outcomeDigest''" "plain ''contentHash''"
  "plain ''link''" "plain ''policyDecisions''" "plain ''bundleData''"
  by (simp_all add: plain_def proto_member_def proto_methods_def)

lemma refines_on_first:
  assumes f: "focus h v x R c y S u" and b: "below h R" and "edits H F" and t: "truthy y"
    and set_back: "\<And>z. upd z = Inr (u (set_index0 y z))" and same: "u y = x" and o: "own h v x R"
  shows "refines h v R (rbind (index0 y) (\<lambda>e. if truthy e then rbind (F e) upd else Inr x)) (h_on_first H c h)"
proof -
  have upd: "upd = (\<lambda>z. Inr (u (set_index0 y z)))" using set_back by blast
  have "own h c y S" using focus_own [OF f] by simp
  then show ?thesis using t
  proof (cases rule: read_first)
    case (1 w e T)
    have "h_truthy w = truthy e" using focus_own [OF 1(3)] by (blast dest: own_truthy)
    moreover have "refines h v R (rbind (F e) (\<lambda>z. Inr ((u \<circ> set_index0 y) z))) (H w h)"
      by (rule refines_focus [OF focus_trans [OF f 1(3)] b assms(3)])
    ultimately show ?thesis using 1 o b by (simp add: h_on_first_def upd refines_same)
  next
    case (2 e)
    show ?thesis
    proof (cases "truthy e")
      case True
      have "rbind (F e) upd = rbind (F e) (\<lambda>z. Inr x)"
        using refines_prim(2) [OF assms(3) 2(3) o b] 2(4) [OF True] same by (cases "F e") (auto simp: upd)
      then show ?thesis using refines_prim(1) [OF assms(3) 2(3) o b] 2 True by (simp add: h_on_first_def)
    next
      case False
      then show ?thesis using 2 o b by (simp add: h_on_first_def refines_same)
    qed
  qed
qed

lemma own_below_alloc: "own h v x R \<Longrightarrow> below h R \<Longrightarrow> h_alloc c h = (w, h') \<Longrightarrow> refines h v R (Inr x) (Inr h')"
  by (blast intro: refines_grows grows_alloc)

lemma on_first_empty:
  "own h v x R \<Longrightarrow> below h R \<Longrightarrow> h_alloc (CArr []) h = (c, h1) \<Longrightarrow> refines h v R (Inr x) (h_on_first H c h1)"
  by (frule (2) own_below_alloc) (auto simp: h_on_first_def h_alloc_def h_index0_def)

lemma edits_first [refine]:
  assumes "plain k" and "edits H F"
  shows "edits (h_edit_first k H) (\<lambda>p. edit_first p k F)"
proof (rule editsI)
  fix h v x R assume o: "own h v x R" and b: "below h R"
  from o assms(1) show "refines h v R (edit_first x k F) (h_edit_first k H v h)"
  proof (cases rule: read_prop)
    case (3 kvs y)
    from obj_focus [OF o [unfolded 3(1)] 3(2)] obtain w S where
      w: "h_get h v k = Inr w" "focus h v x R w y S (\<lambda>y'. JObj (AList.update k y' kvs))"
      unfolding 3(1) by blast
    have t: "h_truthy w = truthy y" using focus_own [OF w(2)] by (blast dest: own_truthy)
    show ?thesis
    proof (cases "truthy y")
      case True
      have "refines h v R (rbind (index0 y) (\<lambda>e. if truthy e then rbind (F e) (\<lambda>z. set_prop x k (set_index0 y z)) else Inr x))
          (h_on_first H w h)"
        by (rule refines_on_first [OF w(2) b assms(2) True]) (simp_all add: 3 update_same o [unfolded 3(1)])
      then show ?thesis using True t w 3(3) by (simp add: edit_first_def h_edit_first_def h_or_array_def)
    next
      case False
      then show ?thesis using t w 3(3) o b
        by (auto simp: edit_first_def h_edit_first_def h_or_array_def split: prod.split intro: on_first_empty)
    qed
  qed (use o b in \<open>auto simp: edit_first_def h_edit_first_def h_or_array_def split: prod.split intro: on_first_empty\<close>)
qed

lemma edits_approval [refine]:
  assumes "edits H F"
  shows "edits (h_edit_approval H) (\<lambda>bd. edit_approval bd F)"
proof (rule editsI)
  fix h v x R assume o: "own h v x R" and b: "below h R"
  let ?r = "\<lambda>a. if h_truthy a then ''approvalEvidence'' else ''ApprovalEvidence''"
  have e: "h_edit_approval H v h = rbind (h_get h v ''approvalEvidence'') (\<lambda>a. h_edit_first (?r a) H v h)"
    by (cases "h_get h v ''approvalEvidence''"; cases "h_get h v ''ApprovalEvidence''")
      (simp_all add: h_edit_approval_def h_approvals_def h_edit_first_def h_or_array_def Let_def split_def)
  have r: "refines h v R (edit_first x k F) (h_edit_first k H v h)" if "plain k" for k
    using edits_first [OF that assms] o b by (rule editsD)
  have "plain ''approvalEvidence''" by simp
  with o show "refines h v R (edit_approval x F) (h_edit_approval H v h)"
  proof (cases rule: read_prop)
    case (3 kvs y)
    from obj_focus [OF o [unfolded 3(1)] 3(2)] obtain w S where
      w: "h_get h v ''approvalEvidence'' = Inr w" "own h w y S" by (blast dest: focus_own)
    then have "h_truthy w = truthy y" by (blast dest: own_truthy)
    then show ?thesis using 3 w r by (simp add: e edit_approval_def approvals_key_def)
  qed (use r in \<open>simp_all add: e edit_approval_def approvals_key_def\<close>)
qed

lemma set_prop_obj_fun: "set_prop (JObj kvs) k = (\<lambda>z. Inr (JObj (AList.update k z kvs)))"
  by (rule ext) simp

text \<open>The value-level edit of a link, as \<open>mutate_chainhash\<close> writes it.\<close>

definition edit_link :: "(jsval \<Rightarrow> jsval res) \<Rightarrow> jsval \<Rightarrow> jsval res" where
  "edit_link F pr = rbind (get_prop pr ''link'') (\<lambda>l.
     if truthy l then rbind (F l) (\<lambda>l'. set_prop pr ''link'' l') else Inr pr)"

lemma edits_link [refine]:
  assumes "edits H F"
  shows "edits (h_on_link H) (edit_link F)"
proof (rule editsI)
  fix h v x R assume o: "own h v x R" and b: "below h R"
  have "plain ''link''" by simp
  with o show "refines h v R (edit_link F x) (h_on_link H v h)"
  proof (cases rule: read_prop)
    case (3 kvs y)
    from obj_focus [OF o [unfolded 3(1)] 3(2)] obtain w S where
      w: "h_get h v ''link'' = Inr w" "focus h v x R w y S (\<lambda>y'. JObj (AList.update ''link'' y' kvs))"
      unfolding 3(1) by blast
    have "h_truthy w = truthy y" using focus_own [OF w(2)] by (blast dest: own_truthy)
    then show ?thesis using refines_focus [OF w(2) b assms] 3 w(1) o b
      by (simp add: edit_link_def h_on_link_def refines_same set_prop_obj_fun)
  qed (use o b in \<open>simp_all add: edit_link_def h_on_link_def refines_same\<close>)
qed

text \<open>A property that is given a new array, over some of the elements of the old value.\<close>

lemma refines_new_array:
  assumes o: "own h v (JObj kvs) R" and b: "below h R" and k: "map_of kvs k = Some y" and g: "h_get h v k = Inr w"
    and el: "\<And>S. own h w y S \<Longrightarrow> \<exists>B. owns h us ys B \<and> B \<subseteq> S"
  shows "refines h v R (Inr (JObj (AList.update k (JArr ys) kvs)))
    (case h_alloc (CArr us) h of (z, h1) \<Rightarrow> h_set v k z h1)"
proof -
  obtain z h1 where z: "h_alloc (CArr us) h = (z, h1)" by (cases "h_alloc (CArr us) h")
  from obj_replace [OF o k] g obtain S where S: "own h w y S" "S \<subseteq> R"
    and r: "\<And>h' w' y' S'. own h' w' y' S' \<Longrightarrow> S' \<inter> (R - S) = {} \<Longrightarrow> same_on (R - S) h h' \<Longrightarrow>
       set_yields v k w' h' (JObj (AList.update k y' kvs)) R (R - S \<union> S')"
    by auto
  from el [OF S(1)] obtain B where B: "owns h us ys B" "B \<subseteq> S" by blast
  have nb: "hp_next h \<notin> B" "hp_next h \<notin> R" using B(2) S(2) b by (auto simp: below_def)
  have "owns h1 us ys B" using z nb by (intro owns_frame [OF B(1)]) (auto simp: h_alloc_def)
  then have "own h1 z (JArr ys) (insert (hp_next h) B)"
    using z nb by (auto simp: h_alloc_def intro!: own_arr)
  moreover have "insert (hp_next h) B \<inter> (R - S) = {}" using B(2) nb by blast
  moreover have "same_on (R - S) h h1" using z nb by (auto simp: same_on_def h_alloc_def)
  ultimately have "set_yields v k z h1 (JObj (AList.update k (JArr ys) kvs)) R (R - S \<union> insert (hp_next h) B)"
    by (rule r)
  moreover have "ext h R h1 R" using grows_alloc [OF z] by (rule ext_grows)
  moreover have "R - S \<union> insert (hp_next h) B \<subseteq> R \<union> fresh h h1"
    using B(2) S(2) z by (auto simp: fresh_def h_alloc_def)
  ultimately show ?thesis unfolding z by (simp add: refines_yields)
qed

lemma own_is_arr: "own h v x R \<Longrightarrow> h_is_arr h v = is_arr x"
  by (erule own.cases) (auto simp: h_is_arr_def h_cell_def is_arr_iff)

lemma flip_byte_prim: "flip_byte b = Inr c \<Longrightarrow> is_prim c"
  by (auto simp: flip_byte_def rbind_eq_Inr)

lemma own_NilD: "own h v (JArr []) R \<Longrightarrow> h_cell h v = Some (CArr [])"
  by (erule own.cases) (auto simp: h_cell_def elim: owns.cases)

lemma edits_drop [refine]:
  "edits (h_drop_first k) (\<lambda>bd. rbind (get_prop bd k) (\<lambda>d. case d of
     JArr (_ # ds) \<Rightarrow> set_prop bd k (JArr ds) | _ \<Rightarrow> Inr bd))" if "plain k"
proof (rule editsI)
  fix h v x R assume o: "own h v x R" and b: "below h R"
  from o that show "refines h v R (rbind (get_prop x k) (\<lambda>d. case d of
     JArr (_ # ds) \<Rightarrow> set_prop x k (JArr ds) | _ \<Rightarrow> Inr x)) (h_drop_first k v h)"
  proof (cases rule: read_prop)
    case (3 kvs y)
    from obj_focus [OF o [unfolded 3(1)] 3(2)] obtain w S where w: "h_get h v k = Inr w" "own h w y S"
      by (blast dest: focus_own)
    show ?thesis
    proof (cases "\<exists>d ds. y = JArr (d # ds)")
      case True
      then obtain d ds where y: "y = JArr (d # ds)" by blast
      from w(2) [unfolded y] obtain a u us where c: "w = HRef a" "hp_cells h a = Some (CArr (u # us))"
        by (rule own_arr_ConsE)
      have "\<exists>B. owns h us ds B \<and> B \<subseteq> S'" if "own h w y S'" for S'
        using that [unfolded y] by (rule own_arr_ConsE) (use c in auto)
      from refines_new_array [OF o [unfolded 3(1)] b 3(2) w(1) this] show ?thesis
        using c w(1) 3 y by (simp add: h_drop_first_def h_cell_def)
    next
      case False
      have "(case h_cell h w of Some (CArr (_ # ds)) \<Rightarrow> (let (z, h1) = h_alloc (CArr ds) h in h_set v k z h1)
         | _ \<Rightarrow> Inr h) = Inr h"
        using w(2) False
        by (cases rule: own.cases) (auto simp: h_cell_def split: list.splits elim: owns.cases)
      moreover have "(case y of JArr (_ # ds) \<Rightarrow> set_prop x k (JArr ds) | _ \<Rightarrow> Inr x) = Inr x"
        using False by (auto split: jsval.split list.split)
      ultimately show ?thesis using 3(3) w(1) o b by (simp add: h_drop_first_def refines_same)
    qed
  qed (use o b in \<open>simp_all add: h_drop_first_def h_cell_def refines_same\<close>)
qed

lemma edits_flip [refine]:
  assumes "plain k"
  shows "edits (h_flip_prop k) (\<lambda>x. flip_prop x k)"
proof (rule editsI)
  fix h v x R assume o: "own h v x R" and b: "below h R"
  from o assms show "refines h v R (flip_prop x k) (h_flip_prop k v h)"
  proof (cases rule: read_prop)
    case (3 kvs y)
    from obj_focus [OF o [unfolded 3(1)] 3(2)] obtain w S where w: "h_get h v k = Inr w" "own h w y S" "S \<subseteq> R"
      by (blast dest: focus_own)
    show ?thesis
    proof (cases "\<exists>c cs. y = JArr (c # cs)")
      case True
      then obtain c cs where 1: "y = JArr (c # cs)" by blast
      from w(2) [unfolded 1] obtain a u us A B where c: "w = HRef a" "hp_cells h a = Some (CArr (u # us))"
        "own h u c A" "owns h us cs B" "A \<union> B \<subseteq> S"
        by (rule own_arr_ConsE) blast
      have "below h A" using c(5) w(3) b by (auto simp: below_def)
      then have d: "h_deep h u = Inr c" by (rule own_deep [OF c(3)])
      show ?thesis
      proof (cases "flip_byte c")
        case (Inl e)
        then show ?thesis using c w(1) 3 1 d
          by (simp add: flip_prop_def h_flip_prop_def h_flip_first_def h_is_arr_def h_cell_def)
      next
        case (Inr c')
        have "\<exists>B. owns h (HV c' # us) (c' # cs) B \<and> B \<subseteq> S'" if s: "own h w y S'" for S'
        proof -
          from s [unfolded 1] obtain B' where B': "owns h us cs B'" "B' \<subseteq> S'"
            by (rule own_arr_ConsE) (use c in auto)
          have "owns h (HV c' # us) (c' # cs) ({} \<union> B')"
            using flip_byte_prim [OF Inr] B'(1) by (intro owns_cons own_prim) simp_all
          with B'(2) show ?thesis by auto
        qed
        from refines_new_array [OF o [unfolded 3(1)] b 3(2) w(1) this] show ?thesis
          using c w(1) 3 1 d Inr
          by (simp add: flip_prop_def h_flip_prop_def h_flip_first_def h_is_arr_def h_cell_def split_def)
      qed
    next
      case False
      show ?thesis
      proof (cases "y = JArr []")
        case True
        from own_NilD [OF w(2) [unfolded True]] have f: "h_flip_first w h = Inr (w, h)" "h_is_arr h w"
          by (simp_all add: h_flip_first_def h_is_arr_def)
        from obj_replace [OF o [unfolded 3(1)] 3(2)] w(1) obtain T where T: "own h w y T" "T \<subseteq> R"
          and r: "\<And>h' w' y' S'. own h' w' y' S' \<Longrightarrow> S' \<inter> (R - T) = {} \<Longrightarrow> same_on (R - T) h h' \<Longrightarrow>
            set_yields v k w' h' (JObj (AList.update k y' kvs)) R (R - T \<union> S')"
          by auto
        have "set_yields v k w h (JObj (AList.update k y kvs)) R (R - T \<union> T)"
          by (rule r [OF T(1)]) (auto simp: same_on_def)
        then have "refines h v R (Inr (JObj (AList.update k y kvs))) (h_set v k w h)"
          by (rule refines_yields) (use T(2) in \<open>auto intro: ext_grows\<close>)
        then show ?thesis using 3 w(1) f True by (simp add: flip_prop_def h_flip_prop_def)
      next
        case na: False
        with False have "\<not> is_arr y" by (cases y) (auto simp: neq_Nil_conv)
        then show ?thesis using own_is_arr [OF w(2)] 3 w(1) o b
          by (simp add: flip_prop_def h_flip_prop_def refines_same)
      qed
    qed
  qed (use o b in \<open>simp_all add: flip_prop_def h_flip_prop_def h_is_arr_def h_cell_def refines_same\<close>)
qed

lemma stringify_prim: "is_prim (json_stringify v)"
  by (simp add: json_stringify_def)

lemma own_stringify: "own h v x R \<Longrightarrow> below h R \<Longrightarrow> h_stringify h v = Inr (json_stringify x)"
  by (simp add: h_stringify_def own_deep)

lemma below_fresh: "below h (fresh h0 h)"
  by (auto simp: below_def fresh_def)

text \<open>\<open>withBundle\<close> on a bundle that is a JSON text: the edit sees new cells only.\<close>

lemma refines_bundle_text:
  assumes o: "own h v x R" and b: "below h R" and "edits H F"
  shows "refines h v R (rbind (json_parse s) (\<lambda>bd. rbind (F bd) (\<lambda>bd'. set_prop x k (json_stringify bd'))))
    (rbind (h_parse s h) (\<lambda>(bd, h1). rbind (H bd h1) (\<lambda>h2. rbind (h_stringify h2 bd) (\<lambda>t. h_set v k (HV t) h2))))"
proof (cases "json_parse s")
  case (Inl e)
  then show ?thesis by (simp add: h_parse_def)
next
  case (Inr z)
  obtain bd h1 where st: "h_store z h = (bd, h1)" by (cases "h_store z h")
  with store_own have z: "own h1 bd z (fresh h h1)" and g: "grows h h1" by auto
  from editsD [OF assms(3) z below_fresh] show ?thesis
  proof (cases rule: refinesE)
    case (1 e)
    then show ?thesis using Inr st by (simp add: h_parse_def)
  next
    case (2 z' h2 S)
    have "h_stringify h2 bd = Inr (json_stringify z')"
      using 2(3) ext_below [OF 2(4) below_fresh] by (rule own_stringify)
    moreover have "grows h h2"
      using g 2(4) by (auto simp: grows_def ext_def fresh_def)
    then have "refines h v R (set_prop x k (json_stringify z')) (h_set v k (HV (json_stringify z')) h2)"
      using own_grows [OF o b] by (intro refines_set) (auto intro: own_prim stringify_prim ext_grows)
    ultimately show ?thesis using 2(1,2) Inr st by (simp add: h_parse_def)
  qed
qed

text \<open>A bundle that is not a text is edited where it is and assigned to its own property.\<close>

lemma refines_bundle_inline:
  assumes o: "own h v (JObj kvs) R" and b: "below h R" and k: "map_of kvs k = Some y" and g: "h_get h v k = Inr w"
    and "edits H F"
  shows "refines h v R (rbind (F y) (\<lambda>y'. set_prop (JObj kvs) k y')) (rbind (H w h) (\<lambda>h1. h_set v k w h1))"
proof -
  from obj_replace [OF o k] g obtain S where S: "own h w y S" "S \<subseteq> R"
    and r: "\<And>h' w' y' S'. own h' w' y' S' \<Longrightarrow> S' \<inter> (R - S) = {} \<Longrightarrow> same_on (R - S) h h' \<Longrightarrow>
       set_yields v k w' h' (JObj (AList.update k y' kvs)) R (R - S \<union> S')"
    by auto
  have "refines h w S (F y) (H w h)"
    using S b by (intro editsD [OF assms(5)]) (auto simp: below_def)
  then show ?thesis
  proof (cases rule: refinesE)
    case (2 y' h1 S')
    have "set_yields v k w h1 (JObj (AList.update k y' kvs)) R (R - S \<union> S')"
      by (rule r [OF 2(3) ext_apart [OF 2(4) b]])
    then have "refines h v R (Inr (JObj (AList.update k y' kvs))) (h_set v k w h1)"
    proof (rule refines_yields)
      show "ext h R h1 R" using 2(4) S(2) by (intro extI) (auto dest: ext_next ext_cell)
      show "R - S \<union> S' \<subseteq> R \<union> fresh h h1" using 2(4) S(2) by (auto simp: ext_def)
    qed
    with 2(1,2) show ?thesis by simp
  qed simp
qed

lemma own_not_str: "own h w y S \<Longrightarrow> \<not> is_str y \<Longrightarrow> (case w of HV (JStr s) \<Rightarrow> f s | _ \<Rightarrow> c) = c"
  by (erule own.cases) (auto split: jsval.split)

lemma edits_bundle [refine]:
  assumes "edits H F"
  shows "edits (h_with_bundle H) (\<lambda>p. with_bundle p F)"
proof (rule editsI)
  fix h v x R assume o: "own h v x R" and b: "below h R"
  let ?k = "''bundleData''"
  have "plain ?k" by simp
  with o show "refines h v R (with_bundle x F) (h_with_bundle H v h)"
  proof (cases rule: read_prop)
    case 2
    from editsD [OF assms, of h "HV JUndef" JUndef "{}"] have
      "refines h (HV JUndef) {} (F JUndef) (H (HV JUndef) h)" by (simp add: own_prim_iff below_def)
    then show ?thesis
    proof (cases rule: refinesE)
      case u: (2 y h1 S)
      have "y = JUndef" using u(3) by (auto elim: own_HVE)
      moreover have g: "grows h h1" using u(4) by (simp add: ext_def grows_def)
      have "refines h v R (set_prop x ?k JUndef) (h_set v ?k (HV JUndef) h1)"
        using own_grows [OF o b g] ext_grows [OF g] by (intro refines_set) (auto intro: own_prim)
      ultimately show ?thesis using u 2 by (simp add: with_bundle_def h_with_bundle_def)
    qed (use 2 in \<open>simp add: with_bundle_def h_with_bundle_def\<close>)
  next
    case (3 kvs y)
    from obj_focus [OF o [unfolded 3(1)] 3(2)] obtain w S where w: "h_get h v ?k = Inr w" "own h w y S"
      by (blast dest: focus_own)
    show ?thesis
    proof (cases "is_str y")
      case True
      then obtain s where y: "y = JStr s" by (auto simp: is_str_iff)
      with w(2) have "w = HV (JStr s)" by (simp add: own_prim_iff)
      with refines_bundle_text [OF o b assms, of s ?k] show ?thesis
        using w(1) 3(3) y by (simp add: with_bundle_def h_with_bundle_def)
    next
      case False
      then have "with_bundle x F = rbind (F y) (\<lambda>y'. set_prop x ?k y')"
        using 3(3) by (cases y) (simp_all add: with_bundle_def)
      moreover have "h_with_bundle H v h = rbind (H w h) (\<lambda>h1. h_set v ?k w h1)"
        using w(1) own_not_str [OF w(2) False] by (simp add: h_with_bundle_def)
      ultimately show ?thesis using refines_bundle_inline [OF o [unfolded 3(1)] b 3(2) w(1) assms] 3(1) by simp
    qed
  qed (simp add: with_bundle_def h_with_bundle_def)
qed

lemma edits_reseal [refine]: "edits (h_reseal cn) (make_reseal cn)"
proof (rule editsI)
  fix h v x R assume o: "own h v x R" and b: "below h R"
  show "refines h v R (make_reseal cn x) (h_reseal cn v h)"
  proof (cases "rbind (intermediate cn x) (canon_hash cn)")
    case (Inl e)
    then show ?thesis using own_deep [OF o b]
      by (cases "intermediate cn x") (simp_all add: make_reseal_def h_reseal_def)
  next
    case (Inr bs)
    obtain w h1 where w: "h_store (JArr bs) h = (w, h1)" by (cases "h_store (JArr bs) h")
    with store_own have s: "own h1 w (JArr bs) (fresh h h1)" and g: "grows h h1" by blast+
    have "refines h v R (set_prop x ''exportHash'' (JArr bs)) (h_set v ''exportHash'' w h1)"
      using b by (intro refines_set [OF own_grows [OF o b g] s]) (auto simp: below_def fresh_def intro: ext_grows g)
    with Inr w own_deep [OF o b] show ?thesis
      by (auto simp: make_reseal_def h_reseal_def rbind_eq_Inr simp del: h_store.simps)
  qed
qed

lemma edits_cong: "edits H F \<Longrightarrow> (\<And>x. F x = G x) \<Longrightarrow> edits H G"
  by (simp add: edits_def)

lemma edits_skip: "edits (\<lambda>v. Inr) Inr"
  by (rule editsI) (rule refines_same)

lemma edits_then:
  assumes "edits H F" and "edits G K"
  shows "edits (\<lambda>v h. rbind (H v h) (G v)) (\<lambda>x. rbind (F x) K)"
proof (rule editsI)
  fix h v x R assume "own h v x R" and b: "below h R"
  then have "refines h v R (F x) (H v h)" by (rule editsD [OF assms(1)])
  then show "refines h v R (rbind (F x) K) (rbind (H v h) (G v))"
  proof (cases rule: refinesE)
    case (2 y h1 R1)
    from editsD [OF assms(2) 2(3) ext_below [OF 2(4) b]] show ?thesis
      by (cases rule: refinesE) (use 2 in \<open>auto intro: refines_ok ext_trans\<close>)
  qed simp
qed

lemma edits_chainhash:
  "edits (h_edit_first ''inclusionProofs'' (h_on_link (h_flip_prop ''contentHash''))) mutate_chainhash"
proof (rule edits_cong)
  show "edits (h_edit_first ''inclusionProofs'' (h_on_link (h_flip_prop ''contentHash'')))
      (\<lambda>p. edit_first p ''inclusionProofs'' (edit_link (\<lambda>l. flip_prop l ''contentHash'')))"
    by (intro refine) simp_all
  show "edit_first p ''inclusionProofs'' (edit_link (\<lambda>l. flip_prop l ''contentHash'')) = mutate_chainhash p" for p
    by (simp add: mutate_chainhash_def edit_link_def [abs_def])
qed

lemma edits_mutators:
  "edits (h_with_bundle (h_edit_approval (\<lambda>a. h_set a ''identity'' (HV (JStr ''acc://attacker.evil/admin''))))) mutate_approver"
  "edits (h_with_bundle (h_edit_approval (h_flip_prop ''planHash''))) mutate_planhash"
  "edits (h_flip_prop ''outcomeDigest'') mutate_outcome"
  "edits (h_with_bundle (h_drop_first ''policyDecisions'')) mutate_policy"
  "edits (h_edit_first ''trustSnapshot'' (\<lambda>s. h_set s ''blockHeight'' (HV (jint 0)))) mutate_trust"
  "edits (h_edit_first ''pluginVersions'' (\<lambda>pv. h_set pv ''implementationHash'' (HV (JStr '''')))) mutate_plugin"
  unfolding mutate_approver_def [abs_def] mutate_planhash_def [abs_def] mutate_outcome_def [abs_def]
    mutate_policy_def [abs_def] mutate_trust_def [abs_def] mutate_plugin_def [abs_def]
  by ((intro refine; simp)+)

lemma mutators_refine: "f \<in> set FORGERIES \<Longrightarrow> edits (the (map_of h_mutators (f_id f))) (f_mutate f)"
  by (auto simp: FORGERIES_def h_mutators_def edits_mutators edits_chainhash simp del: of_int_0)

section \<open>The engine refines its value-level model\<close>

lemma own_clone:
  assumes "own h v x R" and "below h R"
  shows "h_clone v h = (case clone x of Inl e \<Rightarrow> Inl e | Inr y \<Rightarrow> Inr (h_store y h))"
  using own_stringify [OF assms]
  by (auto simp: h_clone_def clone_def h_parse_def split: jsval.split sum.split)

lemma refines_apply:
  assumes o: "own h v pkg R" and b: "below h R"
  shows "case apply_forgery pkg fid (Some (make_reseal cn)) of
      Inl e \<Rightarrow> h_apply_forgery cn v fid h = Inl e
    | Inr (q, f) \<Rightarrow> \<exists>w h' S. h_apply_forgery cn v fid h = Inr (w, f, h') \<and> own h' w q S \<and>
        S \<subseteq> fresh h h' \<and> grows h h'"
proof (cases "List.find (\<lambda>f. f_id f = fid) FORGERIES")
  case None
  then show ?thesis by (simp add: apply_forgery_def h_apply_forgery_def)
next
  case (Some f)
  with find_forgery have f: "f \<in> set FORGERIES" "f_id f = fid" by blast+
  let ?H = "the (map_of h_mutators fid)"
  let ?G = "\<lambda>v h. if f_reseal f then h_reseal cn v h else Inr h"
  let ?K = "\<lambda>p. if f_reseal f then make_reseal cn p else Inr p"
  show ?thesis
  proof (cases "clone pkg")
    case (Inl e)
    then show ?thesis using Some own_clone [OF o b] by (simp add: apply_forgery_def h_apply_forgery_def)
  next
    case (Inr c)
    obtain w h1 where w: "h_store c h = (w, h1)" by (cases "h_store c h")
    with store_own have c: "own h1 w c (fresh h h1)" and g: "grows h h1" by blast+
    have st: "h_clone v h = Inr (w, h1)" using own_clone [OF o b] Inr w by simp
    have "edits ?G ?K" using edits_reseal edits_skip by (cases "f_reseal f") simp_all
    with mutators_refine [OF f(1)] have "edits (\<lambda>v h. rbind (?H v h) (?G v)) (\<lambda>x. rbind (f_mutate f x) ?K)"
      unfolding f(2) by (rule edits_then)
    from editsD [OF this c below_fresh] show ?thesis
    proof (cases rule: refinesE)
      case (1 e)
      then show ?thesis using Some Inr st
        by (auto simp: apply_forgery_def h_apply_forgery_def rbind_eq_Inl split: if_splits)
    next
      case (2 q h3 S)
      then have "h_apply_forgery cn v fid h = Inr (w, f, h3)" "apply_forgery pkg fid (Some (make_reseal cn)) = Inr (q, f)"
        using Some Inr st by (auto simp: apply_forgery_def h_apply_forgery_def rbind_eq_Inr split: if_splits)
      moreover have "grows h h3" using g 2(4) by (auto simp: grows_def ext_def fresh_def)
      moreover have "S \<subseteq> fresh h h3" using g 2(4) by (auto simp: grows_def ext_def fresh_def)
      ultimately show ?thesis using 2(3) by auto
    qed
  qed
qed

text \<open>C38: On a store of objects with references, where the mutators assign to cells as the code does,
applyForgery ends as its value-level model says, with the same package or the same exception,
and every cell that existed before, the clean package included, keeps its content and shares
none with the forged one.\<close>

theorem heap_forgery_refines:
  assumes "own h v pkg R" and "R \<subseteq> {..<hp_next h}"
  shows "(\<forall>e. apply_forgery pkg fid (Some (make_reseal cn)) = Inl e \<longrightarrow> h_apply_forgery cn v fid h = Inl e) \<and>
    (\<forall>q f. apply_forgery pkg fid (Some (make_reseal cn)) = Inr (q, f) \<longrightarrow>
       (\<exists>w h' S. h_apply_forgery cn v fid h = Inr (w, f, h') \<and> own h' w q S \<and> own h' v pkg R \<and>
          R \<inter> S = {} \<and> (\<forall>a < hp_next h. hp_cells h' a = hp_cells h a)))"
proof (intro conjI allI impI)
  have b: "below h R" using assms(2) by (simp add: below_def)
  note r = refines_apply [OF assms(1) b, of cn fid]
  fix e assume "apply_forgery pkg fid (Some (make_reseal cn)) = Inl e"
  with r show "h_apply_forgery cn v fid h = Inl e" by simp
next
  have b: "below h R" using assms(2) by (simp add: below_def)
  note r = refines_apply [OF assms(1) b, of cn fid]
  fix q f assume "apply_forgery pkg fid (Some (make_reseal cn)) = Inr (q, f)"
  with r obtain w h' S where w: "h_apply_forgery cn v fid h = Inr (w, f, h')" "own h' w q S"
    "S \<subseteq> fresh h h'" "grows h h'" by auto
  moreover have "own h' v pkg R" using assms(1) b w(4) by (rule own_grows)
  moreover have "R \<inter> S = {}" using w(3) b by (fastforce simp: below_def fresh_def)
  moreover have "\<forall>a < hp_next h. hp_cells h' a = hp_cells h a" using w(4) by (simp add: grows_def)
  ultimately show "\<exists>w h' S. h_apply_forgery cn v fid h = Inr (w, f, h') \<and> own h' w q S \<and> own h' v pkg R \<and>
      R \<inter> S = {} \<and> (\<forall>a < hp_next h. hp_cells h' a = hp_cells h a)" by blast
qed

definition empty_heap :: heap where
  "empty_heap = \<lparr>hp_cells = \<lambda>_. None, hp_next = 0\<rparr>"

theorem heap_forgery_refines_witness:
  "\<exists>v h w f h' q. h_store (JObj (fixture_pkg [])) empty_heap = (v, h) \<and>
     h_apply_forgery ident_canon v ''chainhash'' h = Inr (w, f, h') \<and>
     (\<exists>R. own h' v (JObj (fixture_pkg [])) R) \<and> (\<exists>S. own h' w q S) \<and> q \<noteq> JObj (fixture_pkg [])"
proof -
  obtain v h where s: "h_store (JObj (fixture_pkg [])) empty_heap = (v, h)"
    by (cases "h_store (JObj (fixture_pkg [])) empty_heap")
  with store_own have o: "own h v (JObj (fixture_pkg [])) (fresh empty_heap h)" by blast
  have b: "fresh empty_heap h \<subseteq> {..<hp_next h}" by (auto simp: fresh_def)
  have "genuine (fixture_pkg [])" "''chainhash'' \<in> set forgery_ids"
    by (simp_all add: fixture_genuine forgery_ids_def)
  from forgery_effect [OF this(1) ident_canon_total this(2)] obtain kvs' f where
    k: "apply_forgery (JObj (fixture_pkg [])) ''chainhash'' (Some (make_reseal ident_canon)) = Inr (JObj kvs', f)"
       "obj_get kvs' (target_field ''chainhash'') \<noteq> obj_get (fixture_pkg []) (target_field ''chainhash'')"
    by blast
  from heap_forgery_refines [OF o b] k(1) obtain w h' S where w:
    "h_apply_forgery ident_canon v ''chainhash'' h = Inr (w, f, h')" "own h' w (JObj kvs') S"
    "own h' v (JObj (fixture_pkg [])) (fresh empty_heap h)"
    "\<forall>a < hp_next h. hp_cells h' a = hp_cells h a" by blast
  have "JObj kvs' \<noteq> JObj (fixture_pkg [])" using k(2) by auto
  then show ?thesis using s w(1-3) by blast
qed

end
