(* ===== verification/TamperData.thy ===== *)
theory TamperData
  imports Tamper
begin

text \<open>
  What a forgery makes of a package is JSON data again: it can be printed, stored, pasted into
  the verify page and forged once more. A bundle kept as a JSON text is parsed and printed by
  the edit, so inside it any number may occur; only the text is part of the package.
\<close>

section \<open>Edits that keep JSON data\<close>

definition data_edit :: "(jsval \<Rightarrow> jsval res) \<Rightarrow> bool" where
  "data_edit F \<longleftrightarrow> (\<forall>x y. F x = Inr y \<longrightarrow> x \<noteq> JUndef \<and> (json_data x \<longrightarrow> json_data y) \<and> (\<not> absent x \<longrightarrow> \<not> absent y))"

named_theorems typing "edits that keep JSON data"

lemma data_editI:
  "(\<And>y. F JUndef \<noteq> Inr y) \<Longrightarrow> (\<And>x y. F x = Inr y \<Longrightarrow> json_data x \<Longrightarrow> json_data y) \<Longrightarrow> (\<And>x y. F x = Inr y \<Longrightarrow> \<not> absent x \<Longrightarrow> \<not> absent y) \<Longrightarrow>
   data_edit F"
  by (auto simp: data_edit_def)

lemma data_editD: "data_edit F \<Longrightarrow> F x = Inr y \<Longrightarrow> json_data x \<Longrightarrow> json_data y"
  by (auto simp: data_edit_def)

lemma set_prop_data: "set_prop p k x = Inr q \<Longrightarrow> json_data p \<Longrightarrow> json_data x \<Longrightarrow> json_data q"
  by (cases p) (auto simp del: json_data.simps simp: json_data_update)

lemma set_prop_absent: "set_prop p k x = Inr q \<Longrightarrow> absent q \<longleftrightarrow> absent p"
  by (cases p) auto

text \<open>A property of data is data or absent.\<close>

lemma get_prop_data:
  "get_prop p k = Inr x \<Longrightarrow> json_data p \<Longrightarrow> proto_member k = JUndef \<Longrightarrow> json_data x \<or> x = JUndef"
  by (cases p) (auto simp: obj_get_def list_all_iff simp del: of_int_of_nat_eq split: option.splits if_splits dest!: map_of_SomeD)

lemma index0_data: "index0 c = Inr x \<Longrightarrow> json_data c \<Longrightarrow> json_data x \<or> x = JUndef"
  by (cases c) (auto simp: list_all_iff split: list.splits option.splits dest!: map_of_SomeD)

lemma set_index0_data: "json_data c \<Longrightarrow> json_data x \<Longrightarrow> json_data (set_index0 c x)"
proof (cases c)
  case (JArr xs)
  moreover assume "json_data c" "json_data x"
  ultimately show ?thesis by (cases xs) simp_all
qed (auto simp: json_data_update simp del: json_data.simps(7))

lemma data_set [typing]: "json_data w \<Longrightarrow> data_edit (\<lambda>p. set_prop p k w)"
  by (rule data_editI) (simp, auto simp: set_prop_data set_prop_absent)

lemma json_data_empty [simp]: "json_data (JArr [])"
  by simp

lemma js_or_data: "json_data c \<or> c = JUndef \<Longrightarrow> json_data (js_or c (JArr []))"
  by (auto simp: js_or_def)

lemma data_edit_first [typing]:
  assumes "proto_member k = JUndef" and "data_edit F"
  shows "data_edit (\<lambda>p. edit_first p k F)"
proof (rule data_editI)
  show "edit_first JUndef k F \<noteq> Inr y" for y by (simp add: edit_first_def)
next
  fix x y assume "edit_first x k F = Inr y" and x: "json_data x"
  then obtain c0 e where c: "get_prop x k = Inr c0" "index0 (js_or c0 (JArr [])) = Inr e"
    and y: "(if truthy e then rbind (F e) (\<lambda>e'. set_prop x k (set_index0 (js_or c0 (JArr [])) e')) else Inr x) = Inr y"
    by (auto simp: edit_first_def rbind_eq_Inr Let_def)
  have d: "json_data (js_or c0 (JArr []))" using get_prop_data [OF c(1) x assms(1)] by (rule js_or_data)
  show "json_data y"
  proof (cases "truthy e")
    case True
    with index0_data [OF c(2) d] have "json_data e" by auto
    moreover from True y obtain e' where "F e = Inr e'" "set_prop x k (set_index0 (js_or c0 (JArr [])) e') = Inr y"
      by (auto simp: rbind_eq_Inr)
    ultimately show ?thesis using d x data_editD [OF assms(2)] by (blast intro: set_prop_data set_index0_data)
  qed (use x y in auto)
next
  fix x y assume "edit_first x k F = Inr y" and "\<not> absent x"
  then show "\<not> absent y"
    by (auto simp: edit_first_def rbind_eq_Inr Let_def set_prop_absent split: if_splits)
qed

lemma data_edit_approval [typing]:
  assumes "data_edit F" shows "data_edit (\<lambda>bd. edit_approval bd F)"
proof -
  have "data_edit (\<lambda>p. edit_first p k F)" if "k = ''approvalEvidence'' \<or> k = ''ApprovalEvidence''" for k
    using that by (intro typing assms) (auto simp: proto_member_def proto_methods_def)
  then show ?thesis
    by (fastforce simp: data_edit_def edit_approval_def approvals_key_def rbind_eq_Inr split: if_splits)
qed

lemma integral_int32: "integral (of_int32 w)"
  unfolding of_int32_def by (rule integral_of_int)

lemma flip_first_data: "flip_first v = Inr w \<Longrightarrow> json_data v \<Longrightarrow> json_data w"
  by (cases v rule: flip_first.cases) (auto simp: rbind_eq_Inr flip_byte_def integral_int32)

lemma data_flip [typing]:
  assumes "proto_member k = JUndef" shows "data_edit (\<lambda>v. flip_prop v k)"
proof (rule data_editI)
  show "flip_prop JUndef k \<noteq> Inr y" for y by (simp add: flip_prop_def)
next
  fix x y assume f: "flip_prop x k = Inr y" and x: "json_data x"
  then obtain a where a: "get_prop x k = Inr a" by (auto simp: flip_prop_def rbind_eq_Inr)
  show "json_data y"
  proof (cases "is_arr a")
    case True
    with get_prop_data [OF a x assms] have "json_data a" by auto
    moreover from f a True obtain b where "flip_first a = Inr b" "set_prop x k b = Inr y"
      by (auto simp: flip_prop_def rbind_eq_Inr)
    ultimately show ?thesis using x by (blast intro: set_prop_data flip_first_data)
  qed (use f a x in \<open>simp add: flip_prop_def\<close>)
next
  fix x y assume "flip_prop x k = Inr y" and "\<not> absent x"
  then show "\<not> absent y" by (auto simp: flip_prop_def rbind_eq_Inr set_prop_absent split: if_splits)
qed

lemma data_prop:
  assumes "proto_member k = JUndef" and "data_edit F"
  shows "data_edit (\<lambda>p. rbind (get_prop p k) (\<lambda>l. if truthy l then rbind (F l) (\<lambda>l'. set_prop p k l') else Inr p))"
proof (rule data_editI)
  show "rbind (get_prop JUndef k) (\<lambda>l. if truthy l then rbind (F l) (\<lambda>l'. set_prop JUndef k l') else Inr JUndef) \<noteq> Inr y" for y by simp
next
  fix x y assume f: "rbind (get_prop x k) (\<lambda>l. if truthy l then rbind (F l) (\<lambda>l'. set_prop x k l') else Inr x) = Inr y"
    and x: "json_data x"
  then obtain l where l: "get_prop x k = Inr l" by (auto simp: rbind_eq_Inr)
  show "json_data y"
  proof (cases "truthy l")
    case True
    with get_prop_data [OF l x assms(1)] have "json_data l" by auto
    moreover from f l True obtain l' where "F l = Inr l'" "set_prop x k l' = Inr y"
      by (auto simp: rbind_eq_Inr)
    ultimately show ?thesis using x data_editD [OF assms(2)] by (blast intro: set_prop_data)
  qed (use f l x in simp)
next
  fix x y
  assume "rbind (get_prop x k) (\<lambda>l. if truthy l then rbind (F l) (\<lambda>l'. set_prop x k l') else Inr x) = Inr y"
    and "\<not> absent x"
  then show "\<not> absent y" by (auto simp: rbind_eq_Inr set_prop_absent split: if_splits)
qed

lemma data_drop:
  assumes "proto_member k = JUndef"
  shows "data_edit (\<lambda>bd. rbind (get_prop bd k) (\<lambda>d. case d of JArr (_ # ds) \<Rightarrow> set_prop bd k (JArr ds) | _ \<Rightarrow> Inr bd))"
proof (rule data_editI)
  show "rbind (get_prop JUndef k) (\<lambda>d. case d of JArr (_ # ds) \<Rightarrow> set_prop JUndef k (JArr ds) | _ \<Rightarrow> Inr JUndef) \<noteq> Inr y" for y by simp
next
  fix x y assume f: "rbind (get_prop x k) (\<lambda>d. case d of JArr (_ # ds) \<Rightarrow> set_prop x k (JArr ds) | _ \<Rightarrow> Inr x) = Inr y"
    and x: "json_data x"
  then obtain d where d: "get_prop x k = Inr d" by (auto simp: rbind_eq_Inr)
  show "json_data y"
  proof (cases "\<exists>e es. d = JArr (e # es)")
    case True
    then obtain e es where e: "d = JArr (e # es)" by blast
    with get_prop_data [OF d x assms] have "json_data (JArr es)" by simp
    with f d e x show ?thesis by (auto intro: set_prop_data)
  next
    case False
    then have "y = x" using f d by (auto split: jsval.splits list.splits)
    with x show ?thesis by simp
  qed
next
  fix x y assume f: "rbind (get_prop x k) (\<lambda>d. case d of JArr (_ # ds) \<Rightarrow> set_prop x k (JArr ds) | _ \<Rightarrow> Inr x) = Inr y"
    and x: "\<not> absent x"
  then obtain d where d: "get_prop x k = Inr d" by (auto simp: rbind_eq_Inr)
  from f have "y = x \<or> (\<exists>ds. set_prop x k (JArr ds) = Inr y)"
    unfolding d by (auto split: jsval.splits list.splits)
  with x show "\<not> absent y" by (auto simp: set_prop_absent)
qed

text \<open>The parser yields no absent value.\<close>

lemma p_value_absent: "p_value n s = Some (v, r) \<Longrightarrow> \<not> absent v"
  by (cases n) (auto simp: obj_of_members_def p_word_def p_number_def Let_def
      split: list.splits if_splits option.splits prod.splits)

lemma parse_not_absent: "json_parse s = Inr v \<Longrightarrow> \<not> absent v"
  by (auto simp: json_parse_def simp del: p_value.simps dest: p_value_absent split: option.splits if_splits)

lemma data_bundle [typing]:
  assumes "data_edit F" shows "data_edit (\<lambda>p. with_bundle p F)"
proof (rule data_editI)
  show "with_bundle JUndef F \<noteq> Inr y" for y by (simp add: with_bundle_def)
next
  fix x y assume f: "with_bundle x F = Inr y" and x: "json_data x"
  then obtain b where b: "get_prop x ''bundleData'' = Inr b" by (auto simp: with_bundle_def rbind_eq_Inr)
  have "json_data b \<or> b = JUndef"
    using b x by (rule get_prop_data) (simp add: proto_member_def proto_methods_def)
  show "json_data y"
  proof (cases "is_str b")
    case True
    then obtain s where s: "b = JStr s" by (auto simp: is_str_iff)
    with f b obtain v v' where v: "json_parse s = Inr v" "F v = Inr v'" "set_prop x ''bundleData'' (json_stringify v') = Inr y"
      by (auto simp: with_bundle_def rbind_eq_Inr)
    then have "\<not> absent v'" using assms parse_not_absent by (auto simp: data_edit_def)
    then have "json_data (json_stringify v')" by (simp add: json_stringify_def)
    with v(3) x show ?thesis by (blast intro: set_prop_data)
  next
    case False
    with f b obtain v' where v: "F b = Inr v'" "set_prop x ''bundleData'' v' = Inr y"
      by (cases b) (auto simp: with_bundle_def rbind_eq_Inr)
    then have "b \<noteq> JUndef" using assms by (auto simp: data_edit_def)
    with \<open>json_data b \<or> b = JUndef\<close> v x show ?thesis using data_editD [OF assms] by (blast intro: set_prop_data)
  qed
next
  fix x y assume "with_bundle x F = Inr y" and "\<not> absent x"
  then show "\<not> absent y" by (auto simp: with_bundle_def rbind_eq_Inr set_prop_absent)
qed

section \<open>A forged package is data\<close>

lemma data_edit_cong: "data_edit F \<Longrightarrow> (\<And>x. F x = G x) \<Longrightarrow> data_edit G"
  by (simp add: data_edit_def)

lemma data_mutators: "f \<in> set FORGERIES \<Longrightarrow> data_edit (f_mutate f)"
proof -
  have k: "proto_member ''planHash'' = JUndef" "proto_member ''outcomeDigest'' = JUndef"
    "proto_member ''contentHash'' = JUndef" "proto_member ''link'' = JUndef"
    "proto_member ''inclusionProofs'' = JUndef" "proto_member ''trustSnapshot'' = JUndef"
    "proto_member ''pluginVersions'' = JUndef" "proto_member ''policyDecisions'' = JUndef"
    by (simp_all add: proto_member_def proto_methods_def)
  have "data_edit mutate_approver" "data_edit mutate_planhash" "data_edit mutate_outcome" "data_edit mutate_chainhash"
    "data_edit mutate_policy" "data_edit mutate_trust" "data_edit mutate_plugin"
    unfolding mutate_approver_def [abs_def] mutate_planhash_def [abs_def] mutate_outcome_def [abs_def]
      mutate_chainhash_def [abs_def] mutate_policy_def [abs_def] mutate_trust_def [abs_def] mutate_plugin_def [abs_def]
    by (intro typing data_prop data_drop k json_data.simps(5) [THEN iffD2] json_data_jint TrueI)+
  then show "f \<in> set FORGERIES \<Longrightarrow> data_edit (f_mutate f)" by (auto simp: FORGERIES_def)
qed

definition canon_bytes :: "canon \<Rightarrow> bool" where
  "canon_bytes cn \<longleftrightarrow> (\<forall>i bs. canon_hash cn i = Inr bs \<longrightarrow> list_all is_byte bs)"

lemma is_byte_data: "is_byte b \<Longrightarrow> json_data b"
  by (auto elim: is_byteE)

lemma apply_forgery_data:
  assumes "json_data pkg" and "canon_bytes cn"
    and "apply_forgery pkg fid (Some (make_reseal cn)) = Inr (q, f)"
  shows "json_data q"
proof -
  from assms(1,3) obtain p where p: "f \<in> set FORGERIES" "f_mutate f pkg = Inr p"
    "q = p \<or> make_reseal cn p = Inr q"
    by (rule apply_forgery_Inr) auto
  have "json_data p" using data_mutators [OF p(1)] p(2) assms(1) by (rule data_editD)
  then show "json_data q"
    using p(3)
  proof (elim disjE)
    assume "make_reseal cn p = Inr q"
    then obtain i bs where "canon_hash cn i = Inr bs" "set_prop p ''exportHash'' (JArr bs) = Inr q"
      by (auto simp: make_reseal_def rbind_eq_Inr)
    moreover from this have "json_data (JArr bs)"
      using assms(2) by (auto simp: canon_bytes_def list_all_iff is_byte_data)
    ultimately show "json_data q" using \<open>json_data p\<close> by (blast intro: set_prop_data)
  qed simp
qed

text \<open>C39: A forged package is JSON data again: printed and parsed it is the same package, so it can
be pasted into the verify page or forged once more.\<close>

theorem forged_package_is_data:
  assumes "json_data pkg" and "canon_bytes cn"
    and "apply_forgery pkg fid (Some (make_reseal cn)) = Inr (q, f)"
  shows "json_data q \<and> json_parse (json_text q) = Inr q \<and> clone q = Inr q"
  using apply_forgery_data [OF assms] by (simp add: clone_data json_parse_text)

definition zero_canon :: canon where
  "zero_canon = \<lparr>canon_hash = \<lambda>_. Inr (replicate 32 (jint 0)), canon_coerce32 = \<lambda>_. Inr (replicate 32 (jint 0))\<rparr>"

theorem forged_package_is_data_witness:
  "\<exists>q f. apply_forgery (JObj (fixture_pkg [])) ''outcome'' (Some (make_reseal zero_canon)) = Inr (q, f) \<and>
     json_parse (json_text q) = Inr q \<and> q \<noteq> JObj (fixture_pkg [])"
proof -
  have g: "genuine (fixture_pkg [])" by (simp add: fixture_genuine)
  have t: "canon_total zero_canon" by (simp add: canon_total_def zero_canon_def)
  have b: "canon_bytes zero_canon" by (auto simp: canon_bytes_def zero_canon_def list_all_iff is_byte_def)
  have "''outcome'' \<in> set forgery_ids" by (simp add: forgery_ids_def)
  from forgery_effect [OF g t this] obtain kvs' f where
    k: "apply_forgery (JObj (fixture_pkg [])) ''outcome'' (Some (make_reseal zero_canon)) = Inr (JObj kvs', f)"
    "obj_get kvs' (target_field ''outcome'') \<noteq> obj_get (fixture_pkg []) (target_field ''outcome'')" by blast
  have "json_data (JObj (fixture_pkg []))" using g by (rule genuineE)
  from forged_package_is_data [OF this b k(1)] k show ?thesis by auto
qed

end
