(* ===== verification/Spec2Isabelle.thy ===== *)
theory Spec2Isabelle
  imports VerifyPage StatusPage Wallet Session TamperHeap TamperData
begin

text \<open>
  Infrix Playground: a model of the browser program under \<open>web/\<close>.

  The program. The playground is a page that runs a governed flow on a node, shows the run as
  it streams (the Run Theater and its spine of stages), opens the proof receipt, verifies the
  proof in the browser and shows the verdict as a matrix of checks, replays it as a scene, and
  lets the visitor forge the proof and watch the verifier catch it (the Tamper Lab).
  \<open>playground.js\<close> is the application; \<open>spine.js\<close>, \<open>checkMatrix.js\<close>,
  \<open>bundleScene.js\<close> and \<open>tamper.js\<close> are its modules. The node (Go, under \<open>api/\<close>
  and \<open>worker/\<close>) is only seen through its answers and event frames, which the model takes
  to be arbitrary values; where a property is about the frames the node sends, it says so.

  The language. \<open>Prelude\<close>: exceptions as values, the interface of a keyed store
  (\<open>keyed_store\<close>), reachable states, the interface of a system with an invariant
  (\<open>invariant_system\<close>), which every state machine below interprets, and its extension by
  actions that settle (\<open>settling_system\<close>), interpreted on the loop of a run and on the lab. \<open>JsValue\<close>, \<open>JsText\<close>, \<open>JsonText\<close>,
  \<open>JsonRoundtrip\<close>, \<open>Uri\<close>: values and property access, conversions, \<open>JSON\<close> and its
  round trip (\<open>json_codec\<close>), URI components and theirs. \<open>Dom\<close>: the elements the
  renderers build with \<open>el\<close>.

  The modules. \<open>Tamper\<close> (\<open>tamper.js\<close>): the seven mutators, \<open>applyForgery\<close> and
  \<open>makeReseal\<close> on packages as values. \<open>forged_place\<close> and \<open>forged_value\<close> say where each
  forgery strikes and what it leaves there, \<open>look_at\<close> and \<open>put_at\<close> what a place is, and
  \<open>export_fields\<close> which record the seal covers, all written apart from the code: a forgery writes
  its value at its place and nothing else, a re-sealed package carries the hash of its own record
  and a naive one does not. \<open>TamperData\<close>: what they
  make is JSON data. \<open>TamperHeap\<close>: the same engine on a store of objects with references, with
  every assignment of the code; \<open>own\<close> says which cells a value occupies, \<open>edits\<close> that an edit
  of the store implements one of the value, and the engine refines \<open>Tamper\<close> without touching
  the package it was given.
  \<open>Spine\<close> (\<open>spine.js\<close>): stage colours with their cache, and the stage nodes.
  \<open>CheckMatrix\<close> (\<open>checkMatrix.js\<close>): the verdict matrix, its elements and reveal timers.
  \<open>BundleScene\<close> (\<open>bundleScene.js\<close>): the scene of a proof.

  The run. \<open>Channel\<close> (\<open>makeChannel\<close>): the queue between the event source and the loop, with
  the \<open>fifo\<close> interface the loop relies on. \<open>RunTheater\<close> (\<open>startRun\<close>): the set-up of a
  run and its loop as a machine whose ticks are the browser's callbacks in any order.
  \<open>event_wreck\<close> is what the statements before an exception have done. \<open>node_event\<close> and
  \<open>node_frame\<close> are the events of the node as it encodes them (\<open>api/runs.go\<close>,
  \<open>worker/worker.go\<close>), for the properties about the runs it streams; the loop itself takes any
  frame. \<open>narrate\<close> is the sequential specification; the invariant \<open>theater_inv\<close> makes the loop
  refine it, and \<open>work\<close> bounds every schedule of the loop's own callbacks. \<open>RunPage\<close>: the
  elements of a run, the request before the loop, and the ambient spine of the landing page, placed
  by the statements of \<open>renderHome\<close> in their order (\<open>home_stmts\<close>).

  The pages of \<open>playground.js\<close>. \<open>Route\<close> (\<open>route\<close>), \<open>Telemetry\<close>
  (\<open>telemetry\<close>), \<open>Theme\<close> (\<open>initTheme\<close>, \<open>applyTheme\<close>). \<open>Flows\<close>: the
  registry \<open>FLOWS\<close> and the reproduction panel. \<open>App\<close>: \<open>api\<close>, \<open>showError\<close>,
  \<open>boot\<close> and the landing page with what its buttons do. \<open>Lab\<close> (\<open>renderLab\<close>): attacks
  and resets as continuations that end in any order. \<open>Receipt\<close> (\<open>renderReceipt\<close>): the
  eager verification, the re-verify button, the disclosure with its replay. \<open>VerifyPage\<close>
  (\<open>renderVerify\<close>): the four doors a proof can take and the pending verifications.
  \<open>StatusPage\<close> (\<open>renderStatus\<close>), \<open>Wallet\<close> (\<open>renderMetaMask\<close>). \<open>Session\<close>: a visit from
  \<open>boot\<close> on, in which navigation, requests, runs, receipts and labs meet, shown or left, and
  whatever they report goes to the telemetry.
  A page with callbacks is a record and a function from an event to the next state (\<open>lab_do\<close>,
  \<open>verify_do\<close>, \<open>session_do\<close> and so on, \<open>None\<close> for a callback that cannot happen); its
  step relation allows the events in every order. This theory ends with a property across
  components: a forged package, printed and carried through the verify page, is shown failing.

  Parameters. The shared verifier and the canonical hasher with its \<open>coerce32\<close> (fields of
  \<open>canon\<close>, \<open>lab_env\<close>, \<open>receipt_env\<close> and \<open>session_env\<close>), the receipt card, the card of a user error,
  whether the Cinema core accepts a scene, the computed style, the answers of the node and of
  the wallet, and the message of a host exception are arguments of the definitions that use
  them. What a property needs of them is one of its hypotheses: that a verifier rejects forged
  packages, that a hasher returns bytes, never throws, or has no collision.

  Conventions. A JavaScript value is a \<open>jsval\<close>; a function that can throw returns
  \<open>jserr + 'a\<close>. Object literals used as tables answer the names plain objects inherit, as in
  the language. Strings are the UTF-8 bytes of their text. Numbers are rationals or one of the
  special values; rounding to 53 bits is not modelled. The JSON parser is fuelled by the length
  of its input, which \<open>json_fuel_enough\<close> shows to be enough; a deep read of the store by the
  number of its cells, which \<open>own_load\<close> shows to be enough. Outside \<open>TamperHeap\<close> objects
  are values: an edit through an element is written back to its container.

  Not modelled: layout, animation and scrolling; the media query behind
  \<open>prefersReducedMotion\<close>, whose answer is an argument; the modules served from outside the
  repository and the Go service, which are parameters as said above; import statements.
\<close>

section \<open>A forged proof on the verify page\<close>

text \<open>C12: Any of the seven forgeries of a genuine package, carried as text through any door of the
verify page, shows a failing matrix, provided the verifier rejects the forged package: neither
the forgery, nor the printing and parsing, nor the page hides it.\<close>

theorem forged_proof_exposed_when_pasted:
  assumes "genuine kvs" and "canon_total cn" and "canon_bytes cn" and "fid \<in> set forgery_ids"
    and rejects: "\<And>q f. apply_forgery (JObj kvs) fid (Some (make_reseal cn)) = Inr (q, f) \<Longrightarrow> q \<noteq> JObj kvs \<Longrightarrow>
      \<exists>result (m :: action matrix). re_verifier env q = Inr result \<and>
      get_prop result ''passed'' = Inr (JBool False) \<and> mount_check_matrix result (matrix_opts (re_reduce env) 80) = Inr m"
  shows "\<exists>q f. apply_forgery (JObj kvs) fid (Some (make_reseal cn)) = Inr (q, f) \<and>
    json_text q \<noteq> json_text (JObj kvs) \<and>
    (\<forall>v. \<forall>evs \<in> set (doors (json_text q)). \<exists>m. mx_state m = ''fail'' \<and>
       vp_out (verify_run env (evs @ [Verified (length (vp_tasks v))]) v) = [MatrixShown m])"
proof -
  have data: "json_data (JObj kvs)" using assms(1) by (rule genuineE)
  obtain kvs' f where a: "apply_forgery (JObj kvs) fid (Some (make_reseal cn)) = Inr (JObj kvs', f)"
    "obj_get kvs' (target_field fid) \<noteq> obj_get kvs (target_field fid)"
    using forgery_effect [OF assms(1,2,4)] by blast
  then have other: "JObj kvs' \<noteq> JObj kvs" by auto
  have q: "json_data (JObj kvs')" by (rule apply_forgery_data [OF data assms(3) a(1)])
  have ne: "json_text (JObj kvs') \<noteq> json_text (JObj kvs)"
    using json_parse_text [OF q] json_parse_text [OF data] other by auto
  obtain result and m :: "action matrix" where r: "re_verifier env (JObj kvs') = Inr result"
    "get_prop result ''passed'' = Inr (JBool False)" "mount_check_matrix result (matrix_opts (re_reduce env) 80) = Inr m"
    using rejects [OF a(1) other] by blast
  have "mx_state m = ''fail''" using mount_tells [OF r(3)] r(2) by (auto simp: matrix_tells_def all_pass_def split: if_splits)
  then have "\<exists>m. mx_state m = ''fail'' \<and>
      vp_out (verify_run env (evs @ [Verified (length (vp_tasks v))]) v) = [MatrixShown m]"
    if "evs \<in> set (doors (json_text (JObj kvs')))" for v evs
    using door_judged [OF q that r(1,3)] by blast
  with a(1) ne show ?thesis by blast
qed

text \<open>A verifier that passes exactly one package.\<close>

definition exact_env :: "jsval \<Rightarrow> receipt_env" where
  "exact_env good = \<lparr>re_verifier = \<lambda>p. Inr (toy_verdict (p = good)), re_reduce = True, re_emsg = \<lambda>_. ''error'',
     re_origin = ''''\<rparr>"

theorem forged_proof_exposed_when_pasted_witness:
  "\<exists>q f m. apply_forgery (JObj (fixture_pkg [])) ''plugin'' (Some (make_reseal zero_canon)) = Inr (q, f) \<and>
     vp_out (verify_run (exact_env (JObj (fixture_pkg []))) [Typed (json_text q), VerifyClick, Verified 0] open_verify) = [MatrixShown m] \<and>
     mx_state m = ''fail''"
proof -
  let ?c = "JObj (fixture_pkg [])"
  have g: "genuine (fixture_pkg [])" by (simp add: fixture_genuine)
  have t: "canon_total zero_canon" by (simp add: canon_total_def zero_canon_def)
  have b: "canon_bytes zero_canon" by (auto simp: canon_bytes_def zero_canon_def list_all_iff is_byte_def)
  have i: "''plugin'' \<in> set forgery_ids" by (simp add: forgery_ids_def)
  have "\<exists>result (m :: action matrix). re_verifier (exact_env ?c) q = Inr result \<and>
      get_prop result ''passed'' = Inr (JBool False) \<and>
      mount_check_matrix result (matrix_opts (re_reduce (exact_env ?c)) 80) = Inr m" if "q \<noteq> ?c" for q
    using that toy_mount [of False] toy_verdicts(3) [of False] by (simp add: exact_env_def)
  from forged_proof_exposed_when_pasted [OF g t b i this] obtain q f where q:
    "apply_forgery ?c ''plugin'' (Some (make_reseal zero_canon)) = Inr (q, f)"
    "\<forall>v. \<forall>evs \<in> set (doors (json_text q)). \<exists>m. mx_state m = ''fail'' \<and>
       vp_out (verify_run (exact_env ?c) (evs @ [Verified (length (vp_tasks v))]) v) = [MatrixShown m]" by blast
  have "[Typed (json_text q), VerifyClick] \<in> set (doors (json_text q))" by (simp add: doors_def)
  with q(2) obtain m where "mx_state m = ''fail''"
    "vp_out (verify_run (exact_env ?c) ([Typed (json_text q), VerifyClick] @ [Verified (length (vp_tasks open_verify))]) open_verify) =
     [MatrixShown m]" by blast
  with q(1) show ?thesis by (auto simp: open_verify_def)
qed

end
